(* ===== verification/Prelude.thy ===== *)
theory Prelude
  imports Main "HOL-Library.Multiset"
begin

section \<open>Prelude: errors, results, and list lemmas shared by the components\<close>

text \<open>
  Every theory of the development imports this one.  It holds
  \<^item> the exceptions of \<^verbatim>\<open>errors.py\<close>, \<^verbatim>\<open>market_data/errors.py\<close> and \<^verbatim>\<open>news/errors.py\<close> together
    with the built-in ones the code lets escape, as the constructors of one type;
  \<^item> results (an exception or a value), and stateful programs that keep the state reached
    when an exception escapes (a committed database row stays committed);
  \<^item> the list functions the components share: the pairwise walk of \<^verbatim>\<open>itertools.pairwise\<close>,
    order-preserving deduplication (\<^verbatim>\<open>dict.fromkeys\<close>), and stable insertion sort
    (\<^verbatim>\<open>sorted\<close>), with their lemmas;
  \<^item> the collections of hints the component proofs use.
\<close>

named_theorems result_simps \<open>evaluation of results and of stateful programs\<close>
named_theorems keep_simps \<open>what an operation leaves unchanged\<close>

subsection \<open>Exceptions and results\<close>

datatype exn =
    DomainValidationError string
  | MarketDataValidationError string
  | NewsValidationError string
  | InvalidTransitionError string
  | RecordNotFoundError string
  | DuplicateRecordError string
  | ConcurrencyError string
  | SecurityError string
  | ConfigurationError string
  | ValueError string
  | KeyError string
  | IntegrityError string
  | TypeError string
  | HistoricalDataError string
  | StateApiError string
  | NewsTransportError string
  | MarketDataTransportError string
  | MarketDataHttpError int
  | MarketDataRateLimitError int
  | MarketDataResponseTooLargeError string
  | StopIteration
  | DecimalDivisionByZero
  | DecimalInvalidOperation

type_synonym 'a result = "exn + 'a"

definition bind_result :: "'a result \<Rightarrow> ('a \<Rightarrow> 'b result) \<Rightarrow> 'b result" where
  "bind_result r f = (case r of Inl e \<Rightarrow> Inl e | Inr x \<Rightarrow> f x)"

definition is_ok :: "'a result \<Rightarrow> bool" where
  "is_ok r = (case r of Inl _ \<Rightarrow> False | Inr _ \<Rightarrow> True)"

lemma bind_result_Inl [simp, result_simps]: "bind_result (Inl e) f = Inl e"
  by (simp add: bind_result_def)

lemma bind_result_Inr [simp, result_simps]: "bind_result (Inr x) f = f x"
  by (simp add: bind_result_def)

lemma bind_result_eq_Inr:
  "bind_result r f = Inr y \<longleftrightarrow> (\<exists>x. r = Inr x \<and> f x = Inr y)"
  by (cases r) auto

lemma bind_result_eq_Inl:
  "bind_result r f = Inl e \<longleftrightarrow> r = Inl e \<or> (\<exists>x. r = Inr x \<and> f x = Inl e)"
  by (cases r) auto

lemma is_ok_Inl [simp, result_simps]: "\<not> is_ok (Inl e)"
  by (simp add: is_ok_def)

lemma is_ok_Inr [simp, result_simps]: "is_ok (Inr x)"
  by (simp add: is_ok_def)

lemma is_ok_iff: "is_ok r \<longleftrightarrow> (\<exists>x. r = Inr x)"
  by (cases r) auto

text \<open>Applying a fallible function to every element of a list stops at the first exception.\<close>

fun map_result :: "('a \<Rightarrow> 'b result) \<Rightarrow> 'a list \<Rightarrow> 'b list result" where
  "map_result f [] = Inr []"
| "map_result f (x # xs) =
     bind_result (f x) (\<lambda>y. bind_result (map_result f xs) (\<lambda>ys. Inr (y # ys)))"

lemma map_result_Inr_length: "map_result f xs = Inr ys \<Longrightarrow> length ys = length xs"
  by (induction xs arbitrary: ys) (auto simp: bind_result_eq_Inr)

lemma map_result_Inr_nth:
  "map_result f xs = Inr ys \<Longrightarrow> i < length xs \<Longrightarrow> f (xs ! i) = Inr (ys ! i)"
  by (induction xs arbitrary: ys i) (auto simp: bind_result_eq_Inr nth_Cons split: nat.splits)

lemma map_result_total: "(\<And>x. x \<in> set xs \<Longrightarrow> f x = Inr (g x)) \<Longrightarrow> map_result f xs = Inr (map g xs)"
  by (induction xs) auto

lemma map_result_set:
  "map_result f xs = Inr ys \<Longrightarrow> y \<in> set ys \<Longrightarrow> \<exists>x \<in> set xs. f x = Inr y"
  by (induction xs arbitrary: ys) (auto simp: bind_result_eq_Inr)

text \<open>A loop over a list that may raise, with the state threaded through.\<close>

fun fold_result :: "('a \<Rightarrow> 's \<Rightarrow> 's result) \<Rightarrow> 'a list \<Rightarrow> 's \<Rightarrow> 's result" where
  "fold_result f [] s = Inr s"
| "fold_result f (x # xs) s = bind_result (f x s) (fold_result f xs)"

lemma fold_result_append:
  "fold_result f (xs @ ys) s = bind_result (fold_result f xs s) (fold_result f ys)"
proof (induction xs arbitrary: s)
  case (Cons x xs)
  then show ?case by (cases "f x s") simp_all
qed simp

lemma fold_result_invariant:
  "fold_result f xs s = Inr t \<Longrightarrow> I s \<Longrightarrow> (\<And>x s t. x \<in> set xs \<Longrightarrow> I s \<Longrightarrow> f x s = Inr t \<Longrightarrow> I t) \<Longrightarrow> I t"
  by (induction xs arbitrary: s) (auto simp: bind_result_eq_Inr)

subsection \<open>Stateful programs that may raise\<close>

text \<open>
  A program over a state of type \<open>'s\<close> returns an exception or a value, and the state it
  reached in either case.
\<close>

type_synonym ('s, 'a) program = "'s \<Rightarrow> 'a result \<times> 's"

definition return_p :: "'a \<Rightarrow> ('s, 'a) program" where
  "return_p x = (\<lambda>s. (Inr x, s))"

definition raise_p :: "exn \<Rightarrow> ('s, 'a) program" where
  "raise_p e = (\<lambda>s. (Inl e, s))"

definition bind_p :: "('s, 'a) program \<Rightarrow> ('a \<Rightarrow> ('s, 'b) program) \<Rightarrow> ('s, 'b) program" where
  "bind_p m f = (\<lambda>s. case m s of (Inl e, t) \<Rightarrow> (Inl e, t) | (Inr x, t) \<Rightarrow> f x t)"

text \<open>A query reads the state; a transaction installs the new state only when it succeeds.\<close>

definition query_p :: "('s \<Rightarrow> 'a result) \<Rightarrow> ('s, 'a) program" where
  "query_p q = (\<lambda>s. (q s, s))"

definition transact_p :: "('s \<Rightarrow> 's result) \<Rightarrow> ('s, unit) program" where
  "transact_p f = (\<lambda>s. case f s of Inl e \<Rightarrow> (Inl e, s) | Inr t \<Rightarrow> (Inr (), t))"

lemma return_p_apply [simp, result_simps]: "return_p x s = (Inr x, s)"
  by (simp add: return_p_def)

lemma raise_p_apply [simp, result_simps]: "raise_p e s = (Inl e, s)"
  by (simp add: raise_p_def)

lemma query_p_apply [simp, result_simps]: "query_p q s = (q s, s)"
  by (simp add: query_p_def)

lemma bind_p_Inl: "m s = (Inl e, t) \<Longrightarrow> bind_p m f s = (Inl e, t)"
  by (simp add: bind_p_def)

lemma bind_p_Inr: "m s = (Inr x, t) \<Longrightarrow> bind_p m f s = f x t"
  by (simp add: bind_p_def)

lemma bind_p_query [simp, result_simps]:
  "bind_p (query_p q) f s = (case q s of Inl e \<Rightarrow> (Inl e, s) | Inr x \<Rightarrow> f x s)"
  by (simp add: bind_p_def split: sum.splits)

lemma bind_p_return [simp, result_simps]: "bind_p (return_p x) f s = f x s"
  by (simp add: bind_p_def)

lemma bind_p_transact [simp, result_simps]:
  "bind_p (transact_p g) f s = (case g s of Inl e \<Rightarrow> (Inl e, s) | Inr t \<Rightarrow> f () t)"
  by (simp add: bind_p_def transact_p_def split: sum.splits)

lemma transact_p_Inl [simp, result_simps]: "f s = Inl e \<Longrightarrow> transact_p f s = (Inl e, s)"
  by (simp add: transact_p_def)

lemma transact_p_Inr [simp, result_simps]: "f s = Inr t \<Longrightarrow> transact_p f s = (Inr (), t)"
  by (simp add: transact_p_def)

lemma bind_p_eq_Inr:
  "bind_p m f s = (Inr y, u) \<longleftrightarrow> (\<exists>x t. m s = (Inr x, t) \<and> f x t = (Inr y, u))"
  by (auto simp: bind_p_def split: prod.splits sum.splits)

lemma bind_p_assoc: "bind_p (bind_p m f) g s = bind_p m (\<lambda>x. bind_p (f x) g) s"
  by (simp add: bind_p_def split: prod.splits sum.splits)

subsection \<open>Walking neighbours\<close>

text \<open>\<open>pairwise_all P xs\<close>: \<^verbatim>\<open>all(P(a, b) for a, b in pairwise(xs))\<close>.\<close>

fun pairwise_all :: "('a \<Rightarrow> 'a \<Rightarrow> bool) \<Rightarrow> 'a list \<Rightarrow> bool" where
  "pairwise_all P [] = True"
| "pairwise_all P [x] = True"
| "pairwise_all P (x # y # zs) = (P x y \<and> pairwise_all P (y # zs))"

text \<open>\<open>pairwise_map f xs\<close>: \<^verbatim>\<open>[f(a, b) for a, b in pairwise(xs)]\<close>.\<close>

fun pairwise_map :: "('a \<Rightarrow> 'a \<Rightarrow> 'b) \<Rightarrow> 'a list \<Rightarrow> 'b list" where
  "pairwise_map f [] = []"
| "pairwise_map f [x] = []"
| "pairwise_map f (x # y # zs) = f x y # pairwise_map f (y # zs)"

lemma length_pairwise_map [simp]: "length (pairwise_map f xs) = length xs - 1"
  by (induction f xs rule: pairwise_map.induct) auto

lemma pairwise_all_Cons:
  "pairwise_all P (x # ys) \<longleftrightarrow> (ys \<noteq> [] \<longrightarrow> P x (hd ys)) \<and> pairwise_all P ys"
  by (cases ys) auto

lemma pairwise_all_nth:
  "pairwise_all P xs \<Longrightarrow> Suc i < length xs \<Longrightarrow> P (xs ! i) (xs ! Suc i)"
  by (induction P xs arbitrary: i rule: pairwise_all.induct) (auto simp: nth_Cons split: nat.splits)

lemma pairwise_all_sorted_wrt:
  "(\<And>a b c. P a b \<Longrightarrow> P b c \<Longrightarrow> P a c) \<Longrightarrow> pairwise_all P xs \<longleftrightarrow> sorted_wrt P xs"
proof (induction P xs rule: pairwise_all.induct)
  case (3 P x y zs)
  have "P x y \<and> sorted_wrt P (y # zs) \<longleftrightarrow> sorted_wrt P (x # y # zs)"
    by (auto intro: "3.prems")
  then show ?case using "3.IH" "3.prems" by simp
qed auto

lemma pairwise_all_append:
  "pairwise_all P (xs @ ys) \<longleftrightarrow>
     pairwise_all P xs \<and> pairwise_all P ys \<and> (xs \<noteq> [] \<and> ys \<noteq> [] \<longrightarrow> P (last xs) (hd ys))"
  by (induction xs) (auto simp: pairwise_all_Cons)

subsection \<open>Order-preserving deduplication\<close>

text \<open>\<^verbatim>\<open>tuple(dict.fromkeys(xs))\<close> keeps the first occurrence of every element.\<close>

fun fromkeys :: "'a list \<Rightarrow> 'a list" where
  "fromkeys [] = []"
| "fromkeys (x # xs) = x # filter (\<lambda>y. y \<noteq> x) (fromkeys xs)"

lemma set_fromkeys [simp]: "set (fromkeys xs) = set xs"
  by (induction xs) auto

lemma distinct_fromkeys [simp]: "distinct (fromkeys xs)"
  by (induction xs) auto

lemma fromkeys_id: "distinct xs \<Longrightarrow> fromkeys xs = xs"
  by (induction xs) (auto intro!: filter_True)

lemma fromkeys_eq_Nil [simp]: "fromkeys xs = [] \<longleftrightarrow> xs = []"
  by (cases xs) auto

subsection \<open>Stable sorting by a comparison\<close>

text \<open>
  \<^verbatim>\<open>sorted(xs, key=...)\<close> is stable.  \<open>sort_by le\<close> inserts each element before the first
  one it does not exceed, from the right, which is the stable order.
\<close>

fun insert_by :: "('a \<Rightarrow> 'a \<Rightarrow> bool) \<Rightarrow> 'a \<Rightarrow> 'a list \<Rightarrow> 'a list" where
  "insert_by le x [] = [x]"
| "insert_by le x (y # ys) = (if le x y then x # y # ys else y # insert_by le x ys)"

fun sort_by :: "('a \<Rightarrow> 'a \<Rightarrow> bool) \<Rightarrow> 'a list \<Rightarrow> 'a list" where
  "sort_by le [] = []"
| "sort_by le (x # xs) = insert_by le x (sort_by le xs)"

lemma set_insert_by [simp]: "set (insert_by le x xs) = insert x (set xs)"
  by (induction xs) auto

lemma length_insert_by [simp]: "length (insert_by le x xs) = Suc (length xs)"
  by (induction xs) auto

lemma set_sort_by [simp]: "set (sort_by le xs) = set xs"
  by (induction xs) auto

lemma length_sort_by [simp]: "length (sort_by le xs) = length xs"
  by (induction xs) auto

lemma sort_by_eq_Nil [simp]: "sort_by le xs = [] \<longleftrightarrow> xs = []"
  by (metis length_0_conv length_sort_by)

lemma distinct_insert_by: "distinct (insert_by le x xs) \<longleftrightarrow> x \<notin> set xs \<and> distinct xs"
  by (induction xs) auto

lemma distinct_sort_by [simp]: "distinct (sort_by le xs) \<longleftrightarrow> distinct xs"
  by (induction xs) (auto simp: distinct_insert_by)

lemma filter_insert_by_neg: "\<not> P x \<Longrightarrow> filter P (insert_by le x xs) = filter P xs"
  by (induction xs) auto

lemma sum_list_insert_by: "sum_list (map f (insert_by le x xs)) = (f x :: 'b :: comm_monoid_add) + sum_list (map f xs)"
  by (induction xs) (auto simp: ac_simps)

lemma sum_list_sort_by: "sum_list (map f (sort_by le xs)) = (sum_list (map f xs) :: 'b :: comm_monoid_add)"
  by (induction xs) (auto simp: sum_list_insert_by)

lemma length_filter_insert_by:
  "length (filter P (insert_by le x xs)) = (if P x then 1 else 0) + length (filter P xs)"
  by (induction xs) auto

lemma length_filter_sort_by: "length (filter P (sort_by le xs)) = length (filter P xs)"
  by (induction xs) (auto simp: length_filter_insert_by)

lemma sorted_wrt_insert_by:
  assumes "sorted_wrt le xs"
    and "\<And>a b. a \<in> insert x (set xs) \<Longrightarrow> b \<in> insert x (set xs) \<Longrightarrow> le a b \<or> le b a"
    and "\<And>a b c. le a b \<Longrightarrow> le b c \<Longrightarrow> le a c"
  shows "sorted_wrt le (insert_by le x xs)"
  using assms
proof (induction xs)
  case Nil
  then show ?case by simp
next
  case (Cons y ys)
  have "sorted_wrt le (insert_by le x ys)"
    using Cons.prems by (intro Cons.IH) auto
  moreover have "le x y \<or> le y x" using Cons.prems(2) by auto
  ultimately show ?case using Cons.prems(1,3) by auto
qed

lemma sorted_wrt_sort_by:
  assumes "\<And>a b. a \<in> set xs \<Longrightarrow> b \<in> set xs \<Longrightarrow> le a b \<or> le b a"
    and "\<And>a b c. le a b \<Longrightarrow> le b c \<Longrightarrow> le a c"
  shows "sorted_wrt le (sort_by le xs)"
  using assms(1)
proof (induction xs)
  case (Cons x xs)
  have sorted: "sorted_wrt le (sort_by le xs)"
    by (rule Cons.IH) (rule Cons.prems; simp)
  have "sorted_wrt le (insert_by le x (sort_by le xs))"
    by (rule sorted_wrt_insert_by [OF sorted _ assms(2)]; (assumption | rule Cons.prems; simp))
  then show ?case by simp
qed simp

lemma sort_by_id: "sorted_wrt le xs \<Longrightarrow> sort_by le xs = xs"
proof (induction xs)
  case (Cons x xs)
  then show ?case by (cases xs) auto
qed simp

lemma mset_insert_by [simp]: "mset (insert_by le x xs) = add_mset x (mset xs)"
  by (induction xs) auto

lemma mset_sort_by [simp]: "mset (sort_by le xs) = mset xs"
  by (induction xs) auto

text \<open>A total, antisymmetric order leaves no choice: the sorted list depends on the elements only.\<close>

lemma sorted_wrt_unique:
  assumes "sorted_wrt le xs" "sorted_wrt le ys" "mset xs = mset ys"
    and "\<And>a b. a \<in> set xs \<Longrightarrow> b \<in> set xs \<Longrightarrow> le a b \<Longrightarrow> le b a \<Longrightarrow> a = b"
  shows "xs = ys"
  using assms
proof (induction xs arbitrary: ys)
  case (Cons x xs)
  then obtain y zs where ys: "ys = y # zs" by (cases ys) auto
  have set_eq: "set (x # xs) = set (y # zs)" using Cons.prems(3) ys by (metis set_mset_mset)
  have xy: "x = y"
  proof (rule ccontr)
    assume ne: "x \<noteq> y"
    with set_eq have "y \<in> set xs" "x \<in> set zs" by auto
    then have "le x y" "le y x" using Cons.prems(1,2) ys by auto
    with ne show False using Cons.prems(4) \<open>y \<in> set xs\<close> by auto
  qed
  have "xs = zs"
    by (rule Cons.IH) (use Cons.prems ys xy in auto)
  then show ?case using xy ys by simp
qed simp

lemma sort_by_permuted:
  assumes "mset xs = mset ys"
    and "\<And>a b. a \<in> set xs \<Longrightarrow> b \<in> set xs \<Longrightarrow> le a b \<or> le b a"
    and "\<And>a b c. le a b \<Longrightarrow> le b c \<Longrightarrow> le a c"
    and "\<And>a b. a \<in> set xs \<Longrightarrow> b \<in> set xs \<Longrightarrow> le a b \<Longrightarrow> le b a \<Longrightarrow> a = b"
  shows "sort_by le xs = sort_by le ys"
proof (rule sorted_wrt_unique)
  have s: "set ys = set xs" using assms(1) by (metis set_mset_mset)
  show "sorted_wrt le (sort_by le xs)" by (rule sorted_wrt_sort_by [OF assms(2,3)])
  show "sorted_wrt le (sort_by le ys)" by (rule sorted_wrt_sort_by [OF _ assms(3)]) (use assms(2) s in auto)
  show "mset (sort_by le xs) = mset (sort_by le ys)" using assms(1) by simp
  show "\<And>a b. a \<in> set (sort_by le xs) \<Longrightarrow> b \<in> set (sort_by le xs) \<Longrightarrow> le a b \<Longrightarrow> le b a \<Longrightarrow> a = b"
    using assms(4) by simp
qed

subsection \<open>Lists indexed from the end\<close>

text \<open>\<^verbatim>\<open>xs[-n:]\<close> is the last \<open>n\<close> elements, the whole list when it is shorter.\<close>

definition take_last :: "nat \<Rightarrow> 'a list \<Rightarrow> 'a list" where
  "take_last n xs = drop (length xs - n) xs"

lemma length_take_last [simp]: "length (take_last n xs) = min n (length xs)"
  by (simp add: take_last_def)

lemma set_take_last: "set (take_last n xs) \<subseteq> set xs"
  by (simp add: take_last_def set_drop_subset)

lemma find_SomeD: "List.find P xs = Some x \<Longrightarrow> x \<in> set xs \<and> P x"
  by (induction xs) (auto split: if_splits)

lemma find_None_iff': "List.find P xs = None \<longleftrightarrow> (\<forall>x \<in> set xs. \<not> P x)"
  by (induction xs) auto

end
