(* ===== verification/Decimals.thy ===== *)
theory Decimals
  imports Prelude Complex_Main
begin

section \<open>Decimal arithmetic in the default context\<close>

text \<open>
  The program computes every price, cost and R multiple with \<^verbatim>\<open>decimal.Decimal\<close> in the
  default context: a result is the exact one rounded half-even to 28 significant digits.
  A finite decimal is modelled by its value, a rational (\<open>decimal\<close>); the operators of
  the code are \<open>dadd\<close>, \<open>dsub\<close>, \<open>dmul\<close>, \<open>ddiv\<close>, \<open>dneg\<close>, \<open>dabs\<close>, \<open>dsum\<close>, \<open>dsqrt\<close> and
  \<open>quantize\<close>, which round exactly where Python rounds.  Comparisons and \<^verbatim>\<open>min\<close>/\<^verbatim>\<open>max\<close> do not
  round.  Not modelled: the exponent limits (values beyond \<open>10 ^ 999999\<close>), and the number
  of trailing zeros, which only the text of a number shows.

  What a client needs of the rounding is the locale \<open>decimal_rounding\<close>: it is monotone,
  odd, idempotent, and keeps the sign.  The interpretation \<open>dec\<close> shows that the 28-digit
  half-even rounding satisfies it.
\<close>

type_synonym decimal = rat

subsection \<open>The interface of a rounding\<close>

locale decimal_rounding =
  fixes rnd :: "rat \<Rightarrow> rat"
  assumes rnd_mono: "x \<le> y \<Longrightarrow> rnd x \<le> rnd y"
    and rnd_uminus: "rnd (- x) = - rnd x"
    and rnd_idem: "rnd (rnd x) = rnd x"
    and rnd_eq_0: "rnd x = 0 \<longleftrightarrow> x = 0"
begin

lemma zero: "rnd 0 = 0"
  by (simp add: rnd_eq_0)

lemma nonneg: "0 \<le> rnd x \<longleftrightarrow> 0 \<le> x"
proof
  assume "0 \<le> x"
  then show "0 \<le> rnd x" using rnd_mono [of 0 x] zero by simp
next
  assume h: "0 \<le> rnd x"
  show "0 \<le> x"
  proof (rule ccontr)
    assume "\<not> 0 \<le> x"
    then have "rnd x \<le> 0" and "rnd x \<noteq> 0"
      using rnd_mono [of x 0] zero rnd_eq_0 [of x] by auto
    with h show False by simp
  qed
qed

lemma pos: "0 < rnd x \<longleftrightarrow> 0 < x"
  using nonneg [of x] rnd_eq_0 [of x] by (auto simp: order_less_le)

lemma nonpos: "rnd x \<le> 0 \<longleftrightarrow> x \<le> 0"
  using pos [of x] by (simp add: not_less [symmetric])

lemma neg: "rnd x < 0 \<longleftrightarrow> x < 0"
  using nonneg [of x] by (simp add: not_le [symmetric])

lemma abs_rnd: "\<bar>rnd x\<bar> = rnd \<bar>x\<bar>"
  using nonneg [of x] by (cases "0 \<le> x") (auto simp: abs_if rnd_uminus not_le neg)

lemma lower: "rnd c = c \<Longrightarrow> c \<le> x \<Longrightarrow> c \<le> rnd x"
  using rnd_mono [of c x] by simp

lemma upper: "rnd c = c \<Longrightarrow> x \<le> c \<Longrightarrow> rnd x \<le> c"
  using rnd_mono [of x c] by simp

lemma less_lower: "rnd c = c \<Longrightarrow> rnd x < c \<Longrightarrow> x < c"
  using lower [of c x] by (meson not_le)

lemma less_upper: "rnd c = c \<Longrightarrow> c < rnd x \<Longrightarrow> c < x"
  using upper [of c x] by (meson not_le)

end

subsection \<open>Digits and exponents\<close>

fun ndigits :: "nat \<Rightarrow> nat" where
  "ndigits n = (if n < 10 then 1 else Suc (ndigits (n div 10)))"

declare ndigits.simps [simp del]

lemma ndigits_pos [simp]: "0 < ndigits n"
  by (subst ndigits.simps) simp

lemma ndigits_upper: "n < 10 ^ ndigits n"
proof (induction n rule: ndigits.induct)
  case (1 n)
  show ?case
  proof (cases "n < 10")
    case True
    then show ?thesis by (simp add: ndigits.simps [of n])
  next
    case False
    with "1.IH" have "n div 10 < 10 ^ ndigits (n div 10)" by simp
    then have "n < 10 * 10 ^ ndigits (n div 10)" by linarith
    with False show ?thesis by (simp add: ndigits.simps [of n])
  qed
qed

lemma ndigits_lower: "0 < n \<Longrightarrow> 10 ^ (ndigits n - 1) \<le> n"
proof (induction n rule: ndigits.induct)
  case (1 n)
  show ?case
  proof (cases "n < 10")
    case True
    with "1.prems" show ?thesis by (simp add: ndigits.simps [of n])
  next
    case False
    with "1.IH" have "10 ^ (ndigits (n div 10) - 1) \<le> n div 10" by simp
    then have "10 * 10 ^ (ndigits (n div 10) - 1) \<le> n" by linarith
    moreover have "(10::nat) ^ ndigits (n div 10) = 10 * 10 ^ (ndigits (n div 10) - 1)"
      using ndigits_pos [of "n div 10"] by (cases "ndigits (n div 10)") auto
    ultimately show ?thesis using False by (simp add: ndigits.simps [of n])
  qed
qed

text \<open>\<^verbatim>\<open>Decimal.adjusted()\<close>: the decimal exponent of the most significant digit.\<close>

definition adjusted :: "rat \<Rightarrow> int" where
  "adjusted x =
     (if 1 \<le> \<bar>x\<bar> then int (ndigits (nat \<lfloor>\<bar>x\<bar>\<rfloor>)) - 1
      else - int (ndigits (nat (\<lceil>1 / \<bar>x\<bar>\<rceil> - 1))))"

lemma ten_powi_nat: "(10::rat) powi int n = 10 ^ n"
  by (simp add: power_int_def)

lemma ten_powi_mono: "a \<le> b \<Longrightarrow> (10::rat) powi a \<le> 10 powi b"
  by (rule power_int_increasing) auto

lemma adjusted_bounds_large:
  assumes "1 \<le> \<bar>x\<bar>"
  shows "10 powi adjusted x \<le> \<bar>x\<bar> \<and> \<bar>x\<bar> < 10 powi (adjusted x + 1)"
proof -
  define n where "n = nat \<lfloor>\<bar>x\<bar>\<rfloor>"
  have fl: "(1::int) \<le> \<lfloor>\<bar>x\<bar>\<rfloor>" using assms by (simp add: le_floor_iff)
  then have n: "rat_of_nat n \<le> \<bar>x\<bar>" "\<bar>x\<bar> < rat_of_nat n + 1" "0 < n"
    by (simp_all add: n_def) linarith
  obtain m where m: "ndigits n = Suc m" using ndigits_pos [of n] by (cases "ndigits n") auto
  then have adj: "adjusted x = int (ndigits n - 1)" "adjusted x + 1 = int (ndigits n)"
    using assms by (simp_all add: adjusted_def n_def)
  have "rat_of_nat (10 ^ (ndigits n - 1)) \<le> rat_of_nat n"
    using ndigits_lower [OF n(3)] by (simp only: of_nat_le_iff)
  then have "10 ^ (ndigits n - 1) \<le> rat_of_nat n" by (simp only: of_nat_power of_nat_numeral)
  then have "10 powi adjusted x \<le> \<bar>x\<bar>"
    using n(1) unfolding adj(1) ten_powi_nat by linarith
  moreover have "n + 1 \<le> 10 ^ ndigits n" using ndigits_upper [of n] by simp
  then have "rat_of_nat (n + 1) \<le> rat_of_nat (10 ^ ndigits n)" by (simp only: of_nat_le_iff)
  then have "\<bar>x\<bar> < 10 powi (adjusted x + 1)"
    using n(2) by (simp add: adj(2) ten_powi_nat del: power_int_of_nat)
  ultimately show ?thesis ..
qed

lemma adjusted_bounds_small:
  assumes "x \<noteq> 0" "\<not> 1 \<le> \<bar>x\<bar>"
  shows "10 powi adjusted x \<le> \<bar>x\<bar> \<and> \<bar>x\<bar> < 10 powi (adjusted x + 1)"
proof -
  define y where "y = 1 / \<bar>x\<bar>"
  have y: "1 < y" "\<bar>x\<bar> = inverse y" "0 < y" using assms by (auto simp: y_def field_simps)
  define n where "n = nat (\<lceil>y\<rceil> - 1)"
  have "1 < \<lceil>y\<rceil>" using y(1) by (simp add: less_ceiling_iff)
  then have n: "rat_of_nat n < y" "y \<le> rat_of_nat n + 1" "0 < n"
    by (simp_all add: n_def) linarith
  obtain m where m: "ndigits n = Suc m" using ndigits_pos [of n] by (cases "ndigits n") auto
  then have adj: "adjusted x = - int (ndigits n)" "adjusted x + 1 = - int (ndigits n - 1)"
    using assms by (simp_all add: adjusted_def n_def y_def)
  have "n + 1 \<le> 10 ^ ndigits n" using ndigits_upper [of n] by simp
  then have "rat_of_nat (n + 1) \<le> rat_of_nat (10 ^ ndigits n)" by (simp only: of_nat_le_iff)
  then have "y \<le> 10 ^ ndigits n" using n(2) by simp
  then have lo: "10 powi adjusted x \<le> \<bar>x\<bar>"
    using y(3) by (simp add: adj(1) y(2) power_int_minus le_imp_inverse_le)
  have "rat_of_nat (10 ^ (ndigits n - 1)) \<le> rat_of_nat n"
    using ndigits_lower [OF n(3)] by (simp only: of_nat_le_iff)
  then have "10 ^ (ndigits n - 1) \<le> rat_of_nat n" by (simp only: of_nat_power of_nat_numeral)
  then have "10 ^ (ndigits n - 1) < y" using n(1) by linarith
  then have hi: "\<bar>x\<bar> < 10 powi (adjusted x + 1)"
    using y(3) by (simp add: adj(2) y(2) power_int_minus less_imp_inverse_less)
  from lo hi show ?thesis ..
qed

lemma adjusted_bounds:
  assumes "x \<noteq> 0"
  shows "10 powi adjusted x \<le> \<bar>x\<bar>" "\<bar>x\<bar> < 10 powi (adjusted x + 1)"
  using adjusted_bounds_large [of x] adjusted_bounds_small [of x] assms by (cases "1 \<le> \<bar>x\<bar>"; blast)+

lemma adjusted_unique:
  assumes "10 powi e \<le> \<bar>x\<bar>" "\<bar>x\<bar> < 10 powi (e + 1)"
  shows "adjusted x = e"
proof -
  have "(0::rat) < 10 powi e" by simp
  then have "0 < \<bar>x\<bar>" using assms(1) by linarith
  then have x: "x \<noteq> 0" by simp
  have "(10::rat) powi e < 10 powi (adjusted x + 1)"
    using assms(1) adjusted_bounds(2) [OF x] by linarith
  then have "e < adjusted x + 1" using ten_powi_mono [of "adjusted x + 1" e] by (meson not_le)
  moreover have "(10::rat) powi adjusted x < 10 powi (e + 1)"
    using assms(2) adjusted_bounds(1) [OF x] by linarith
  then have "adjusted x < e + 1" using ten_powi_mono [of "e + 1" "adjusted x"] by (meson not_le)
  ultimately show ?thesis by simp
qed

lemma adjusted_uminus [simp]: "adjusted (- x) = adjusted x"
  by (simp add: adjusted_def)

lemma adjusted_abs [simp]: "adjusted \<bar>x\<bar> = adjusted x"
  by (simp add: adjusted_def)

lemma adjusted_mono:
  assumes "x \<noteq> 0" "\<bar>x\<bar> \<le> \<bar>y\<bar>"
  shows "adjusted x \<le> adjusted y"
proof (rule ccontr)
  assume "\<not> adjusted x \<le> adjusted y"
  then have "(10::rat) powi (adjusted y + 1) \<le> 10 powi adjusted x" by (intro ten_powi_mono) simp
  moreover have "y \<noteq> 0" using assms by auto
  ultimately show False
    using adjusted_bounds(1) [OF assms(1)] adjusted_bounds(2) [of y] assms(2) by linarith
qed

subsection \<open>Rounding half to even\<close>

definition round_half_even :: "rat \<Rightarrow> int" where
  "round_half_even x =
     (let f = \<lfloor>x\<rfloor>; r = x - of_int f
      in if r < 1 / 2 then f else if 1 / 2 < r then f + 1 else if even f then f else f + 1)"

lemma round_half_even_of_int [simp]: "round_half_even (of_int n) = n"
  by (simp add: round_half_even_def)

lemma round_half_even_cases:
  obtains (below) "round_half_even x = \<lfloor>x\<rfloor>" "of_int \<lfloor>x\<rfloor> \<le> x" "x - of_int \<lfloor>x\<rfloor> < 1 / 2"
  | (above) "round_half_even x = \<lfloor>x\<rfloor> + 1" "1 / 2 < x - of_int \<lfloor>x\<rfloor>" "x < of_int \<lfloor>x\<rfloor> + 1"
  | (tie_even) "round_half_even x = \<lfloor>x\<rfloor>" "x - of_int \<lfloor>x\<rfloor> = 1 / 2" "even \<lfloor>x\<rfloor>"
  | (tie_odd) "round_half_even x = \<lfloor>x\<rfloor> + 1" "x - of_int \<lfloor>x\<rfloor> = 1 / 2" "odd \<lfloor>x\<rfloor>"
proof -
  consider "x - of_int \<lfloor>x\<rfloor> < 1 / 2" | "1 / 2 < x - of_int \<lfloor>x\<rfloor>" | "x - of_int \<lfloor>x\<rfloor> = 1 / 2"
    by linarith
  then show thesis
  proof cases
    case 1
    then show thesis by (intro below) (simp_all add: round_half_even_def)
  next
    case 2
    moreover have "x < of_int \<lfloor>x\<rfloor> + 1" by linarith
    ultimately show thesis by (intro above) (simp_all add: round_half_even_def Let_def)
  next
    case 3
    then show thesis
      by (cases "even \<lfloor>x\<rfloor>") (auto intro: tie_even tie_odd simp: round_half_even_def)
  qed
qed

lemma round_half_even_error: "\<bar>of_int (round_half_even x) - x\<bar> \<le> 1 / 2"
proof (cases x rule: round_half_even_cases)
  case below
  then show ?thesis unfolding below(1) by linarith
next
  case above
  then show ?thesis unfolding above(1) of_int_add of_int_1 by linarith
next
  case tie_even
  then show ?thesis unfolding tie_even(1) by linarith
next
  case tie_odd
  then show ?thesis unfolding tie_odd(1) of_int_add of_int_1 by linarith
qed

lemma round_half_even_tie:
  assumes "\<bar>of_int (round_half_even x) - x\<bar> = 1 / 2"
  shows "even (round_half_even x)"
proof (cases x rule: round_half_even_cases)
  case below
  with assms show ?thesis unfolding below(1) by linarith
next
  case above
  with assms show ?thesis unfolding above(1) of_int_add of_int_1 by linarith
qed simp_all

lemma round_half_even_unique:
  assumes "\<bar>of_int n - x\<bar> \<le> 1 / 2" "\<bar>of_int n - x\<bar> = 1 / 2 \<Longrightarrow> even n"
  shows "round_half_even x = n"
proof (rule ccontr)
  let ?m = "round_half_even x"
  assume ne: "?m \<noteq> n"
  have m: "\<bar>of_int ?m - x\<bar> \<le> 1 / 2" by (rule round_half_even_error)
  have "\<bar>rat_of_int (?m - n)\<bar> \<le> 1" using m assms(1) by (simp add: abs_if split: if_splits)
  then have "\<bar>?m - n\<bar> \<le> 1" by linarith
  with ne have d: "?m = n + 1 \<or> n = ?m + 1" by linarith
  then have "\<bar>rat_of_int ?m - x\<bar> = 1 / 2 \<and> \<bar>rat_of_int n - x\<bar> = 1 / 2"
    using m assms(1) by (auto simp: abs_if split: if_splits)
  then have "even ?m" "even n" using round_half_even_tie assms(2) by auto
  with d show False by auto
qed

lemma round_half_even_uminus: "round_half_even (- x) = - round_half_even x"
  using round_half_even_error [of x] round_half_even_tie [of x]
  by (intro round_half_even_unique) (auto simp: abs_minus_commute)

lemma round_half_even_mono:
  assumes "x \<le> y"
  shows "round_half_even x \<le> round_half_even y"
proof (rule ccontr)
  let ?m = "round_half_even x" and ?n = "round_half_even y"
  assume "\<not> ?m \<le> ?n"
  then have "?n + 1 \<le> ?m" by simp
  then have le: "rat_of_int ?n + 1 \<le> rat_of_int ?m" by linarith
  have e: "\<bar>of_int ?m - x\<bar> \<le> 1 / 2" "\<bar>of_int ?n - y\<bar> \<le> 1 / 2" by (rule round_half_even_error)+
  then have "x = y" using assms le by (simp add: abs_if split: if_splits)
  with \<open>\<not> ?m \<le> ?n\<close> show False by simp
qed

lemma round_half_even_ge: "of_int n \<le> x \<Longrightarrow> n \<le> round_half_even x"
  using round_half_even_mono [of "of_int n" x] by simp

lemma round_half_even_le: "x \<le> of_int n \<Longrightarrow> round_half_even x \<le> n"
  using round_half_even_mono [of x "of_int n"] by simp

subsection \<open>The context rounding: 28 significant digits\<close>

definition quantum :: "rat \<Rightarrow> rat" where
  "quantum x = 10 powi (adjusted x - 27)"

definition rnd28 :: "rat \<Rightarrow> rat" where
  "rnd28 x = (if x = 0 then 0 else of_int (round_half_even (x / quantum x)) * quantum x)"

lemma quantum_pos [simp]: "0 < quantum x"
  by (simp add: quantum_def)

lemma quantum_nonneg [simp]: "0 \<le> quantum x"
  by (simp add: quantum_def)

lemma quantum_nonzero [simp]: "quantum x \<noteq> 0"
  by (simp add: quantum_def)

lemma rnd28_0 [simp]: "rnd28 0 = 0"
  by (simp add: rnd28_def)

lemma rnd28_minus: "rnd28 (- x) = - rnd28 x"
  by (simp add: rnd28_def quantum_def round_half_even_uminus)

lemma quantum_powers:
  "10 powi adjusted x = 10 ^ 27 * quantum x" "10 powi (adjusted x + 1) = 10 ^ 28 * quantum x"
proof -
  have "adjusted x = 27 + (adjusted x - 27)" "adjusted x + 1 = 28 + (adjusted x - 27)" by simp_all
  then have "(10::rat) powi adjusted x = 10 powi 27 * quantum x"
    "(10::rat) powi (adjusted x + 1) = 10 powi 28 * quantum x"
    unfolding quantum_def by (metis power_int_add zero_neq_numeral)+
  then show "10 powi adjusted x = 10 ^ 27 * quantum x" "10 powi (adjusted x + 1) = 10 ^ 28 * quantum x"
    by simp_all
qed

lemma coefficient_range:
  assumes "0 < x"
  shows "10 ^ 27 \<le> x / quantum x" "x / quantum x < 10 ^ 28"
  using adjusted_bounds [of x] assms quantum_pos [of x] unfolding quantum_powers
  by (simp_all add: pos_le_divide_eq pos_divide_less_eq)

lemma rnd28_range:
  assumes "0 < x"
  shows "10 powi adjusted x \<le> rnd28 x" "rnd28 x \<le> 10 powi (adjusted x + 1)"
proof -
  let ?c = "round_half_even (x / quantum x)"
  have "10 ^ 27 \<le> ?c" "?c \<le> 10 ^ 28"
    using coefficient_range [OF assms] by (auto intro!: round_half_even_ge round_half_even_le)
  then have "(10::rat) ^ 27 \<le> of_int ?c" "of_int ?c \<le> (10::rat) ^ 28"
    by (metis of_int_le_iff of_int_power of_int_numeral)+
  then show "10 powi adjusted x \<le> rnd28 x" "rnd28 x \<le> 10 powi (adjusted x + 1)"
    using assms by (simp_all add: rnd28_def quantum_powers mult_right_mono)
qed

lemma rnd28_mono_pos:
  assumes "0 < x" "x \<le> y"
  shows "rnd28 x \<le> rnd28 y"
proof -
  have y: "0 < y" and le: "adjusted x \<le> adjusted y" using assms by (auto intro: adjusted_mono)
  show ?thesis
  proof (cases "adjusted x = adjusted y")
    case True
    then have q: "quantum x = quantum y" by (simp add: quantum_def)
    have "x / quantum y \<le> y / quantum y" using assms(2) by (simp add: divide_right_mono less_imp_le)
    then have "round_half_even (x / quantum y) \<le> round_half_even (y / quantum y)"
      by (rule round_half_even_mono)
    with q assms y show ?thesis by (simp add: rnd28_def mult_right_mono less_imp_le)
  next
    case False
    with le have "adjusted x + 1 \<le> adjusted y" by simp
    then have "(10::rat) powi (adjusted x + 1) \<le> 10 powi adjusted y" by (rule ten_powi_mono)
    then show ?thesis using rnd28_range(2) [OF assms(1)] rnd28_range(1) [OF y] by linarith
  qed
qed

lemma rnd28_pos: "0 < x \<Longrightarrow> 0 < rnd28 x"
  using rnd28_range(1) [of x] by (meson less_le_trans zero_less_power_int zero_less_numeral)

lemma rnd28_mono: "x \<le> y \<Longrightarrow> rnd28 x \<le> rnd28 y"
proof (cases "0 < x")
  case True
  then show "x \<le> y \<Longrightarrow> ?thesis" by (rule rnd28_mono_pos)
next
  case x: False
  assume le: "x \<le> y"
  show ?thesis
  proof (cases "0 \<le> y")
    case True
    have "0 \<le> rnd28 (- x)" "0 \<le> rnd28 y"
      using rnd28_pos [of "- x"] rnd28_pos [of y] x True by (cases "x = 0"; cases "y = 0"; force)+
    then show ?thesis by (simp add: rnd28_minus)
  next
    case False
    then have "rnd28 (- y) \<le> rnd28 (- x)" using le by (intro rnd28_mono_pos) auto
    then show ?thesis by (simp add: rnd28_minus)
  qed
qed

lemma rnd28_nonzero: "x \<noteq> 0 \<Longrightarrow> rnd28 x \<noteq> 0"
  using rnd28_pos [of x] rnd28_pos [of "- x"] by (cases "0 < x") (auto simp: rnd28_minus)

subsection \<open>Exact results\<close>

text \<open>A number with at most 28 significant digits is not changed.\<close>

definition dec28 :: "rat \<Rightarrow> bool" where
  "dec28 x \<longleftrightarrow> (\<exists>c e. \<bar>c\<bar> < 10 ^ 28 \<and> x = of_int c * 10 powi e)"

lemma dec28I: "\<bar>c\<bar> < 10 ^ 28 \<Longrightarrow> x = of_int c * 10 powi e \<Longrightarrow> dec28 x"
  by (auto simp: dec28_def)

lemma dec28_of_int: "\<bar>c\<bar> < 10 ^ 28 \<Longrightarrow> dec28 (of_int c)"
  by (rule dec28I [where e = 0]) auto

lemma dec28_scaled: "\<bar>c\<bar> < 10 ^ 28 \<Longrightarrow> x * 10 ^ n = of_int c \<Longrightarrow> dec28 x"
  by (rule dec28I [where e = "- int n"]) (auto simp: power_int_minus field_simps)

lemma adjusted_scaled:
  assumes "c \<noteq> 0"
  shows "adjusted (of_int c * 10 powi e) = e + int (ndigits (nat \<bar>c\<bar>)) - 1"
proof (rule adjusted_unique)
  define n where "n = nat \<bar>c\<bar>"
  obtain m where m: "ndigits n = Suc m" using ndigits_pos [of n] by (cases "ndigits n") auto
  have n: "0 < n" "\<bar>rat_of_int c\<bar> = rat_of_nat n" using assms by (auto simp: n_def)
  have "rat_of_nat (10 ^ m) \<le> rat_of_nat n" "rat_of_nat n < rat_of_nat (10 ^ Suc m)"
    using ndigits_lower [OF n(1)] ndigits_upper [of n] unfolding m of_nat_le_iff of_nat_less_iff
    by simp_all
  then have b: "(10::rat) powi int m \<le> rat_of_nat n" "rat_of_nat n < 10 powi int (Suc m)"
    unfolding ten_powi_nat of_nat_power of_nat_numeral .
  have p: "(10::rat) powi (e + int (ndigits (nat \<bar>c\<bar>)) - 1) = 10 powi int m * 10 powi e"
    "(10::rat) powi (e + int (ndigits (nat \<bar>c\<bar>)) - 1 + 1) = 10 powi int (Suc m) * 10 powi e"
    unfolding power_int_add [symmetric, OF disjI1, OF zero_neq_numeral [symmetric]]
    by (simp_all add: n_def [symmetric] m algebra_simps)
  have a: "\<bar>rat_of_int c * 10 powi e\<bar> = rat_of_nat n * 10 powi e" by (simp add: abs_mult n(2))
  show "10 powi (e + int (ndigits (nat \<bar>c\<bar>)) - 1) \<le> \<bar>rat_of_int c * 10 powi e\<bar>"
    unfolding p a by (rule mult_right_mono [OF b(1)]) simp
  show "\<bar>rat_of_int c * 10 powi e\<bar> < 10 powi (e + int (ndigits (nat \<bar>c\<bar>)) - 1 + 1)"
    unfolding p a by (rule mult_strict_right_mono [OF b(2)]) simp
qed

lemma ndigits_le: "n < 10 ^ k \<Longrightarrow> 0 < k \<Longrightarrow> ndigits n \<le> k"
proof (rule ccontr)
  assume n: "n < 10 ^ k" "0 < k" and "\<not> ndigits n \<le> k"
  then have k: "k \<le> ndigits n - 1" by simp
  have "n \<noteq> 0"
  proof
    assume "n = 0"
    then have "ndigits n = 1" by (simp add: ndigits.simps [of 0])
    with \<open>\<not> ndigits n \<le> k\<close> n(2) show False by simp
  qed
  then have "10 ^ (ndigits n - 1) \<le> n" by (intro ndigits_lower) simp
  moreover have "(10::nat) ^ k \<le> 10 ^ (ndigits n - 1)" using k by (rule power_increasing) simp
  ultimately show False using n(1) by linarith
qed

lemma rnd28_exact:
  assumes "dec28 x"
  shows "rnd28 x = x"
proof (cases "x = 0")
  case False
  from assms obtain c e where c: "\<bar>c\<bar> < 10 ^ 28" "x = of_int c * 10 powi e"
    by (auto simp: dec28_def)
  with False have c0: "c \<noteq> 0" by auto
  define k where "k = ndigits (nat \<bar>c\<bar>)"
  have "nat \<bar>c\<bar> < 10 ^ 28" using c(1) by (simp add: nat_less_iff)
  then have k: "k \<le> 28" unfolding k_def by (rule ndigits_le) simp
  have q: "quantum x = 10 powi (e + int k - 28)"
    by (simp add: quantum_def c(2) adjusted_scaled [OF c0] k_def [symmetric])
  have "e = (28 - int k) + (e + int k - 28)" by simp
  then have "(10::rat) powi e = 10 powi (28 - int k) * quantum x"
    unfolding q by (metis power_int_add zero_neq_numeral)
  also have "28 - int k = int (28 - k)" using k by simp
  finally have "x = of_int (c * 10 ^ (28 - k)) * quantum x"
    by (simp add: c(2) ten_powi_nat)
  then have "x / quantum x = of_int (c * 10 ^ (28 - k))"
    using quantum_pos [of x] by (metis less_irrefl nonzero_mult_div_cancel_right)
  then have "round_half_even (x / quantum x) = c * 10 ^ (28 - k)"
    by (simp only: round_half_even_of_int)
  with False \<open>x = of_int (c * 10 ^ (28 - k)) * quantum x\<close> show ?thesis
    by (simp add: rnd28_def)
qed simp

lemma dec28_rnd28: "dec28 (rnd28 x)"
proof (cases "x = 0")
  case True
  then show ?thesis using dec28_of_int [of 0] by simp
next
  case False
  let ?c = "round_half_even (x / quantum x)"
  have "\<bar>x\<bar> / quantum x < 10 ^ 28"
    using coefficient_range(2) [of "\<bar>x\<bar>"] False by (simp add: quantum_def)
  then have "- of_int (10 ^ 28) \<le> x / quantum x" "x / quantum x \<le> of_int (10 ^ 28)"
    using quantum_pos [of x] by (auto simp: abs_if pos_le_divide_eq pos_divide_less_eq
      pos_divide_le_eq split: if_splits)
  then have "- (10 ^ 28) \<le> ?c" "?c \<le> 10 ^ 28"
    using round_half_even_ge [of "- (10 ^ 28)"] round_half_even_le [of _ "10 ^ 28"] by simp_all
  then consider "\<bar>?c\<bar> < 10 ^ 28" | "?c = 10 ^ 28" | "?c = - (10 ^ 28)" by linarith
  then show ?thesis
  proof cases
    case 1
    then show ?thesis using False by (intro dec28I [where e = "adjusted x - 27"])
      (auto simp: rnd28_def quantum_def)
  next
    case 2
    then show ?thesis using False
      by (intro dec28I [where c = 1 and e = "adjusted x + 1"])
        (simp_all only: rnd28_def quantum_powers, simp_all)
  next
    case 3
    then show ?thesis using False
      by (intro dec28I [where c = "- 1" and e = "adjusted x + 1"])
        (simp_all only: rnd28_def quantum_powers, simp_all)
  qed
qed

interpretation dec: decimal_rounding rnd28
proof unfold_locales
  show "rnd28 x \<le> rnd28 y" if "x \<le> y" for x y using that by (rule rnd28_mono)
  show "rnd28 (- x) = - rnd28 x" for x by (rule rnd28_minus)
  show "rnd28 (rnd28 x) = rnd28 x" for x by (rule rnd28_exact) (rule dec28_rnd28)
  show "(rnd28 x = 0) = (x = 0)" for x using rnd28_nonzero [of x] by auto
qed

text \<open>The rounding error is at most half a unit in the 28th digit.\<close>

lemma rnd28_error: "\<bar>rnd28 x - x\<bar> \<le> \<bar>x\<bar> * (5 / 10 ^ 28)"
proof (cases "x = 0")
  case False
  have q: "0 < quantum x" "10 ^ 27 * quantum x \<le> \<bar>x\<bar>"
    using adjusted_bounds(1) [OF False] by (simp_all add: quantum_powers)
  have "rnd28 x - x = (of_int (round_half_even (x / quantum x)) - x / quantum x) * quantum x"
    using False q(1) by (simp add: rnd28_def left_diff_distrib)
  then have "\<bar>rnd28 x - x\<bar> = \<bar>of_int (round_half_even (x / quantum x)) - x / quantum x\<bar> * quantum x"
    using q(1) by (simp add: abs_mult abs_of_pos)
  also have "\<dots> \<le> 1 / 2 * quantum x"
    using round_half_even_error q(1) by (intro mult_right_mono) auto
  also have "\<dots> \<le> \<bar>x\<bar> * (5 / 10 ^ 28)" using q(2) by simp
  finally show ?thesis .
qed simp

subsection \<open>The operators of the code\<close>

definition dadd :: "decimal \<Rightarrow> decimal \<Rightarrow> decimal" where "dadd x y = rnd28 (x + y)"
definition dsub :: "decimal \<Rightarrow> decimal \<Rightarrow> decimal" where "dsub x y = rnd28 (x - y)"
definition dmul :: "decimal \<Rightarrow> decimal \<Rightarrow> decimal" where "dmul x y = rnd28 (x * y)"
definition dneg :: "decimal \<Rightarrow> decimal" where "dneg x = rnd28 (- x)"
definition dabs :: "decimal \<Rightarrow> decimal" where "dabs x = rnd28 \<bar>x\<bar>"

text \<open>
  \<^verbatim>\<open>x / y\<close> raises \<^verbatim>\<open>DivisionByZero\<close> for a zero divisor, and \<^verbatim>\<open>InvalidOperation\<close>
  (\<^verbatim>\<open>DivisionUndefined\<close>) for \<^verbatim>\<open>0 / 0\<close>.  \<open>dquot\<close> is the quotient where the divisor is not zero.
\<close>

definition dquot :: "decimal \<Rightarrow> decimal \<Rightarrow> decimal" where "dquot x y = rnd28 (x / y)"

definition ddiv :: "decimal \<Rightarrow> decimal \<Rightarrow> decimal result" where
  "ddiv x y =
     (if y = 0 then Inl (if x = 0 then DecimalInvalidOperation else DecimalDivisionByZero)
      else Inr (dquot x y))"

lemmas decimal_ops = dadd_def dsub_def dmul_def dneg_def dabs_def dquot_def

text \<open>\<^verbatim>\<open>sum(xs, Decimal("0"))\<close> adds from the left and rounds every partial sum.\<close>

fun dsum_from :: "decimal \<Rightarrow> decimal list \<Rightarrow> decimal" where
  "dsum_from a [] = a"
| "dsum_from a (x # xs) = dsum_from (dadd a x) xs"

definition dsum :: "decimal list \<Rightarrow> decimal" where
  "dsum xs = dsum_from 0 xs"

lemma ddiv_eq_Inr: "ddiv x y = Inr z \<longleftrightarrow> y \<noteq> 0 \<and> z = dquot x y"
  by (auto simp: ddiv_def)

lemma ddiv_Inr [simp]: "y \<noteq> 0 \<Longrightarrow> ddiv x y = Inr (dquot x y)"
  by (simp add: ddiv_def)

lemma dquot_sign:
  assumes "0 < y"
  shows "0 < dquot x y \<longleftrightarrow> 0 < x" "dquot x y < 0 \<longleftrightarrow> x < 0" "dquot x y = 0 \<longleftrightarrow> x = 0"
  using assms by (auto simp: dquot_def dec.pos dec.neg dec.rnd_eq_0 zero_less_divide_iff divide_less_0_iff)

lemma dsum_from_nonneg: "0 \<le> a \<Longrightarrow> (\<And>x. x \<in> set xs \<Longrightarrow> 0 \<le> x) \<Longrightarrow> 0 \<le> dsum_from a xs"
  by (induction xs arbitrary: a) (auto simp: dadd_def dec.nonneg)

lemma dsum_nonneg: "(\<And>x. x \<in> set xs \<Longrightarrow> 0 \<le> x) \<Longrightarrow> 0 \<le> dsum xs"
  by (simp add: dsum_def dsum_from_nonneg)

lemma dsum_from_nonpos: "a \<le> 0 \<Longrightarrow> (\<And>x. x \<in> set xs \<Longrightarrow> x \<le> 0) \<Longrightarrow> dsum_from a xs \<le> 0"
  by (induction xs arbitrary: a) (auto simp: dadd_def dec.nonpos add_nonpos_nonpos)

lemma dsum_nonpos: "(\<And>x. x \<in> set xs \<Longrightarrow> x \<le> 0) \<Longrightarrow> dsum xs \<le> 0"
  by (simp add: dsum_def dsum_from_nonpos)

text \<open>
  \<^verbatim>\<open>x.quantize(step, rounding)\<close>: a multiple of the step; a coefficient of more than 28
  digits is refused with \<^verbatim>\<open>InvalidOperation\<close>.
\<close>

datatype rounding = Round_Half_Even | Round_Down | Round_Up

definition round_with :: "rounding \<Rightarrow> rat \<Rightarrow> int" where
  "round_with r x =
     (case r of Round_Half_Even \<Rightarrow> round_half_even x
      | Round_Down \<Rightarrow> (if 0 \<le> x then \<lfloor>x\<rfloor> else \<lceil>x\<rceil>)
      | Round_Up \<Rightarrow> (if 0 \<le> x then \<lceil>x\<rceil> else \<lfloor>x\<rfloor>))"

definition quantize :: "rounding \<Rightarrow> nat \<Rightarrow> decimal \<Rightarrow> decimal result" where
  "quantize r places x =
     (let c = round_with r (x * 10 ^ places)
      in if 10 ^ 28 \<le> \<bar>c\<bar> then Inl DecimalInvalidOperation else Inr (of_int c / 10 ^ places))"

text \<open>
  \<^verbatim>\<open>x.sqrt()\<close> is the root correctly rounded to 28 digits.  The integer root below carries
  at least 30 digits of it; a half is added when the root is not exact, which keeps the
  rounding on the right side.
\<close>

fun isqrt :: "nat \<Rightarrow> nat" where
  "isqrt n =
     (if n = 0 then 0
      else let r = 2 * isqrt (n div 4) in if (r + 1) * (r + 1) \<le> n then r + 1 else r)"

declare isqrt.simps [simp del]

definition sqrt_places :: "rat \<Rightarrow> nat" where
  "sqrt_places x = nat (60 - adjusted x)"

definition dsqrt :: "decimal \<Rightarrow> decimal result" where
  "dsqrt x =
     (if x < 0 then Inl DecimalInvalidOperation
      else if x = 0 then Inr 0
      else let k = sqrt_places x; m = x * 10 ^ (2 * k); n = nat \<lfloor>m\<rfloor>; s = isqrt n
           in Inr (rnd28 ((if rat_of_nat (s * s) = m then rat_of_nat s else rat_of_nat s + 1 / 2) / 10 ^ k)))"

lemma isqrt_bounds: "isqrt n * isqrt n \<le> n \<and> n < (isqrt n + 1) * (isqrt n + 1)"
proof (induction n rule: isqrt.induct)
  case (1 n)
  show ?case
  proof (cases "n = 0")
    case True
    then show ?thesis by (simp add: isqrt.simps [of 0])
  next
    case False
    let ?q = "isqrt (n div 4)"
    have IH: "?q * ?q \<le> n div 4" "n div 4 < (?q + 1) * (?q + 1)" using "1.IH" False by auto
    have "4 * (?q * ?q) \<le> n" "n < 4 * ((?q + 1) * (?q + 1))" using IH by linarith+
    then have "2 * ?q * (2 * ?q) \<le> n" "n < (2 * ?q + 1 + 1) * (2 * ?q + 1 + 1)"
      by (simp_all add: algebra_simps)
    with False show ?thesis by (simp add: isqrt.simps [of n] Let_def)
  qed
qed

subsection \<open>Evaluation on numerals\<close>

text \<open>
  The simplifier evaluates the operators on concrete decimals with \<open>dec_eval\<close>: a numeral
  below \<open>10 ^ 28\<close>, and a fraction whose value has at most twelve decimal places, is exact.
\<close>

named_theorems dec_eval \<open>evaluation of the decimal operators on numerals\<close>

lemma rnd28_numeral [dec_eval]: "numeral k < (10::int) ^ 28 \<Longrightarrow> rnd28 (numeral k) = numeral k"
  using rnd28_exact [OF dec28_of_int [of "numeral k"]] by simp

lemma rnd28_one [dec_eval]: "rnd28 1 = 1"
  using rnd28_exact [OF dec28_of_int [of 1]] by simp

lemma rnd28_neg_numeral [dec_eval]: "numeral k < (10::int) ^ 28 \<Longrightarrow> rnd28 (- numeral k) = - numeral k"
  by (simp add: rnd28_minus rnd28_numeral)

lemma rnd28_neg_one [dec_eval]: "rnd28 (- 1) = - 1"
  by (simp add: rnd28_minus rnd28_one)

lemma rnd28_fraction [dec_eval]:
  assumes "numeral a * 10 ^ 12 mod (numeral b :: int) = 0" "numeral a * 10 ^ 12 div (numeral b :: int) < 10 ^ 28"
  shows "rnd28 (numeral a / numeral b) = numeral a / numeral b"
proof (rule rnd28_exact, rule dec28_scaled [where n = 12])
  define q :: int where "q = numeral a * 10 ^ 12 div numeral b"
  have "numeral a * 10 ^ 12 = numeral b * q"
    using mult_div_mod_eq [of "numeral b :: int" "numeral a * 10 ^ 12"] assms(1)
    unfolding q_def by simp
  then have "rat_of_int (numeral a * 10 ^ 12) = rat_of_int (numeral b * q)" by (rule arg_cong)
  then have "(numeral a :: rat) * 10 ^ 12 = numeral b * of_int q" by simp
  then show "numeral a / numeral b * 10 ^ 12 = (of_int q :: rat)"
    by (simp add: field_simps)
  have "0 \<le> q" unfolding q_def by (rule div_int_pos_iff [THEN iffD2]) simp
  moreover have "q < 10 ^ 28" using assms(2) unfolding q_def .
  ultimately show "\<bar>q\<bar> < 10 ^ 28" by (simp only: abs_of_nonneg)
qed

lemma rnd28_one_fraction [dec_eval]:
  assumes "10 ^ 12 mod (numeral b :: int) = 0" "10 ^ 12 div (numeral b :: int) < 10 ^ 28"
  shows "rnd28 (1 / numeral b) = 1 / numeral b"
  using rnd28_fraction [of Num.One b] assms by simp

lemma rnd28_neg_fraction [dec_eval]: "rnd28 (- (a / b)) = - rnd28 (a / b)"
  by (rule rnd28_minus)

lemmas dec_eval_ops = decimal_ops dec_eval dsum_def

end
