(* ===== verification/Calendar.thy ===== *)
theory Calendar
  imports Prelude Complex_Main
begin

section \<open>Instants and the UTC calendar\<close>

text \<open>
  A timezone-aware \<^verbatim>\<open>datetime\<close> is modelled by its instant, the number of microseconds
  since 1970-01-01T00:00:00Z, an \<open>int\<close>; a \<^verbatim>\<open>timedelta\<close> is a number of microseconds.  The
  calendar fields the code reads (\<^verbatim>\<open>minute\<close>, \<^verbatim>\<open>hour\<close>, \<^verbatim>\<open>weekday()\<close>, \<^verbatim>\<open>day\<close>, \<^verbatim>\<open>month\<close>,
  \<^verbatim>\<open>year\<close>) are computed from it in UTC with the proleptic Gregorian calendar of the
  \<^verbatim>\<open>datetime\<close> module.  Its limits (years 1 to 9999) are not modelled.

  The main results are the round trip between day numbers and dates, which the month
  boundaries of the candle intervals rest on, and the round trip of the stored text
  \<^verbatim>\<open>YYYY-MM-DDTHH:MM:SSZ\<close>, which keeps whole seconds only.
\<close>

type_synonym instant = int
type_synonym duration = int

definition usec_second :: int where "usec_second = 1000000"
definition usec_minute :: int where "usec_minute = 60 * 1000000"
definition usec_hour :: int where "usec_hour = 3600 * 1000000"
definition usec_day :: int where "usec_day = 86400 * 1000000"
definition usec_milli :: int where "usec_milli = 1000"

lemmas usec_defs = usec_second_def usec_minute_def usec_hour_def usec_day_def usec_milli_def

subsection \<open>Times of day\<close>

definition dt_day :: "instant \<Rightarrow> int" where "dt_day t = t div usec_day"
definition dt_hour :: "instant \<Rightarrow> int" where "dt_hour t = t mod usec_day div usec_hour"
definition dt_minute :: "instant \<Rightarrow> int" where "dt_minute t = t mod usec_hour div usec_minute"
definition dt_second :: "instant \<Rightarrow> int" where "dt_second t = t mod usec_minute div usec_second"
definition dt_microsecond :: "instant \<Rightarrow> int" where "dt_microsecond t = t mod usec_second"

text \<open>Monday is 0; 1970-01-01 was a Thursday.\<close>

definition dt_weekday :: "instant \<Rightarrow> int" where "dt_weekday t = (dt_day t + 3) mod 7"

definition combine :: "int \<Rightarrow> int \<Rightarrow> int \<Rightarrow> int \<Rightarrow> int \<Rightarrow> instant" where
  "combine day h mi s us = day * usec_day + h * usec_hour + mi * usec_minute + s * usec_second + us"

lemmas dt_fields = dt_day_def dt_hour_def dt_minute_def dt_second_def dt_microsecond_def

lemma dt_field_ranges:
  "0 \<le> dt_hour t" "dt_hour t < 24" "0 \<le> dt_minute t" "dt_minute t < 60"
  "0 \<le> dt_second t" "dt_second t < 60" "0 \<le> dt_microsecond t" "dt_microsecond t < 1000000"
  "0 \<le> dt_weekday t" "dt_weekday t < 7"
  by (simp_all add: dt_fields dt_weekday_def usec_defs)

text \<open>The positions below a unit follow from those below the next one.\<close>

lemma mod_split: "0 < a \<Longrightarrow> 0 < b \<Longrightarrow> (t::int) mod (a * b) = t mod (a * b) div b * b + t mod b"
  by (metis div_mult_mod_eq mod_mod_cancel dvd_triv_right)

lemma combine_fields: "combine (dt_day t) (dt_hour t) (dt_minute t) (dt_second t) (dt_microsecond t) = t"
proof -
  have "t = t div usec_day * usec_day + t mod usec_day" by simp
  moreover have "t mod usec_day = t mod usec_day div usec_hour * usec_hour + t mod usec_hour"
    using mod_split [of 24 usec_hour t] by (simp add: usec_defs)
  moreover have "t mod usec_hour = t mod usec_hour div usec_minute * usec_minute + t mod usec_minute"
    using mod_split [of 60 usec_minute t] by (simp add: usec_defs)
  moreover have "t mod usec_minute = t mod usec_minute div usec_second * usec_second + t mod usec_second"
    using mod_split [of 60 usec_second t] by (simp add: usec_defs)
  ultimately show ?thesis unfolding combine_def dt_fields by linarith
qed

lemma combine_day:
  assumes "0 \<le> h" "h < 24" "0 \<le> mi" "mi < 60" "0 \<le> s" "s < 60" "0 \<le> us" "us < 1000000"
  shows "dt_day (combine d h mi s us) = d" "dt_hour (combine d h mi s us) = h"
    "dt_minute (combine d h mi s us) = mi" "dt_second (combine d h mi s us) = s"
    "dt_microsecond (combine d h mi s us) = us"
proof -
  let ?r3 = "s * usec_second + us"
  let ?r2 = "mi * usec_minute + ?r3"
  let ?r1 = "h * usec_hour + ?r2"
  have r3: "0 \<le> ?r3" "?r3 < usec_minute" using assms by (simp_all add: usec_defs)
  have r2: "0 \<le> ?r2" "?r2 < usec_hour" using assms r3 by (simp_all add: usec_defs)
  have r1: "0 \<le> ?r1" "?r1 < usec_day" using assms r2 by (simp_all add: usec_defs)
  have c: "combine d h mi s us = ?r1 + d * usec_day" by (simp add: combine_def)
  have d: "combine d h mi s us div usec_day = d" "combine d h mi s us mod usec_day = ?r1"
    unfolding c using r1 by (simp_all add: usec_defs)
  have c2: "combine d h mi s us = ?r2 + (d * 24 + h) * usec_hour"
    unfolding c by (simp add: usec_defs)
  have c3: "combine d h mi s us = ?r3 + ((d * 24 + h) * 60 + mi) * usec_minute"
    unfolding c by (simp add: usec_defs)
  have c4: "combine d h mi s us = us + (((d * 24 + h) * 60 + mi) * 60 + s) * usec_second"
    unfolding c by (simp add: usec_defs)
  have m2: "combine d h mi s us mod usec_hour = ?r2"
    unfolding c2 mod_mult_self1 using r2 by simp
  have m3: "combine d h mi s us mod usec_minute = ?r3"
    unfolding c3 mod_mult_self1 using r3 by simp
  have m4: "combine d h mi s us mod usec_second = us"
    unfolding c4 mod_mult_self1 using assms by (simp add: usec_defs)
  show "dt_day (combine d h mi s us) = d" using d(1) by (simp add: dt_day_def)
  show "dt_hour (combine d h mi s us) = h"
    unfolding dt_hour_def d(2) using r2 by (simp add: usec_defs)
  show "dt_minute (combine d h mi s us) = mi"
    unfolding dt_minute_def m2 using r3 by (simp add: usec_defs)
  show "dt_second (combine d h mi s us) = s"
    unfolding dt_second_def m3 using assms by (simp add: usec_defs)
  show "dt_microsecond (combine d h mi s us) = us"
    unfolding dt_microsecond_def m4 ..
qed

subsection \<open>Dates\<close>

definition leap :: "int \<Rightarrow> bool" where
  "leap y \<longleftrightarrow> y mod 4 = 0 \<and> (y mod 100 \<noteq> 0 \<or> y mod 400 = 0)"

definition days_before_year :: "int \<Rightarrow> int" where
  "days_before_year y = (y - 1) * 365 + (y - 1) div 4 - (y - 1) div 100 + (y - 1) div 400"

definition month_days :: "int list" where
  "month_days = [31, 28, 31, 30, 31, 30, 31, 31, 30, 31, 30, 31]"

definition days_in_month :: "int \<Rightarrow> int \<Rightarrow> int" where
  "days_in_month y m = month_days ! nat (m - 1) + (if m = 2 \<and> leap y then 1 else 0)"

definition days_before_month :: "int \<Rightarrow> int \<Rightarrow> int" where
  "days_before_month y m =
     sum_list (take (nat (m - 1)) month_days) + (if 2 < m \<and> leap y then 1 else 0)"

text \<open>\<open>epoch_ordinal\<close> is \<^verbatim>\<open>date(1970, 1, 1).toordinal()\<close>.\<close>

definition epoch_ordinal :: int where "epoch_ordinal = 719163"

definition days_of_date :: "int \<Rightarrow> int \<Rightarrow> int \<Rightarrow> int" where
  "days_of_date y m d = days_before_year y + days_before_month y m + d - epoch_ordinal"

definition year_of_day :: "int \<Rightarrow> int" where
  "year_of_day n =
     (let od = n + epoch_ordinal; y = (od - 1) * 400 div 146097 + 1
      in if od \<le> days_before_year y then y - 1
         else if days_before_year (y + 1) < od then y + 1 else y)"

definition month_of_yday :: "int \<Rightarrow> int \<Rightarrow> int" where
  "month_of_yday y k =
     (if k \<le> days_before_month y 2 then 1 else if k \<le> days_before_month y 3 then 2
      else if k \<le> days_before_month y 4 then 3 else if k \<le> days_before_month y 5 then 4
      else if k \<le> days_before_month y 6 then 5 else if k \<le> days_before_month y 7 then 6
      else if k \<le> days_before_month y 8 then 7 else if k \<le> days_before_month y 9 then 8
      else if k \<le> days_before_month y 10 then 9 else if k \<le> days_before_month y 11 then 10
      else if k \<le> days_before_month y 12 then 11 else 12)"

definition date_of_day :: "int \<Rightarrow> int \<times> int \<times> int" where
  "date_of_day n =
     (let y = year_of_day n; k = n + epoch_ordinal - days_before_year y; m = month_of_yday y k
      in (y, m, k - days_before_month y m))"

definition valid_date :: "int \<Rightarrow> int \<Rightarrow> int \<Rightarrow> bool" where
  "valid_date y m d \<longleftrightarrow> 1 \<le> m \<and> m \<le> 12 \<and> 1 \<le> d \<and> d \<le> days_in_month y m"

lemma div_pred:
  assumes "0 < (k::int)"
  shows "y div k = (y - 1) div k + (if y mod k = 0 then 1 else 0)"
proof (cases "y mod k = 0")
  case True
  have "y - 1 = k * (y div k - 1) + (k - 1)"
    using True by (simp add: right_diff_distrib minus_mod_eq_mult_div [symmetric])
  then have "(y - 1) div k = y div k - 1"
    by (rule int_div_pos_eq) (use assms in simp_all)
  with True show ?thesis by simp
next
  case False
  have "y - 1 = k * (y div k) + (y mod k - 1)" by simp
  moreover have "0 \<le> y mod k" "y mod k < k" using assms by simp_all
  ultimately have "(y - 1) div k = y div k"
    using False by (intro int_div_pos_eq [of _ _ _ "y mod k - 1"]) simp_all
  with False show ?thesis by simp
qed

lemma leap_count:
  "(if leap y then 1 else 0) = (if y mod 4 = 0 then 1 else 0)
      - (if y mod 100 = 0 then 1 else 0) + (if y mod 400 = 0 then 1 else (0::int))"
proof -
  have h: "y mod 100 = y mod 400 mod 100" "y mod 4 = y mod 100 mod 4"
    by (simp_all add: mod_mod_cancel)
  consider "y mod 400 = 0" | "y mod 400 \<noteq> 0" "y mod 100 = 0" | "y mod 400 \<noteq> 0" "y mod 100 \<noteq> 0" by blast
  then show ?thesis
  proof cases
    case 1
    then have "y mod 100 = 0" "y mod 4 = 0" using h by (simp_all only: mod_0)
    with 1 show ?thesis by (simp only: leap_def if_True simp_thms)
  next
    case 2
    then have "y mod 4 = 0" using h(2) by (simp only: mod_0)
    with 2 show ?thesis by (simp only: leap_def if_True if_False simp_thms)
  next
    case 3
    then show ?thesis by (cases "y mod 4 = 0") (simp_all only: leap_def if_True if_False simp_thms)
  qed
qed

lemma days_before_year_Suc: "days_before_year (y + 1) = days_before_year y + 365 + (if leap y then 1 else 0)"
proof -
  have "days_before_year (y + 1) = y * 365 + y div 4 - y div 100 + y div 400"
    by (simp add: days_before_year_def)
  moreover have "y div 4 = (y - 1) div 4 + (if y mod 4 = 0 then 1 else 0)"
    "y div 100 = (y - 1) div 100 + (if y mod 100 = 0 then 1 else 0)"
    "y div 400 = (y - 1) div 400 + (if y mod 400 = 0 then 1 else 0)"
    by (rule div_pred, simp)+
  ultimately show ?thesis
    unfolding days_before_year_def [of y] leap_count [of y]
    by (simp only: left_diff_distrib)
qed

lemma days_before_year_bounds:
  "146097 * (y - 1) - 699 \<le> 400 * days_before_year y" "400 * days_before_year y \<le> 146097 * (y - 1) + 396"
proof -
  define z where "z = y - 1"
  have d: "4 * (z div 4) \<le> z" "z - 3 \<le> 4 * (z div 4)"
    "100 * (z div 100) \<le> z" "z - 99 \<le> 100 * (z div 100)"
    "400 * (z div 400) \<le> z" "z - 399 \<le> 400 * (z div 400)" by linarith+
  have e: "400 * days_before_year y =
      146000 * z + 100 * (4 * (z div 4)) - 4 * (100 * (z div 100)) + 400 * (z div 400)"
    by (simp add: days_before_year_def z_def)
  show "146097 * (y - 1) - 699 \<le> 400 * days_before_year y"
    using d unfolding e z_def [symmetric] by linarith
  show "400 * days_before_year y \<le> 146097 * (y - 1) + 396"
    using d unfolding e z_def [symmetric] by linarith
qed

lemma year_of_day_correct:
  "days_before_year (year_of_day n) < n + epoch_ordinal"
  "n + epoch_ordinal \<le> days_before_year (year_of_day n + 1)"
proof -
  define o' where "o' = n + epoch_ordinal"
  define y where "y = (o' - 1) * 400 div 146097 + 1"
  define q r where "q = (o' - 1) * 400 div 146097" and "r = (o' - 1) * 400 mod 146097"
  have qr: "146097 * q + r = (o' - 1) * 400" "0 \<le> r" "r < 146097"
    by (simp_all add: q_def r_def)
  have "y = q + 1" by (simp add: y_def q_def)
  then have y1: "y - 1 = q" by simp
  have y: "146097 * (y - 1) \<le> (o' - 1) * 400" unfolding y1 using qr by linarith
  have y': "(o' - 1) * 400 < 146097 * (y - 1) + 146097" unfolding y1 using qr by linarith
  note b = days_before_year_bounds
  have lo: "days_before_year (y - 1) < o'" using b(2) [of "y - 1"] y y' by (simp add: algebra_simps)
  have hi: "o' \<le> days_before_year (y + 1 + 1)" using b(1) [of "y + 1 + 1"] y y' by (simp add: algebra_simps)
  have "year_of_day n = (if o' \<le> days_before_year y then y - 1
      else if days_before_year (y + 1) < o' then y + 1 else y)"
    by (simp add: year_of_day_def o'_def y_def Let_def)
  then show "days_before_year (year_of_day n) < n + epoch_ordinal"
    "n + epoch_ordinal \<le> days_before_year (year_of_day n + 1)"
    using lo hi unfolding o'_def [symmetric] by (auto simp: not_le not_less)
qed

lemma days_before_year_mono: "a \<le> b \<Longrightarrow> days_before_year a \<le> days_before_year b"
proof (induction rule: int_ge_induct)
  case (step b)
  then show ?case using days_before_year_Suc [of b] by auto
qed simp

lemma year_of_day_unique:
  assumes "days_before_year y < n + epoch_ordinal" "n + epoch_ordinal \<le> days_before_year (y + 1)"
  shows "year_of_day n = y"
proof (rule ccontr)
  let ?z = "year_of_day n"
  assume "?z \<noteq> y"
  then consider "?z + 1 \<le> y" | "y + 1 \<le> ?z" by linarith
  then show False
    using days_before_year_mono [of "?z + 1" y] days_before_year_mono [of "y + 1" ?z]
      year_of_day_correct [of n] assms by cases linarith+
qed

lemma days_before_month_table:
  "days_before_month y 1 = 0" "days_before_month y 2 = 31"
  "days_before_month y 3 = 59 + (if leap y then 1 else 0)"
  "days_before_month y 4 = 90 + (if leap y then 1 else 0)"
  "days_before_month y 5 = 120 + (if leap y then 1 else 0)"
  "days_before_month y 6 = 151 + (if leap y then 1 else 0)"
  "days_before_month y 7 = 181 + (if leap y then 1 else 0)"
  "days_before_month y 8 = 212 + (if leap y then 1 else 0)"
  "days_before_month y 9 = 243 + (if leap y then 1 else 0)"
  "days_before_month y 10 = 273 + (if leap y then 1 else 0)"
  "days_before_month y 11 = 304 + (if leap y then 1 else 0)"
  "days_before_month y 12 = 334 + (if leap y then 1 else 0)"
  by (simp_all add: days_before_month_def month_days_def)

lemma days_in_month_table:
  "days_in_month y 1 = 31" "days_in_month y 2 = 28 + (if leap y then 1 else 0)"
  "days_in_month y 3 = 31" "days_in_month y 4 = 30" "days_in_month y 5 = 31"
  "days_in_month y 6 = 30" "days_in_month y 7 = 31" "days_in_month y 8 = 31"
  "days_in_month y 9 = 30" "days_in_month y 10 = 31" "days_in_month y 11 = 30"
  "days_in_month y 12 = 31"
  by (simp_all add: days_in_month_def month_days_def)

lemma month_cases:
  assumes "1 \<le> m" "m \<le> (12::int)"
  obtains "m = 1" | "m = 2" | "m = 3" | "m = 4" | "m = 5" | "m = 6"
    | "m = 7" | "m = 8" | "m = 9" | "m = 10" | "m = 11" | "m = 12"
proof -
  consider "m \<le> 6" | "7 \<le> m" by linarith
  then have "m = 1 \<or> m = 2 \<or> m = 3 \<or> m = 4 \<or> m = 5 \<or> m = 6 \<or>
    m = 7 \<or> m = 8 \<or> m = 9 \<or> m = 10 \<or> m = 11 \<or> m = 12"
  proof cases
    case 1
    with assms have "m = 1 \<or> m = 2 \<or> m = 3 \<or> m = 4 \<or> m = 5 \<or> m = 6" by linarith
    then show ?thesis by blast
  next
    case 2
    with assms have "m = 7 \<or> m = 8 \<or> m = 9 \<or> m = 10 \<or> m = 11 \<or> m = 12" by linarith
    then show ?thesis by blast
  qed
  then show thesis using that by blast
qed

lemma days_before_month_Suc:
  assumes "1 \<le> m" "m < 12"
  shows "days_before_month y (m + 1) = days_before_month y m + days_in_month y m"
proof -
  from assms have "1 \<le> m" "m \<le> 12" by simp_all
  then show ?thesis
    using assms(2)
    by (cases m rule: month_cases) (simp_all add: days_before_month_table days_in_month_table)
qed

lemma year_length: "days_before_month y 12 + days_in_month y 12 = 365 + (if leap y then 1 else 0)"
  by (simp add: days_before_month_table days_in_month_table)

lemma month_of_yday_correct:
  assumes "valid_date y m d"
  shows "month_of_yday y (days_before_month y m + d) = m"
proof -
  from assms have m: "1 \<le> m" "m \<le> 12" and d: "1 \<le> d" "d \<le> days_in_month y m"
    by (auto simp: valid_date_def)
  from m d show ?thesis
    by (cases m rule: month_cases)
      (simp_all add: month_of_yday_def days_before_month_table days_in_month_table)
qed

lemma yday_range:
  assumes "valid_date y m d"
  shows "0 < days_before_month y m + d" "days_before_month y m + d \<le> 365 + (if leap y then 1 else 0)"
proof -
  from assms have m: "1 \<le> m" "m \<le> 12" and d: "1 \<le> d" "d \<le> days_in_month y m"
    by (auto simp: valid_date_def)
  from m d show "0 < days_before_month y m + d"
    by (cases m rule: month_cases) (simp_all add: days_before_month_table)
  from m d show "days_before_month y m + d \<le> 365 + (if leap y then 1 else 0)"
    by (cases m rule: month_cases) (simp_all add: days_before_month_table days_in_month_table)
qed

lemma date_of_days_of_date:
  assumes "valid_date y m d"
  shows "date_of_day (days_of_date y m d) = (y, m, d)"
proof -
  have od: "days_of_date y m d + epoch_ordinal = days_before_year y + (days_before_month y m + d)"
    by (simp add: days_of_date_def)
  have "year_of_day (days_of_date y m d) = y"
    using yday_range [OF assms] unfolding od days_before_year_Suc
    by (intro year_of_day_unique) (simp_all add: od days_before_year_Suc)
  then show ?thesis
    using month_of_yday_correct [OF assms] by (simp add: date_of_day_def od Let_def)
qed

lemma month_of_yday_valid:
  assumes "1 \<le> k" "k \<le> 365 + (if leap y then 1 else 0)"
  defines "m \<equiv> month_of_yday y k"
  shows "valid_date y m (k - days_before_month y m)"
  using assms(1,2) unfolding m_def month_of_yday_def valid_date_def days_before_month_table
  by (simp add: days_before_month_table days_in_month_table)

lemma date_of_day_valid:
  assumes "date_of_day n = (y, m, d)"
  shows "valid_date y m d" "days_of_date y m d = n"
proof -
  define k where "k = n + epoch_ordinal - days_before_year (year_of_day n)"
  have y: "y = year_of_day n" and m: "m = month_of_yday y k" and d: "d = k - days_before_month y m"
    using assms by (auto simp: date_of_day_def k_def Let_def)
  have "1 \<le> k" "k \<le> 365 + (if leap y then 1 else 0)"
    using year_of_day_correct [of n] unfolding k_def y days_before_year_Suc by auto
  then show "valid_date y m d" unfolding m d by (rule month_of_yday_valid)
  show "days_of_date y m d = n" by (simp add: days_of_date_def d k_def y)
qed

definition dt_year :: "instant \<Rightarrow> int" where "dt_year t = fst (date_of_day (dt_day t))"
definition dt_month :: "instant \<Rightarrow> int" where "dt_month t = fst (snd (date_of_day (dt_day t)))"
definition dt_dom :: "instant \<Rightarrow> int" where "dt_dom t = snd (snd (date_of_day (dt_day t)))"

lemma dt_date_valid: "valid_date (dt_year t) (dt_month t) (dt_dom t)"
  and dt_date_days: "days_of_date (dt_year t) (dt_month t) (dt_dom t) = dt_day t"
  using date_of_day_valid [of "dt_day t" "dt_year t" "dt_month t" "dt_dom t"]
  by (auto simp: dt_year_def dt_month_def dt_dom_def)

lemma dt_date_of_days:
  assumes "valid_date y m d" "dt_day t = days_of_date y m d"
  shows "dt_year t = y" "dt_month t = m" "dt_dom t = d"
  using date_of_days_of_date [OF assms(1)] assms(2) by (simp_all add: dt_year_def dt_month_def dt_dom_def)

text \<open>The first instant of a month, and of the month after it.\<close>

definition month_start :: "int \<Rightarrow> int \<Rightarrow> instant" where
  "month_start y m = combine (days_of_date y m 1) 0 0 0 0"

definition next_month_start :: "int \<Rightarrow> int \<Rightarrow> instant" where
  "next_month_start y m = (if m = 12 then month_start (y + 1) 1 else month_start y (m + 1))"

lemma valid_date_first: "1 \<le> m \<Longrightarrow> m \<le> 12 \<Longrightarrow> valid_date y m 1"
  by (cases m rule: month_cases) (simp_all add: valid_date_def days_in_month_table)

lemma next_month_days:
  assumes "1 \<le> m" "m \<le> 12"
  shows "next_month_start y m = month_start y m + days_in_month y m * usec_day"
  using assms days_before_month_Suc [of m y] days_before_year_Suc [of y] year_length [of y]
  by (auto simp: next_month_start_def month_start_def days_of_date_def combine_def
      algebra_simps days_before_month_table days_in_month_table simp del: of_int_add)

subsection \<open>The stored text of an instant\<close>

definition digit_char :: "nat \<Rightarrow> char" where "digit_char d = char_of (48 + d)"

definition digit_value :: "char \<Rightarrow> nat option" where
  "digit_value c = (let n = of_char c in if 48 \<le> n \<and> n \<le> 57 then Some (n - 48) else None)"

text \<open>\<open>fixed_digits w n\<close> writes the last \<open>w\<close> decimal digits of \<open>n\<close>, as \<^verbatim>\<open>%0wd\<close> does when it fits.\<close>

fun fixed_digits :: "nat \<Rightarrow> nat \<Rightarrow> string" where
  "fixed_digits 0 n = []"
| "fixed_digits (Suc w) n = fixed_digits w (n div 10) @ [digit_char (n mod 10)]"

fun read_digits :: "nat \<Rightarrow> string \<Rightarrow> nat option" where
  "read_digits a [] = Some a"
| "read_digits a (c # cs) =
     (case digit_value c of None \<Rightarrow> None | Some d \<Rightarrow> read_digits (10 * a + d) cs)"

lemma length_fixed_digits [simp]: "length (fixed_digits w n) = w"
  by (induction w arbitrary: n) auto

lemma digit_value_char [simp]: "d < 10 \<Longrightarrow> digit_value (digit_char d) = Some d"
  by (simp add: digit_value_def digit_char_def)

lemma read_digits_snoc:
  "read_digits a (cs @ [c]) =
     (case read_digits a cs of None \<Rightarrow> None
      | Some b \<Rightarrow> (case digit_value c of None \<Rightarrow> None | Some d \<Rightarrow> Some (10 * b + d)))"
  by (induction a cs rule: read_digits.induct) (auto split: option.splits)

lemma read_fixed_digits: "n < 10 ^ w \<Longrightarrow> read_digits 0 (fixed_digits w n) = Some n"
proof (induction w arbitrary: n)
  case (Suc w)
  then have "n div 10 < 10 ^ w" by simp
  then show ?case using Suc.IH by (simp add: read_digits_snoc)
qed simp

text \<open>\<^verbatim>\<open>iso_utc\<close> of \<^verbatim>\<open>time_utils.py\<close>: \<^verbatim>\<open>isoformat(timespec="seconds")\<close> with the offset written \<^verbatim>\<open>Z\<close>.\<close>

definition iso_utc :: "instant \<Rightarrow> string" where
  "iso_utc t =
     fixed_digits 4 (nat (dt_year t)) @ ''-'' @ fixed_digits 2 (nat (dt_month t)) @ ''-''
     @ fixed_digits 2 (nat (dt_dom t)) @ ''T'' @ fixed_digits 2 (nat (dt_hour t)) @ '':''
     @ fixed_digits 2 (nat (dt_minute t)) @ '':'' @ fixed_digits 2 (nat (dt_second t)) @ ''Z''"

text \<open>The reader of stored timestamps, \<^verbatim>\<open>datetime.fromisoformat(text.replace("Z", "+00:00"))\<close>,
  on texts of this shape.\<close>

definition parse_time :: "string \<Rightarrow> instant option" where
  "parse_time cs =
     (if length cs = 20 \<and> cs ! 4 = CHR ''-'' \<and> cs ! 7 = CHR ''-'' \<and> cs ! 10 = CHR ''T''
         \<and> cs ! 13 = CHR '':'' \<and> cs ! 16 = CHR '':'' \<and> cs ! 19 = CHR ''Z''
      then (case (read_digits 0 (take 4 cs), read_digits 0 (take 2 (drop 5 cs)),
                  read_digits 0 (take 2 (drop 8 cs)), read_digits 0 (take 2 (drop 11 cs)),
                  read_digits 0 (take 2 (drop 14 cs)), read_digits 0 (take 2 (drop 17 cs))) of
              (Some y, Some m, Some d, Some h, Some mi, Some s) \<Rightarrow>
                if valid_date (int y) (int m) (int d) \<and> h < 24 \<and> mi < 60 \<and> s < 60
                then Some (combine (days_of_date (int y) (int m) (int d)) (int h) (int mi) (int s) 0)
                else None
            | _ \<Rightarrow> None)
      else None)"

definition whole_seconds :: "instant \<Rightarrow> instant" where
  "whole_seconds t = t - t mod usec_second"

lemma whole_seconds_idem [simp]: "whole_seconds (whole_seconds t) = whole_seconds t"
  by (simp add: whole_seconds_def)

lemma whole_seconds_le: "whole_seconds t \<le> t" "t < whole_seconds t + usec_second"
  by (simp_all add: whole_seconds_def usec_defs)

lemma whole_seconds_mono: "s \<le> t \<Longrightarrow> whole_seconds s \<le> whole_seconds t"
proof -
  assume "s \<le> t"
  then have "s div usec_second * usec_second \<le> t div usec_second * usec_second"
    by (intro mult_right_mono zdiv_mono1) (simp_all add: usec_defs)
  then show ?thesis by (simp add: whole_seconds_def minus_mod_eq_div_mult)
qed

lemma length_iso_utc: "length (iso_utc t) = 20"
  by (simp add: iso_utc_def)

lemma days_in_month_le: "1 \<le> m \<Longrightarrow> m \<le> 12 \<Longrightarrow> days_in_month y m \<le> 31"
  by (cases m rule: month_cases) (simp_all add: days_in_month_table)

lemma combine_whole_seconds:
  "combine (dt_day t) (dt_hour t) (dt_minute t) (dt_second t) 0 = whole_seconds t"
  using combine_fields [of t] by (simp add: combine_def whole_seconds_def dt_microsecond_def)

lemma parse_iso_utc:
  assumes "0 \<le> dt_year t" "dt_year t \<le> 9999"
  shows "parse_time (iso_utc t) = Some (whole_seconds t)"
proof -
  have v: "valid_date (dt_year t) (dt_month t) (dt_dom t)" by (rule dt_date_valid)
  then have m: "1 \<le> dt_month t" "dt_month t \<le> 12" and d: "1 \<le> dt_dom t" "dt_dom t \<le> 31"
    using days_in_month_le [of "dt_month t" "dt_year t"] by (auto simp: valid_date_def)
  note f = dt_field_ranges [of t]
  have n: "nat (dt_year t) < 10 ^ 4" "nat (dt_month t) < 10 ^ 2" "nat (dt_dom t) < 10 ^ 2"
    "nat (dt_hour t) < 10 ^ 2" "nat (dt_minute t) < 10 ^ 2" "nat (dt_second t) < 10 ^ 2"
    using assms m d f by simp_all
  have cut: "take 4 (iso_utc t) = fixed_digits 4 (nat (dt_year t))"
    "take 2 (drop 5 (iso_utc t)) = fixed_digits 2 (nat (dt_month t))"
    "take 2 (drop 8 (iso_utc t)) = fixed_digits 2 (nat (dt_dom t))"
    "take 2 (drop 11 (iso_utc t)) = fixed_digits 2 (nat (dt_hour t))"
    "take 2 (drop 14 (iso_utc t)) = fixed_digits 2 (nat (dt_minute t))"
    "take 2 (drop 17 (iso_utc t)) = fixed_digits 2 (nat (dt_second t))"
    "iso_utc t ! 4 = CHR ''-''" "iso_utc t ! 7 = CHR ''-''" "iso_utc t ! 10 = CHR ''T''"
    "iso_utc t ! 13 = CHR '':''" "iso_utc t ! 16 = CHR '':''" "iso_utc t ! 19 = CHR ''Z''"
    by (simp_all add: iso_utc_def nth_append drop_Cons')
  show ?thesis
    using v m d f assms
    by (simp add: parse_time_def length_iso_utc cut read_fixed_digits [OF n(1)]
        read_fixed_digits [OF n(2)] read_fixed_digits [OF n(3)] read_fixed_digits [OF n(4)]
        read_fixed_digits [OF n(5)] read_fixed_digits [OF n(6)] nat_less_iff
        dt_date_days combine_whole_seconds)
qed

lemma iso_utc_inj:
  assumes "iso_utc s = iso_utc t" "0 \<le> dt_year s" "dt_year s \<le> 9999" "0 \<le> dt_year t" "dt_year t \<le> 9999"
  shows "whole_seconds s = whole_seconds t"
  using parse_iso_utc [of s] parse_iso_utc [of t] assms by simp

text \<open>\<^verbatim>\<open>replace(second=0, microsecond=0)\<close>.\<close>

definition floor_minute :: "instant \<Rightarrow> instant" where
  "floor_minute t = t - t mod usec_minute"

lemma floor_minute_fields: "floor_minute t = combine (dt_day t) (dt_hour t) (dt_minute t) 0 0"
proof -
  have "t mod usec_minute = dt_second t * usec_second + dt_microsecond t"
    using mod_split [of 60 usec_second t] by (simp add: dt_fields usec_defs)
  then show ?thesis using combine_fields [of t] by (simp add: floor_minute_def combine_def)
qed

lemma floor_minute_le: "floor_minute t \<le> t" "t < floor_minute t + usec_minute"
  by (simp_all add: floor_minute_def usec_defs)

lemma floor_minute_eq_iff: "floor_minute t = t \<longleftrightarrow> t mod usec_minute = 0"
  by (auto simp: floor_minute_def)

lemma floor_minute_mod [simp]: "floor_minute t mod usec_minute = 0"
  by (simp add: floor_minute_def)

end
