(* ===== verification/Domain.thy ===== *)
theory Domain
  imports Decimals Calendar
begin

section \<open>Domain records and the signal state machine\<close>

text \<open>
  \<^verbatim>\<open>domain/enums.py\<close>, \<^verbatim>\<open>domain/ids.py\<close>, \<^verbatim>\<open>domain/models.py\<close>, \<^verbatim>\<open>domain/state_machine.py\<close> and the
  conversions of \<^verbatim>\<open>time_utils.py\<close>.  A frozen dataclass is a record; its \<^verbatim>\<open>__post_init__\<close> is a
  function \<open>check_...\<close> that returns the record or the exception the code raises, with the
  guards in the code's order.  The decimal and timestamp fields of a record hold the value
  after \<^verbatim>\<open>as_decimal\<close> and \<^verbatim>\<open>as_utc\<close>, which are modelled on their own.  Strings are ASCII.

  The lemmas show the geometry of validated terms (stop, entry zone and targets on the
  right sides, every target worth at least 2R after costs), the round trip of signal
  identifiers, and that the transition table and the event table agree.
\<close>

subsection \<open>Closed vocabularies\<close>

datatype side = LONG | SHORT

datatype bias = Bias_BULLISH | Bias_BEARISH | Bias_NEUTRAL | Bias_UNCERTAIN

datatype market_regime =
  BULLISH_TREND | BEARISH_TREND | RANGE | TRANSITION | ABNORMALLY_VOLATILE | NO_RELIABLE_REGIME

datatype signal_status = PENDING | ACTIVE | EXPIRED | CANCELLED | CLOSED

datatype track_status = Track_ACTIVE | Track_CLOSED

datatype outcome_variant = FIXED | MANAGED

datatype outcome_result = WIN | LOSS | BREAK_EVEN | EARLY_EXIT

datatype trade_event_type =
    Ev_SIGNAL_CREATED | Ev_ENTRY_ACTIVATED | Ev_ENTRY_EXPIRED | Ev_SIGNAL_CANCELLED
  | Ev_TP1_HIT | Ev_TP2_HIT | Ev_TP3_HIT | Ev_STOP_LOSS_HIT | Ev_BREAK_EVEN | Ev_EARLY_EXIT
  | Ev_CLOSED | Ev_MANAGEMENT_DECISION

datatype management_action =
    HOLD | MOVE_STOP_TO_BREAK_EVEN | REDUCE_POSITION | TAKE_PARTIAL_PROFIT | TRAIL_STOP
  | CLOSE_POSITION_NOW | CANCEL_PENDING_ENTRY

fun status_value :: "signal_status \<Rightarrow> string" where
  "status_value PENDING = ''PENDING''"
| "status_value ACTIVE = ''ACTIVE''"
| "status_value EXPIRED = ''EXPIRED''"
| "status_value CANCELLED = ''CANCELLED''"
| "status_value CLOSED = ''CLOSED''"

fun variant_value :: "outcome_variant \<Rightarrow> string" where
  "variant_value FIXED = ''FIXED''"
| "variant_value MANAGED = ''MANAGED''"

fun event_value :: "trade_event_type \<Rightarrow> string" where
  "event_value Ev_SIGNAL_CREATED = ''SIGNAL_CREATED''"
| "event_value Ev_ENTRY_ACTIVATED = ''ENTRY_ACTIVATED''"
| "event_value Ev_ENTRY_EXPIRED = ''ENTRY_EXPIRED''"
| "event_value Ev_SIGNAL_CANCELLED = ''SIGNAL_CANCELLED''"
| "event_value Ev_TP1_HIT = ''TP1_HIT''"
| "event_value Ev_TP2_HIT = ''TP2_HIT''"
| "event_value Ev_TP3_HIT = ''TP3_HIT''"
| "event_value Ev_STOP_LOSS_HIT = ''STOP_LOSS_HIT''"
| "event_value Ev_BREAK_EVEN = ''BREAK_EVEN''"
| "event_value Ev_EARLY_EXIT = ''EARLY_EXIT''"
| "event_value Ev_CLOSED = ''CLOSED''"
| "event_value Ev_MANAGEMENT_DECISION = ''MANAGEMENT_DECISION''"

text \<open>The variants compare as their text values do: \<^verbatim>\<open>"FIXED" < "MANAGED"\<close>.\<close>

instantiation outcome_variant :: linorder
begin

definition less_eq_outcome_variant :: "outcome_variant \<Rightarrow> outcome_variant \<Rightarrow> bool" where
  "less_eq_outcome_variant a b \<longleftrightarrow> a = FIXED \<or> b = MANAGED"

definition less_outcome_variant :: "outcome_variant \<Rightarrow> outcome_variant \<Rightarrow> bool" where
  "less_outcome_variant a b \<longleftrightarrow> a = FIXED \<and> b = MANAGED"

instance
  by standard (auto simp: less_eq_outcome_variant_def less_outcome_variant_def intro: outcome_variant.exhaust)

end

subsection \<open>Conversions\<close>

text \<open>
  A \<^verbatim>\<open>datetime\<close> as the caller passes it: naive, or aware with its offset from UTC.
\<close>

datatype py_datetime = Naive int | Aware int int

fun as_utc :: "py_datetime \<Rightarrow> string \<Rightarrow> instant result" where
  "as_utc (Naive _) name = Inl (DomainValidationError (name @ '' must be timezone-aware''))"
| "as_utc (Aware local offset) name = Inr (local - offset)"

fun ensure_utc :: "py_datetime \<Rightarrow> instant result" where
  "ensure_utc (Naive _) = Inl (DomainValidationError ''Timestamp must be timezone-aware'')"
| "ensure_utc (Aware local offset) = Inr (local - offset)"

text \<open>
  The values \<^verbatim>\<open>as_decimal\<close> is given; the text grammar of \<^verbatim>\<open>Decimal(str)\<close> is a parameter that
  returns a finite value, an infinity or a NaN, or refuses.
\<close>

datatype decimal_value = Finite decimal | Non_finite

datatype py_number = Py_float | Py_int int | Py_str string | Py_decimal decimal_value

fun as_decimal :: "(string \<Rightarrow> decimal_value option) \<Rightarrow> py_number \<Rightarrow> string \<Rightarrow> decimal result" where
  "as_decimal parse Py_float name = Inl (DomainValidationError (name @ '' must not be a binary float''))"
| "as_decimal parse (Py_int n) name = Inr (of_int n)"
| "as_decimal parse (Py_str text) name =
     (case parse text of
        None \<Rightarrow> Inl (DomainValidationError (name @ '' must be a decimal value''))
      | Some (Finite x) \<Rightarrow> Inr x
      | Some Non_finite \<Rightarrow> Inl (DomainValidationError (name @ '' must be finite'')))"
| "as_decimal parse (Py_decimal (Finite x)) name = Inr x"
| "as_decimal parse (Py_decimal Non_finite) name = Inl (DomainValidationError (name @ '' must be finite''))"

text \<open>\<^verbatim>\<open>not value.strip()\<close>: only whitespace.\<close>

definition is_space :: "char \<Rightarrow> bool" where
  "is_space c = (let n = (of_char c :: nat) in n = 32 \<or> (9 \<le> n \<and> n \<le> 13) \<or> (28 \<le> n \<and> n \<le> 31))"

definition blank :: "string \<Rightarrow> bool" where
  "blank text = list_all is_space text"

subsection \<open>Signal identifiers\<close>

type_synonym date = "int \<times> int \<times> int"

definition date_digits :: "date \<Rightarrow> string" where
  "date_digits dt = (case dt of (y, m, d) \<Rightarrow>
     fixed_digits 4 (nat y) @ fixed_digits 2 (nat m) @ fixed_digits 2 (nat d))"

definition pad3 :: "nat \<Rightarrow> string" where
  "pad3 n = fixed_digits (max 3 (ndigits n)) n"

text \<open>\<^verbatim>\<open>%Y\<close> is four digits for the years from 1000 on; before, its width depends on the platform.\<close>

definition format_signal_id :: "date \<Rightarrow> int \<Rightarrow> string result" where
  "format_signal_id dt sequence =
     (if sequence < 1 then Inl (DomainValidationError ''Signal sequence must be positive'')
      else Inr (''BTC-'' @ date_digits dt @ ''-'' @ pad3 (nat sequence)))"

definition is_digit :: "char \<Rightarrow> bool" where
  "is_digit c \<longleftrightarrow> digit_value c \<noteq> None"

text \<open>The two groups of \<^verbatim>\<open>^BTC-(\\d{8})-(\\d{3,})$\<close>.\<close>

definition match_signal_id :: "string \<Rightarrow> (string \<times> string) option" where
  "match_signal_id v =
     (let ds = take 8 (drop 4 v); ss = drop 13 v
      in if take 4 v = ''BTC-'' \<and> length ds = 8 \<and> list_all is_digit ds
           \<and> take 1 (drop 12 v) = ''-'' \<and> 3 \<le> length ss \<and> list_all is_digit ss
         then Some (ds, ss) else None)"

definition validate_signal_id :: "string \<Rightarrow> string result" where
  "validate_signal_id v =
     (case match_signal_id v of
        None \<Rightarrow> Inl (DomainValidationError ''Signal ID must match BTC-YYYYMMDD-NNN'')
      | Some (ds, ss) \<Rightarrow>
          (case (read_digits 0 (take 4 ds), read_digits 0 (take 2 (drop 4 ds)), read_digits 0 (drop 6 ds)) of
             (Some y, Some m, Some d) \<Rightarrow>
               if \<not> (1 \<le> y \<and> valid_date (int y) (int m) (int d))
               then Inl (DomainValidationError ''Signal ID contains an invalid calendar date'')
               else (case read_digits 0 ss of
                       Some n \<Rightarrow> if n < 1 then Inl (DomainValidationError ''Signal sequence must be positive'') else Inr v
                     | None \<Rightarrow> Inl (DomainValidationError ''Signal ID must match BTC-YYYYMMDD-NNN''))
           | _ \<Rightarrow> Inl (DomainValidationError ''Signal ID must match BTC-YYYYMMDD-NNN'')))"

definition id_date :: "string \<Rightarrow> nat option" where
  "id_date v = read_digits 0 (take 8 (drop 4 v))"

definition id_sequence :: "string \<Rightarrow> nat option" where
  "id_sequence v = read_digits 0 (drop 13 v)"

lemma is_digit_fixed: "list_all is_digit (fixed_digits w n)"
  by (induction w arbitrary: n) (auto simp: is_digit_def)

lemma read_pad3: "read_digits 0 (pad3 n) = Some n"
proof -
  have "n < 10 ^ ndigits n" by (rule ndigits_upper)
  also have "(10::nat) ^ ndigits n \<le> 10 ^ max 3 (ndigits n)" by (rule power_increasing) auto
  finally show ?thesis unfolding pad3_def by (rule read_fixed_digits)
qed

lemma length_date_digits [simp]: "length (date_digits dt) = 8"
  by (simp add: date_digits_def split: prod.splits)

lemma formatted_id_parts:
  assumes "v = ''BTC-'' @ date_digits dt @ ''-'' @ pad3 n"
  shows "take 4 v = ''BTC-''" "take 8 (drop 4 v) = date_digits dt" "take 1 (drop 12 v) = ''-''"
    "drop 13 v = pad3 n"
  using assms by simp_all

lemma format_signal_id_valid:
  assumes "1 \<le> y" "y \<le> 9999" "valid_date y m d" "1 \<le> n"
  obtains v where "format_signal_id (y, m, d) n = Inr v" "validate_signal_id v = Inr v"
proof -
  define v where "v = ''BTC-'' @ date_digits (y, m, d) @ ''-'' @ pad3 (nat n)"
  have f: "format_signal_id (y, m, d) n = Inr v"
    using assms(4) by (simp add: format_signal_id_def v_def)
  note p = formatted_id_parts [OF v_def]
  have md: "1 \<le> m" "m \<le> 12" "1 \<le> d" "d \<le> 31"
    using assms(3) days_in_month_le [of m y] by (auto simp: valid_date_def)
  have l: "3 \<le> length (pad3 (nat n))" by (simp add: pad3_def)
  have "match_signal_id v = Some (date_digits (y, m, d), pad3 (nat n))"
    using l unfolding match_signal_id_def p Let_def
    by (simp add: date_digits_def pad3_def is_digit_fixed)
  moreover have "take 4 (date_digits (y, m, d)) = fixed_digits 4 (nat y)"
    "take 2 (drop 4 (date_digits (y, m, d))) = fixed_digits 2 (nat m)"
    "drop 6 (date_digits (y, m, d)) = fixed_digits 2 (nat d)"
    by (simp_all add: date_digits_def)
  moreover have "read_digits 0 (fixed_digits 4 (nat y)) = Some (nat y)"
    "read_digits 0 (fixed_digits 2 (nat m)) = Some (nat m)"
    "read_digits 0 (fixed_digits 2 (nat d)) = Some (nat d)"
    using assms(2) md by (auto intro!: read_fixed_digits)
  ultimately have "validate_signal_id v = Inr v"
    using assms md by (simp add: validate_signal_id_def read_pad3)
  with f show thesis by (rule that)
qed

lemma format_signal_id_sequence:
  assumes "format_signal_id dt n = Inr v"
  shows "1 \<le> n" "id_sequence v = Some (nat n)"
  using assms formatted_id_parts [of v dt "nat n"] by (auto simp: format_signal_id_def id_sequence_def read_pad3 split: if_splits)

subsection \<open>Targets and signal terms\<close>

record target =
  t_ordinal :: int
  t_price :: decimal

definition check_target :: "target \<Rightarrow> target result" where
  "check_target t =
     (if t_ordinal t \<notin> {1, 2, 3} then Inl (DomainValidationError ''Target ordinal must be 1, 2, or 3'')
      else if t_price t \<le> 0 then Inl (DomainValidationError ''Target price must be positive'')
      else Inr t)"

record timeframe_biases =
  monthly :: bias
  weekly :: bias
  daily :: bias
  four_hour :: bias
  one_hour :: bias
  fifteen_minute :: bias

record signal_terms =
  side :: side
  entry_low :: decimal
  entry_high :: decimal
  original_stop :: decimal
  targets :: "target list"
  created_at :: instant
  data_timestamp :: instant
  expires_at :: instant
  invalidation_condition :: string
  expiration_condition :: string
  recommended_risk_percent :: decimal
  estimated_round_trip_cost_rate :: decimal
  minimum_planned_rr :: decimal
  symbol :: string

definition conservative_entry :: "signal_terms \<Rightarrow> decimal" where
  "conservative_entry t = (case side t of LONG \<Rightarrow> entry_high t | SHORT \<Rightarrow> entry_low t)"

text \<open>
  \<open>reward_and_risk\<close> is the arithmetic of \<^verbatim>\<open>planned_r_for\<close>: net reward and total risk of a
  price against an entry and a stop, each operator rounded.
\<close>

definition gross_move :: "side \<Rightarrow> decimal \<Rightarrow> decimal \<Rightarrow> decimal" where
  "gross_move s entry price = (case s of LONG \<Rightarrow> dsub price entry | SHORT \<Rightarrow> dsub entry price)"

definition gross_risk :: "side \<Rightarrow> decimal \<Rightarrow> decimal \<Rightarrow> decimal" where
  "gross_risk s entry stop = (case s of LONG \<Rightarrow> dsub entry stop | SHORT \<Rightarrow> dsub stop entry)"

definition planned_r_for :: "signal_terms \<Rightarrow> target \<Rightarrow> decimal" where
  "planned_r_for t tg =
     (let entry = conservative_entry t;
          cost = dmul entry (estimated_round_trip_cost_rate t);
          net_reward = dsub (gross_move (side t) entry (t_price tg)) cost;
          total_risk = dadd (gross_risk (side t) entry (original_stop t)) cost
      in if net_reward \<le> 0 \<or> total_risk \<le> 0 then 0 else dquot net_reward total_risk)"

definition check_side_geometry :: "signal_terms \<Rightarrow> signal_terms result" where
  "check_side_geometry t =
     (let prices = map t_price (targets t) in
      case side t of
        LONG \<Rightarrow>
          if entry_low t \<le> original_stop t then Inl (DomainValidationError ''A LONG stop must be below the entry zone'')
          else if list_ex (\<lambda>p. p \<le> entry_high t) prices
          then Inl (DomainValidationError ''Every LONG target must be above the entry zone'')
          else if prices \<noteq> sort prices then Inl (DomainValidationError ''LONG targets must increase'')
          else Inr t
      | SHORT \<Rightarrow>
          if original_stop t \<le> entry_high t then Inl (DomainValidationError ''A SHORT stop must be above the entry zone'')
          else if list_ex (\<lambda>p. entry_low t \<le> p) prices
          then Inl (DomainValidationError ''Every SHORT target must be below the entry zone'')
          else if prices \<noteq> rev (sort prices) then Inl (DomainValidationError ''SHORT targets must decrease'')
          else Inr t)"

definition check_signal_terms :: "signal_terms \<Rightarrow> signal_terms result" where
  "check_signal_terms t =
     (if symbol t \<noteq> ''BTCUSDT'' then Inl (DomainValidationError ''Version 1 accepts BTCUSDT only'')
      else if entry_low t \<le> 0 \<or> entry_high t \<le> 0 \<or> original_stop t \<le> 0
      then Inl (DomainValidationError ''Entry and stop prices must be positive'')
      else if entry_high t < entry_low t then Inl (DomainValidationError ''entry_low cannot exceed entry_high'')
      else if \<not> (2 \<le> length (targets t) \<and> length (targets t) \<le> 3)
      then Inl (DomainValidationError ''A signal must contain TP1, TP2, and optionally TP3'')
      else if map t_ordinal (targets t) \<noteq> map int [1..<Suc (length (targets t))]
      then Inl (DomainValidationError ''Targets must be consecutive and ordered from TP1'')
      else if created_at t < data_timestamp t
      then Inl (DomainValidationError ''Data timestamp cannot be later than signal creation'')
      else if expires_at t \<le> created_at t
      then Inl (DomainValidationError ''Signal expiry must be later than creation'')
      else if blank (invalidation_condition t) \<or> blank (expiration_condition t)
      then Inl (DomainValidationError ''Invalidation and expiration conditions are required'')
      else if \<not> (1 / 100 \<le> recommended_risk_percent t \<and> recommended_risk_percent t \<le> 1)
      then Inl (DomainValidationError ''Recommended risk must be between 0.01% and 1%'')
      else if \<not> (0 \<le> estimated_round_trip_cost_rate t \<and> estimated_round_trip_cost_rate t \<le> 1 / 100)
      then Inl (DomainValidationError ''Estimated round-trip cost rate must be between 0 and 1%'')
      else if minimum_planned_rr t < 2
      then Inl (DomainValidationError ''Minimum planned risk/reward cannot be below 2R'')
      else bind_result (check_side_geometry t) (\<lambda>_.
        if planned_r_for t (hd (targets t)) < minimum_planned_rr t
        then Inl (DomainValidationError ''TP1 does not meet the minimum net planned risk/reward'')
        else Inr t))"

record signal =
  signal_id :: string
  terms :: signal_terms
  setup_score :: int
  regime :: market_regime
  biases :: timeframe_biases
  reasons :: "string list"
  risks :: "string list"
  strategy_version :: string
  status :: signal_status
  row_version :: int

definition check_signal :: "signal \<Rightarrow> signal result" where
  "check_signal s =
     bind_result (validate_signal_id (signal_id s)) (\<lambda>_.
       if \<not> (0 \<le> setup_score s \<and> setup_score s \<le> 100)
       then Inl (DomainValidationError ''Setup score must be between 0 and 100'')
       else if status s \<noteq> PENDING then Inl (DomainValidationError ''A new Signal object must start PENDING'')
       else if reasons s = [] \<or> list_ex blank (reasons s)
       then Inl (DomainValidationError ''At least one non-empty setup reason is required'')
       else if list_ex blank (risks s) then Inl (DomainValidationError ''Risk descriptions cannot be empty'')
       else if blank (strategy_version s) then Inl (DomainValidationError ''A strategy version is required'')
       else if row_version s \<noteq> 1 then Inl (DomainValidationError ''A new signal must start at row version 1'')
       else Inr s)"

subsection \<open>The state machine\<close>

definition transitions :: "signal_status \<Rightarrow> signal_status set" where
  "transitions s = (case s of PENDING \<Rightarrow> {ACTIVE, EXPIRED, CANCELLED} | ACTIVE \<Rightarrow> {CLOSED}
     | EXPIRED \<Rightarrow> {} | CANCELLED \<Rightarrow> {} | CLOSED \<Rightarrow> {})"

fun transition_events :: "signal_status \<times> signal_status \<Rightarrow> trade_event_type option" where
  "transition_events (PENDING, ACTIVE) = Some Ev_ENTRY_ACTIVATED"
| "transition_events (PENDING, EXPIRED) = Some Ev_ENTRY_EXPIRED"
| "transition_events (PENDING, CANCELLED) = Some Ev_SIGNAL_CANCELLED"
| "transition_events (ACTIVE, CLOSED) = Some Ev_CLOSED"
| "transition_events _ = None"

definition assert_transition :: "signal_status \<Rightarrow> signal_status \<Rightarrow> unit result" where
  "assert_transition current new =
     (if new \<notin> transitions current
      then Inl (InvalidTransitionError (''Signal cannot transition from '' @ status_value current
                @ '' to '' @ status_value new))
      else Inr ())"

definition transition_event :: "signal_status \<Rightarrow> signal_status \<Rightarrow> trade_event_type result" where
  "transition_event current new =
     bind_result (assert_transition current new) (\<lambda>_.
       case transition_events (current, new) of None \<Rightarrow> Inl (KeyError ''transition'') | Some e \<Rightarrow> Inr e)"

subsection \<open>What validation establishes\<close>

lemma check_target_Inr: "check_target t = Inr u \<longleftrightarrow> u = t \<and> t_ordinal t \<in> {1, 2, 3} \<and> 0 < t_price t"
  by (auto simp: check_target_def split: if_splits)

lemma check_side_geometry_Inr:
  "check_side_geometry t = Inr u \<longleftrightarrow> u = t \<and>
     (case side t of
        LONG \<Rightarrow> original_stop t < entry_low t \<and> (\<forall>x \<in> set (targets t). entry_high t < t_price x)
                 \<and> sorted (map t_price (targets t))
      | SHORT \<Rightarrow> entry_high t < original_stop t \<and> (\<forall>x \<in> set (targets t). t_price x < entry_low t)
                 \<and> sorted (rev (map t_price (targets t))))"
proof -
  have s: "xs = sort xs \<longleftrightarrow> sorted xs" for xs :: "rat list"
    by (metis sorted_sort sorted_sort_id)
  have r: "xs = rev (sort xs) \<longleftrightarrow> sorted (rev xs)" for xs :: "rat list"
    by (metis rev_rev_ident sorted_sort properties_for_sort mset_rev)
  show ?thesis
    unfolding check_side_geometry_def s r Let_def
    by (cases "side t") (auto simp: list_ex_iff not_le[symmetric] split: if_splits)
qed

lemma check_signal_terms_Inr:
  "check_signal_terms t = Inr u \<Longrightarrow> u = t \<and> check_side_geometry t = Inr t \<and> symbol t = ''BTCUSDT''
     \<and> 0 < entry_low t \<and> entry_low t \<le> entry_high t \<and> 0 < original_stop t
     \<and> 2 \<le> length (targets t) \<and> length (targets t) \<le> 3
     \<and> map t_ordinal (targets t) = map int [1..<Suc (length (targets t))]
     \<and> data_timestamp t \<le> created_at t \<and> created_at t < expires_at t
     \<and> 1 / 100 \<le> recommended_risk_percent t \<and> recommended_risk_percent t \<le> 1
     \<and> 0 \<le> estimated_round_trip_cost_rate t \<and> estimated_round_trip_cost_rate t \<le> 1 / 100
     \<and> 2 \<le> minimum_planned_rr t \<and> minimum_planned_rr t \<le> planned_r_for t (hd (targets t))"
  unfolding check_signal_terms_def bind_result_eq_Inr
  by (auto simp: not_less not_le bind_result_eq_Inr check_side_geometry_Inr split: if_splits)

text \<open>A target farther from the entry is worth at least as many R.\<close>

lemma gross_move_mono:
  "(case s of LONG \<Rightarrow> p \<le> q | SHORT \<Rightarrow> q \<le> p) \<Longrightarrow> gross_move s e p \<le> gross_move s e q"
  by (cases s) (auto simp: gross_move_def dsub_def intro!: rnd28_mono)

lemma planned_r_mono:
  assumes "case side t of LONG \<Rightarrow> t_price a \<le> t_price b | SHORT \<Rightarrow> t_price b \<le> t_price a"
  shows "planned_r_for t a \<le> planned_r_for t b"
proof -
  define cost where "cost = dmul (conservative_entry t) (estimated_round_trip_cost_rate t)"
  define risk where "risk = dadd (gross_risk (side t) (conservative_entry t) (original_stop t)) cost"
  define net where "net (x::target) = dsub (gross_move (side t) (conservative_entry t) (t_price x)) cost" for x
  have p: "planned_r_for t x = (if net x \<le> 0 \<or> risk \<le> 0 then 0 else dquot (net x) risk)" for x
    by (simp add: planned_r_for_def cost_def risk_def net_def Let_def)
  have "net a \<le> net b"
    unfolding net_def dsub_def using gross_move_mono [OF assms] by (intro rnd28_mono) simp
  moreover have "0 \<le> dquot (net b) risk" if "0 < net b" "0 < risk"
    using that by (simp add: dquot_def dec.nonneg)
  moreover have "dquot (net a) risk \<le> dquot (net b) risk" if "0 < risk"
    using that \<open>net a \<le> net b\<close> by (simp add: dquot_def rnd28_mono divide_right_mono)
  ultimately show ?thesis by (auto simp: p not_le)
qed

lemma sorted_hd_le: "sorted xs \<Longrightarrow> x \<in> set xs \<Longrightarrow> hd xs \<le> x"
  by (cases xs) auto

lemma sorted_rev_le_hd: "sorted (rev xs) \<Longrightarrow> x \<in> set xs \<Longrightarrow> x \<le> hd xs"
  by (cases xs) (auto simp: sorted_append)

lemma terms_targets_Cons:
  assumes "check_signal_terms t = Inr u"
  obtains a b rest where "targets t = a # b # rest"
  using check_signal_terms_Inr [OF assms] by (cases "targets t"; cases "tl (targets t)") auto

lemma terms_first_target:
  assumes "check_signal_terms t = Inr u" "x \<in> set (targets t)"
  shows "case side t of LONG \<Rightarrow> t_price (hd (targets t)) \<le> t_price x
           | SHORT \<Rightarrow> t_price x \<le> t_price (hd (targets t))"
proof -
  have g: "check_side_geometry t = Inr t" using check_signal_terms_Inr [OF assms(1)] by simp
  obtain a b rest where tg: "targets t = a # b # rest" using terms_targets_Cons [OF assms(1)] .
  show ?thesis
  proof (cases "side t")
    case LONG
    with g have "sorted (map t_price (targets t))" by (simp add: check_side_geometry_Inr)
    then show ?thesis
      using sorted_hd_le [of "map t_price (targets t)" "t_price x"] assms(2) LONG tg by fastforce
  next
    case SHORT
    with g have "sorted (rev (map t_price (targets t)))" by (simp add: check_side_geometry_Inr)
    then show ?thesis
      using sorted_rev_le_hd [of "map t_price (targets t)" "t_price x"] assms(2) SHORT tg by fastforce
  qed
qed

text \<open>The transition graph has no path of more than two steps.\<close>

definition transition_path :: "signal_status list \<Rightarrow> bool" where
  "transition_path xs = pairwise_all (\<lambda>a b. assert_transition a b = Inr ()) xs"

lemma assert_transition_Inr: "assert_transition a b = Inr u \<longleftrightarrow> b \<in> transitions a"
  by (simp add: assert_transition_def)

lemma transition_path_length: "transition_path xs \<Longrightarrow> length xs \<le> 3"
proof -
  assume p: "transition_path xs"
  show ?thesis
  proof (rule ccontr)
    assume "\<not> length xs \<le> 3"
    then obtain a b c d ys where "xs = a # b # c # d # ys"
      by (cases xs; cases "tl xs"; cases "tl (tl xs)"; cases "tl (tl (tl xs))") auto
    with p have "b \<in> transitions a" "c \<in> transitions b" "d \<in> transitions c"
      by (simp_all add: transition_path_def assert_transition_Inr)
    then show False by (cases a; cases b; cases c) (auto simp: transitions_def)
  qed
qed

subsection \<open>Properties\<close>

definition sample_terms :: signal_terms where
  "sample_terms = \<lparr>side = LONG, entry_low = 99, entry_high = 100, original_stop = 98,
     targets = [\<lparr>t_ordinal = 1, t_price = 110\<rparr>, \<lparr>t_ordinal = 2, t_price = 120\<rparr>],
     created_at = 60000000, data_timestamp = 0, expires_at = 600000000,
     invalidation_condition = ''stop'', expiration_condition = ''time'',
     recommended_risk_percent = 1 / 2, estimated_round_trip_cost_rate = 1 / 100,
     minimum_planned_rr = 2, symbol = ''BTCUSDT''\<rparr>"

text \<open>
  C12: validated terms are safe.  Terms that pass construction have the stop and every target
  strictly on opposite sides of a positive entry zone, and not only the first but every
  target plans at least the required R multiple after costs, which is at least 2.
\<close>

theorem validated_terms_safe:
  assumes "check_signal_terms t = Inr u"
  shows "u = t
     \<and> (case side t of
           LONG \<Rightarrow> 0 < original_stop t \<and> original_stop t < entry_low t \<and> entry_low t \<le> entry_high t
                    \<and> (\<forall>x \<in> set (targets t). entry_high t < t_price x)
         | SHORT \<Rightarrow> 0 < entry_low t \<and> entry_low t \<le> entry_high t \<and> entry_high t < original_stop t
                    \<and> (\<forall>x \<in> set (targets t). t_price x < entry_low t))
     \<and> (\<forall>x \<in> set (targets t). 2 \<le> minimum_planned_rr t \<and> minimum_planned_rr t \<le> planned_r_for t x)"
proof -
  note v = check_signal_terms_Inr [OF assms]
  from v have g: "check_side_geometry t = Inr t" by simp
  have "case side t of
           LONG \<Rightarrow> 0 < original_stop t \<and> original_stop t < entry_low t \<and> entry_low t \<le> entry_high t
                    \<and> (\<forall>x \<in> set (targets t). entry_high t < t_price x)
         | SHORT \<Rightarrow> 0 < entry_low t \<and> entry_low t \<le> entry_high t \<and> entry_high t < original_stop t
                    \<and> (\<forall>x \<in> set (targets t). t_price x < entry_low t)"
    using v g by (cases "side t") (simp_all add: check_side_geometry_Inr)
  moreover have "\<forall>x \<in> set (targets t). 2 \<le> minimum_planned_rr t \<and> minimum_planned_rr t \<le> planned_r_for t x"
    using v planned_r_mono [OF terms_first_target [OF assms]] by (meson order_trans)
  ultimately show ?thesis using v by blast
qed

lemma sample_terms_ok: "check_signal_terms sample_terms = Inr sample_terms"
proof -
  have g: "check_side_geometry sample_terms = Inr sample_terms"
    by (simp add: check_side_geometry_Inr sample_terms_def)
  have r: "planned_r_for sample_terms (hd (targets sample_terms)) = 3"
    by (simp add: planned_r_for_def sample_terms_def conservative_entry_def gross_move_def
        gross_risk_def dec_eval_ops)
  have b: "\<not> blank ''stop''" "\<not> blank ''time''"
    by (simp_all add: blank_def is_space_def)
  show ?thesis
    unfolding check_signal_terms_def g r using b by (simp add: sample_terms_def upt_rec)
qed

theorem validated_terms_safe_witness:
  "original_stop sample_terms < entry_low sample_terms
   \<and> 2 \<le> planned_r_for sample_terms \<lparr>t_ordinal = 2, t_price = 120\<rparr>"
  using validated_terms_safe [OF sample_terms_ok] by (auto simp: sample_terms_def)

text \<open>
  C13: signal identifiers round trip.  Formatting a calendar date of years 1000 to 9999 and a
  positive sequence number gives an identifier that validation accepts unchanged and from
  which the sequence number is read back; other sequence numbers are refused.
\<close>

theorem signal_id_roundtrip:
  assumes "1000 \<le> y" "y \<le> 9999" "valid_date y m d"
  shows "if 1 \<le> n
         then \<exists>v. format_signal_id (y, m, d) n = Inr v \<and> validate_signal_id v = Inr v
             \<and> id_sequence v = Some (nat n)
         else format_signal_id (y, m, d) n = Inl (DomainValidationError ''Signal sequence must be positive'')"
proof (cases "1 \<le> n")
  case True
  have "1 \<le> y" using assms(1) by simp
  from True show ?thesis
    using format_signal_id_valid [OF \<open>1 \<le> y\<close> assms(2,3) True] format_signal_id_sequence(2) by (metis (no_types))
qed (simp add: format_signal_id_def)

theorem signal_id_roundtrip_witness:
  "(\<exists>v. format_signal_id (2024, 2, 29) 7 = Inr v \<and> validate_signal_id v = Inr v \<and> id_sequence v = Some 7)
   \<and> format_signal_id (2024, 2, 29) 0 = Inl (DomainValidationError ''Signal sequence must be positive'')"
proof -
  have v: "valid_date 2024 2 29" by (simp add: valid_date_def days_in_month_table leap_def)
  show ?thesis using signal_id_roundtrip [of 2024 2 29 7] signal_id_roundtrip [of 2024 2 29 0] v by simp
qed

text \<open>
  C14: the transition table and the event table agree, and the machine stops.  A transition
  has an event exactly when the table allows it (the event lookup never misses a key),
  and no run of the machine visits more than three states.
\<close>

theorem state_machine_events:
  "(transition_event a b = Inr e \<longleftrightarrow> b \<in> transitions a \<and> transition_events (a, b) = Some e)
   \<and> ((\<exists>e. transition_event a b = Inr e) \<longleftrightarrow> b \<in> transitions a)
   \<and> (transition_path xs \<longrightarrow> length xs \<le> 3)"
proof -
  have "b \<in> transitions a \<longleftrightarrow> transition_events (a, b) \<noteq> None"
    by (cases a; cases b) (auto simp: transitions_def)
  then show ?thesis
    by (auto simp: transition_event_def bind_result_eq_Inr assert_transition_Inr
        transition_path_length split: option.splits)
qed

theorem state_machine_events_witness:
  "transition_event PENDING ACTIVE = Inr Ev_ENTRY_ACTIVATED \<and> transition_path [PENDING, ACTIVE, CLOSED]
   \<and> length [PENDING, ACTIVE, CLOSED] \<le> 3"
proof -
  have p: "transition_path [PENDING, ACTIVE, CLOSED]"
    by (simp add: transition_path_def assert_transition_def transitions_def)
  show ?thesis
    using p state_machine_events [of PENDING ACTIVE Ev_ENTRY_ACTIVATED "[PENDING, ACTIVE, CLOSED]"]
    by (simp add: transitions_def)
qed

end
