(* ===== verification/MarketData.thy ===== *)
theory MarketData
  imports Domain
begin

section \<open>Market data: intervals, candles, series, snapshots and their checks\<close>

text \<open>
  \<^verbatim>\<open>market_data/enums.py\<close>, \<^verbatim>\<open>market_data/models.py\<close> and \<^verbatim>\<open>market_data/validation.py\<close>.  The fields
  of a record hold the values after \<^verbatim>\<open>utc_datetime\<close> and \<^verbatim>\<open>api_decimal\<close>, which are modelled on
  their own; the rest of \<^verbatim>\<open>__post_init__\<close> is \<open>check_...\<close>.  A \<^verbatim>\<open>CandleSeries\<close> is its tuple of
  candles.

  The lemmas show that the eight intervals partition the time line (the next open time is
  the least aligned instant after the present one, months included), that a validated
  series is gap-free and strictly increasing, that cutting it at an instant keeps a prefix
  without a candle still open, and the bounds of the order-book measures.
\<close>

subsection \<open>Venues and intervals\<close>

datatype market_venue = SPOT | FUTURES

datatype market_interval =
    ONE_MINUTE | FIVE_MINUTES | FIFTEEN_MINUTES | ONE_HOUR | FOUR_HOURS | ONE_DAY | ONE_WEEK | ONE_MONTH

datatype derivatives_period =
    P_FIVE_MINUTES | P_FIFTEEN_MINUTES | P_THIRTY_MINUTES | P_ONE_HOUR | P_TWO_HOURS | P_FOUR_HOURS
  | P_SIX_HOURS | P_TWELVE_HOURS | P_ONE_DAY

fun venue_value :: "market_venue \<Rightarrow> string" where
  "venue_value SPOT = ''SPOT''"
| "venue_value FUTURES = ''FUTURES''"

fun interval_value :: "market_interval \<Rightarrow> string" where
  "interval_value ONE_MINUTE = ''1m''"
| "interval_value FIVE_MINUTES = ''5m''"
| "interval_value FIFTEEN_MINUTES = ''15m''"
| "interval_value ONE_HOUR = ''1h''"
| "interval_value FOUR_HOURS = ''4h''"
| "interval_value ONE_DAY = ''1d''"
| "interval_value ONE_WEEK = ''1w''"
| "interval_value ONE_MONTH = ''1M''"

fun fixed_duration :: "market_interval \<Rightarrow> duration option" where
  "fixed_duration ONE_MINUTE = Some usec_minute"
| "fixed_duration FIVE_MINUTES = Some (5 * usec_minute)"
| "fixed_duration FIFTEEN_MINUTES = Some (15 * usec_minute)"
| "fixed_duration ONE_HOUR = Some usec_hour"
| "fixed_duration FOUR_HOURS = Some (4 * usec_hour)"
| "fixed_duration ONE_DAY = Some usec_day"
| "fixed_duration ONE_WEEK = Some (7 * usec_day)"
| "fixed_duration ONE_MONTH = None"

definition is_open_time_aligned :: "market_interval \<Rightarrow> instant \<Rightarrow> bool" where
  "is_open_time_aligned iv t =
     (if dt_second t \<noteq> 0 \<or> dt_microsecond t \<noteq> 0 then False
      else case iv of
        ONE_MINUTE \<Rightarrow> True
      | FIVE_MINUTES \<Rightarrow> dt_minute t mod 5 = 0
      | FIFTEEN_MINUTES \<Rightarrow> dt_minute t mod 15 = 0
      | ONE_HOUR \<Rightarrow> dt_minute t = 0
      | FOUR_HOURS \<Rightarrow> dt_minute t = 0 \<and> dt_hour t mod 4 = 0
      | ONE_DAY \<Rightarrow> dt_minute t = 0 \<and> dt_hour t = 0
      | ONE_WEEK \<Rightarrow> dt_minute t = 0 \<and> dt_hour t = 0 \<and> dt_weekday t = 0
      | ONE_MONTH \<Rightarrow> dt_minute t = 0 \<and> dt_hour t = 0 \<and> dt_dom t = 1)"

text \<open>
  An aligned month boundary has only its month and year replaced, so its day is 1 and its
  time of day 0.
\<close>

definition next_open_time :: "market_interval \<Rightarrow> instant \<Rightarrow> instant result" where
  "next_open_time iv t =
     (if \<not> is_open_time_aligned iv t
      then Inl (MarketDataValidationError (interval_value iv @ '' candle open time is not aligned to a UTC boundary''))
      else case fixed_duration iv of
        None \<Rightarrow> Inr (next_month_start (dt_year t) (dt_month t))
      | Some d \<Rightarrow> Inr (t + d))"

definition expected_close_time :: "market_interval \<Rightarrow> instant \<Rightarrow> instant result" where
  "expected_close_time iv t = bind_result (next_open_time iv t) (\<lambda>u. Inr (u - usec_milli))"

subsubsection \<open>The aligned instants\<close>

text \<open>The aligned instants of a fixed interval are an arithmetic progression; weeks start on Mondays.\<close>

definition interval_anchor :: "market_interval \<Rightarrow> instant" where
  "interval_anchor iv = (if iv = ONE_WEEK then 4 * usec_day else 0)"

lemma whole_minute_iff: "dt_second t = 0 \<and> dt_microsecond t = 0 \<longleftrightarrow> t mod usec_minute = 0"
proof -
  have "t mod usec_minute = dt_second t * usec_second + dt_microsecond t"
    using mod_split [of 60 usec_second t] by (simp add: dt_fields usec_defs)
  moreover have "0 \<le> dt_second t * usec_second" using dt_field_ranges [of t] by (simp add: usec_defs)
  moreover have "dt_second t * usec_second = 0 \<longleftrightarrow> dt_second t = 0" by (simp add: usec_defs)
  ultimately show ?thesis using dt_field_ranges(7) [of t] by linarith
qed

lemma minute_fields:
  "dt_minute (usec_minute * k) = k mod 60" "dt_hour (usec_minute * k) = k div 60 mod 24"
  "dt_day (usec_minute * k) = k div 1440"
proof -
  have h: "usec_hour = usec_minute * 60" and d: "usec_day = usec_minute * 1440" by (simp_all add: usec_defs)
  have p: "usec_minute \<noteq> 0" by (simp add: usec_defs)
  show "dt_minute (usec_minute * k) = k mod 60"
    unfolding dt_minute_def h mod_mult_mult1 using p by simp
  show "dt_day (usec_minute * k) = k div 1440"
    unfolding dt_day_def d using p by simp
  have "dt_hour (usec_minute * k) = k mod (60 * 24) div 60"
    unfolding dt_hour_def h d mod_mult_mult1 using p by simp
  also have "\<dots> = k div 60 mod 24" by (subst zmod_zmult2_eq) simp_all
  finally show "dt_hour (usec_minute * k) = k div 60 mod 24" .
qed

lemma aligned_ONE_MINUTE: "is_open_time_aligned ONE_MINUTE t \<longleftrightarrow> t mod usec_minute = 0"
  using whole_minute_iff [of t] by (auto simp: is_open_time_aligned_def)

lemma mod_nested: "0 < a \<Longrightarrow> 0 < b \<Longrightarrow> (k::int) mod a = 0 \<and> k div a mod b = 0 \<longleftrightarrow> k mod (a * b) = 0"
  using zmod_zmult2_eq [of b k a] by (auto simp: add_nonneg_eq_0_iff)

lemma aligned_multiple:
  assumes "fixed_duration iv = Some d" "iv \<noteq> ONE_WEEK"
  shows "is_open_time_aligned iv t \<longleftrightarrow> t mod d = 0"
proof (cases "t mod usec_minute = 0")
  case False
  have "usec_minute dvd d" using assms by (cases iv) (auto simp: usec_defs)
  then have "t mod d \<noteq> 0" using False by (metis dvd_eq_mod_eq_0 dvd_trans)
  then show ?thesis using False whole_minute_iff [of t] by (auto simp: is_open_time_aligned_def)
next
  case True
  then obtain k where k: "t = usec_minute * k" by (metis dvdE dvd_eq_mod_eq_0)
  have a: "is_open_time_aligned iv t \<longleftrightarrow>
      (case iv of ONE_MINUTE \<Rightarrow> True | FIVE_MINUTES \<Rightarrow> k mod 60 mod 5 = 0
       | FIFTEEN_MINUTES \<Rightarrow> k mod 60 mod 15 = 0 | ONE_HOUR \<Rightarrow> k mod 60 = 0
       | FOUR_HOURS \<Rightarrow> k mod 60 = 0 \<and> k div 60 mod 24 mod 4 = 0
       | ONE_DAY \<Rightarrow> k mod 60 = 0 \<and> k div 60 mod 24 = 0 | _ \<Rightarrow> False)"
    using whole_minute_iff [of t] True
      assms by (cases iv) (auto simp: is_open_time_aligned_def k minute_fields)
  obtain n where n: "d = usec_minute * n" "0 < n"
    "n = (case iv of ONE_MINUTE \<Rightarrow> 1 | FIVE_MINUTES \<Rightarrow> 5 | FIFTEEN_MINUTES \<Rightarrow> 15 | ONE_HOUR \<Rightarrow> 60
          | FOUR_HOURS \<Rightarrow> 60 * 4 | _ \<Rightarrow> 60 * 24)"
    using assms by (cases iv) (auto simp: usec_defs)
  have t: "t mod d = 0 \<longleftrightarrow> k mod n = 0"
    unfolding k n(1) mod_mult_mult1 by (simp add: usec_defs)
  have m: "k mod 60 mod 5 = k mod 5" "k mod 60 mod 15 = k mod 15"
    "k mod 60 = 0 \<and> k div 60 mod 24 mod 4 = 0 \<longleftrightarrow> k mod (60 * 4) = 0"
    "k mod 60 = 0 \<and> k div 60 mod 24 = 0 \<longleftrightarrow> k mod (60 * 24) = 0"
    using mod_nested [of 60 4 k] mod_nested [of 60 24 k] by (simp_all add: mod_mod_cancel)
  show ?thesis
    using assms unfolding a t n(3)
    by (cases iv) (simp_all only: m market_interval.case mod_by_1 fixed_duration.simps option.distinct simp_thms)
qed

lemma aligned_ONE_WEEK: "is_open_time_aligned ONE_WEEK t \<longleftrightarrow> (t - 4 * usec_day) mod (7 * usec_day) = 0"
proof -
  have w: "is_open_time_aligned ONE_WEEK t \<longleftrightarrow> is_open_time_aligned ONE_DAY t \<and> dt_weekday t = 0"
    by (simp add: is_open_time_aligned_def)
  have "t mod usec_day = 0 \<and> (t div usec_day + 3) mod 7 = 0 \<longleftrightarrow> (t - 4 * usec_day) mod (7 * usec_day) = 0"
    (is "?l \<longleftrightarrow> ?r")
  proof -
    have "(t - 4 * usec_day) mod usec_day = t mod usec_day" 
      using mod_mult_self1 [of t "- 4" usec_day] by (simp add: algebra_simps)
    moreover have "(t - 4 * usec_day) div usec_day = t div usec_day - 4"
      using div_mult_self1 [of usec_day t "- 4"] by (simp add: usec_defs)
    moreover have "(x + 3) mod 7 = 0 \<longleftrightarrow> (x - 4) mod 7 = 0" for x :: int by presburger
    moreover have "?r \<longleftrightarrow> (t - 4 * usec_day) mod usec_day = 0 \<and> (t - 4 * usec_day) div usec_day mod 7 = 0"
      using mod_nested [of usec_day 7 "t - 4 * usec_day"] by (simp add: usec_defs mult.commute)
    ultimately show ?thesis by metis
  qed
  then show ?thesis
    using aligned_multiple [of ONE_DAY usec_day t] unfolding w by (simp add: dt_weekday_def dt_day_def)
qed

lemma aligned_fixed:
  "fixed_duration iv = Some d \<Longrightarrow> is_open_time_aligned iv t \<longleftrightarrow> (t - interval_anchor iv) mod d = 0"
  using aligned_multiple [of iv d t] aligned_ONE_WEEK [of t]
  by (cases "iv = ONE_WEEK") (auto simp: interval_anchor_def)

lemma fixed_duration_pos: "fixed_duration iv = Some d \<Longrightarrow> 0 < d"
  by (cases iv) (auto simp: usec_defs)

lemma aligned_ONE_MONTH:
  "is_open_time_aligned ONE_MONTH t \<longleftrightarrow> t = month_start (dt_year t) (dt_month t)"
proof
  assume "is_open_time_aligned ONE_MONTH t"
  then have z: "dt_second t = 0" "dt_microsecond t = 0" "dt_minute t = 0" "dt_hour t = 0" "dt_dom t = 1"
    by (auto simp: is_open_time_aligned_def split: if_splits)
  then show "t = month_start (dt_year t) (dt_month t)"
    using combine_fields [of t] dt_date_days [of t] by (simp add: month_start_def)
next
  assume t: "t = month_start (dt_year t) (dt_month t)"
  have v: "valid_date (dt_year t) (dt_month t) 1"
    using dt_date_valid [of t] by (intro valid_date_first) (auto simp: valid_date_def)
  have "dt_day t = days_of_date (dt_year t) (dt_month t) 1"
    by (subst t) (simp add: month_start_def combine_day)
  then have "dt_dom t = 1" using dt_date_of_days(3) [OF v] by simp
  moreover have "dt_hour t = 0" "dt_minute t = 0" "dt_second t = 0" "dt_microsecond t = 0"
    by (subst t, simp add: month_start_def combine_day)+
  ultimately show "is_open_time_aligned ONE_MONTH t" by (simp add: is_open_time_aligned_def)
qed

lemma month_start_aligned:
  assumes "1 \<le> m" "m \<le> 12"
  shows "is_open_time_aligned ONE_MONTH (month_start y m)"
    "dt_year (month_start y m) = y" "dt_month (month_start y m) = m"
proof -
  have d: "dt_day (month_start y m) = days_of_date y m 1" by (simp add: month_start_def combine_day)
  show "dt_year (month_start y m) = y" "dt_month (month_start y m) = m"
    using dt_date_of_days [OF valid_date_first [OF assms] d] by auto
  then show "is_open_time_aligned ONE_MONTH (month_start y m)" by (simp add: aligned_ONE_MONTH)
qed

lemma dt_month_range: "1 \<le> dt_month t" "dt_month t \<le> 12"
  using dt_date_valid [of t] by (auto simp: valid_date_def)

lemma next_month_start_aligned:
  assumes "1 \<le> m" "m \<le> 12"
  shows "is_open_time_aligned ONE_MONTH (next_month_start y m)"
  using assms month_start_aligned(1) [of "m + 1" y] month_start_aligned(1) [of 1 "y + 1"]
  by (simp add: next_month_start_def)

lemma month_interior:
  assumes m: "1 \<le> m" "m \<le> 12" and v: "month_start y m < v" "v < next_month_start y m"
  shows "\<not> is_open_time_aligned ONE_MONTH v"
proof
  assume a: "is_open_time_aligned ONE_MONTH v"
  then have z: "dt_second v = 0" "dt_microsecond v = 0" "dt_minute v = 0" "dt_hour v = 0" "dt_dom v = 1"
    by (auto simp: is_open_time_aligned_def split: if_splits)
  have vd: "v = dt_day v * usec_day" using combine_fields [of v] z by (simp add: combine_def)
  define k where "k = dt_day v - days_of_date y m 1"
  have s: "month_start y m = days_of_date y m 1 * usec_day" by (simp add: month_start_def combine_def)
  have "v = month_start y m + k * usec_day" using vd unfolding s k_def by (simp add: algebra_simps)
  then have k: "0 < k * usec_day" "k * usec_day < days_in_month y m * usec_day"
    using v unfolding next_month_days [OF m] by linarith+
  then have k: "0 < k" "k < days_in_month y m" by (auto simp: usec_defs zero_less_mult_iff)
  then have "valid_date y m (k + 1)" using m by (simp add: valid_date_def)
  moreover have "dt_day v = days_of_date y m (k + 1)" by (simp add: k_def days_of_date_def)
  ultimately have "dt_dom v = k + 1" by (rule dt_date_of_days)
  with z(5) k show False by simp
qed

text \<open>
  C22: the intervals partition time.  The next open time of an aligned instant is the least
  aligned instant after it, for all eight intervals, months of every length included.
\<close>

theorem next_open_time_least:
  assumes "next_open_time iv t = Inr u"
  shows "is_open_time_aligned iv t \<and> is_open_time_aligned iv u \<and> t < u
         \<and> (\<forall>v. t < v \<and> v < u \<longrightarrow> \<not> is_open_time_aligned iv v)"
proof (cases "fixed_duration iv")
  case None
  then have iv: "iv = ONE_MONTH" by (cases iv) auto
  have a: "is_open_time_aligned iv t" and u: "u = next_month_start (dt_year t) (dt_month t)"
    using assms None by (auto simp: next_open_time_def split: if_splits)
  have t: "t = month_start (dt_year t) (dt_month t)" using a iv aligned_ONE_MONTH by simp
  have "0 < days_in_month (dt_year t) (dt_month t) * usec_day"
    using valid_date_first [OF dt_month_range(1) [of t] dt_month_range(2) [of t], of "dt_year t"] by (simp add: valid_date_def usec_defs)
  then have "t < u" unfolding u next_month_days [OF dt_month_range] using t by linarith
  moreover have "is_open_time_aligned iv u"
    unfolding iv u by (rule next_month_start_aligned [OF dt_month_range])
  moreover have "\<not> is_open_time_aligned iv v" if "t < v" "v < u" for v
    using month_interior [OF dt_month_range] that t unfolding u iv by metis
  ultimately show ?thesis using a by blast
next
  case (Some d)
  have a: "is_open_time_aligned iv t" and u: "u = t + d"
    using assms Some by (auto simp: next_open_time_def split: if_splits)
  have d: "0 < d" by (rule fixed_duration_pos [OF Some])
  have m: "(t - interval_anchor iv) mod d = 0" using a aligned_fixed [OF Some] by simp
  have "(t + d - interval_anchor iv) mod d = 0"
    using m mod_add_self2 [of "t - interval_anchor iv" d] by (simp add: algebra_simps)
  then have "is_open_time_aligned iv u" unfolding u using aligned_fixed [OF Some] by simp
  moreover have "\<not> is_open_time_aligned iv v" if "t < v" "v < u" for v
  proof
    assume "is_open_time_aligned iv v"
    then have "(v - interval_anchor iv) mod d = 0" using aligned_fixed [OF Some] by simp
    with m have "d dvd v - interval_anchor iv" "d dvd t - interval_anchor iv" by auto
    then have "d dvd (v - interval_anchor iv) - (t - interval_anchor iv)" by (rule dvd_diff)
    then have "d dvd v - t" by simp
    then show False using that zdvd_not_zless [of "v - t" d] unfolding u by simp
  qed
  ultimately show ?thesis using a d u by simp
qed

theorem next_open_time_least_witness:
  "next_open_time ONE_MONTH (month_start 2024 12) = Inr (month_start 2025 1)
   \<and> \<not> is_open_time_aligned ONE_MONTH (month_start 2024 12 + 1)"
proof -
  have n: "next_open_time ONE_MONTH (month_start 2024 12) = Inr (month_start 2025 1)"
    using month_start_aligned [of 12 2024] by (simp add: next_open_time_def next_month_start_def)
  have "month_start 2024 12 + 1 < month_start 2025 1"
    using next_month_days [of 12 2024] by (simp add: next_month_start_def days_in_month_table usec_defs)
  then show ?thesis using next_open_time_least [OF n] n by simp
qed

subsection \<open>Conversions of upstream values\<close>

text \<open>
  The JSON scalars the adapters pass to \<^verbatim>\<open>api_decimal\<close> and \<^verbatim>\<open>api_integer\<close>; the text grammar
  of \<^verbatim>\<open>Decimal\<close> is the parameter \<open>parse\<close> as for \<^verbatim>\<open>as_decimal\<close>.
\<close>

datatype api_value = Api_none | Api_bool bool | Api_number py_number

fun api_decimal :: "(string \<Rightarrow> decimal_value option) \<Rightarrow> api_value \<Rightarrow> string \<Rightarrow> decimal result" where
  "api_decimal parse (Api_bool _) name = Inl (MarketDataValidationError (name @ '' must be a decimal string or integer''))"
| "api_decimal parse (Api_number Py_float) name = Inl (MarketDataValidationError (name @ '' must be a decimal string or integer''))"
| "api_decimal parse Api_none name = Inl (MarketDataValidationError (name @ '' is not a valid decimal''))"
| "api_decimal parse (Api_number (Py_int n)) name = Inr (of_int n)"
| "api_decimal parse (Api_number (Py_str text)) name =
     (case parse text of
        None \<Rightarrow> Inl (MarketDataValidationError (name @ '' is not a valid decimal''))
      | Some (Finite x) \<Rightarrow> Inr x
      | Some Non_finite \<Rightarrow> Inl (MarketDataValidationError (name @ '' must be finite'')))"
| "api_decimal parse (Api_number (Py_decimal (Finite x))) name = Inr x"
| "api_decimal parse (Api_number (Py_decimal Non_finite)) name = Inl (MarketDataValidationError (name @ '' must be finite''))"

text \<open>The bound is printed into the message; \<open>show_int\<close> writes it.\<close>

definition show_nat :: "nat \<Rightarrow> string" where
  "show_nat n = fixed_digits (ndigits n) n"

definition show_int :: "int \<Rightarrow> string" where
  "show_int n = (if n < 0 then ''-'' @ show_nat (nat (- n)) else show_nat (nat n))"

definition api_integer :: "api_value \<Rightarrow> string \<Rightarrow> int \<Rightarrow> int result" where
  "api_integer value name minimum =
     (case value of
        Api_number (Py_int n) \<Rightarrow>
          if n < minimum then Inl (MarketDataValidationError (name @ '' must be an integer >= '' @ show_int minimum))
          else Inr n
      | _ \<Rightarrow> Inl (MarketDataValidationError (name @ '' must be an integer >= '' @ show_int minimum)))"

text \<open>The last instant of \<^verbatim>\<open>datetime\<close>, 9999-12-31T23:59:59.999999Z.\<close>

definition max_instant :: instant where
  "max_instant = month_start 10000 1 - 1"

definition utc_from_milliseconds :: "api_value \<Rightarrow> string \<Rightarrow> instant result" where
  "utc_from_milliseconds value name =
     bind_result (api_integer value name 0) (\<lambda>ms.
       if max_instant < ms * usec_milli
       then Inl (MarketDataValidationError (name @ '' is outside the supported time range''))
       else Inr (ms * usec_milli))"

fun utc_datetime :: "py_datetime \<Rightarrow> string \<Rightarrow> instant result" where
  "utc_datetime (Naive _) name = Inl (MarketDataValidationError (name @ '' must be timezone-aware''))"
| "utc_datetime (Aware local offset) name = Inr (local - offset)"

definition validate_btc_symbol :: "string \<Rightarrow> string result" where
  "validate_btc_symbol s =
     (if s \<noteq> ''BTCUSDT'' then Inl (MarketDataValidationError ''Version 1 market data accepts BTCUSDT only'') else Inr s)"

subsection \<open>Candles\<close>

record candle =
  c_venue :: market_venue
  c_interval :: market_interval
  open_time :: instant
  close_time :: instant
  c_open :: decimal
  c_high :: decimal
  c_low :: decimal
  c_close :: decimal
  c_volume :: decimal
  quote_volume :: decimal
  trade_count :: int
  taker_buy_base_volume :: decimal
  taker_buy_quote_volume :: decimal
  c_symbol :: string

definition check_candle :: "candle \<Rightarrow> candle result" where
  "check_candle c =
     bind_result (validate_btc_symbol (c_symbol c)) (\<lambda>_.
     bind_result (api_integer (Api_number (Py_int (trade_count c))) ''trade_count'' 0) (\<lambda>_.
       if \<not> is_open_time_aligned (c_interval c) (open_time c)
       then Inl (MarketDataValidationError ''Candle open time is not aligned to its UTC interval'')
       else bind_result (expected_close_time (c_interval c) (open_time c)) (\<lambda>close.
         if close_time c \<noteq> close
         then Inl (MarketDataValidationError ''Candle close time does not match its interval'')
         else if min (min (c_open c) (c_high c)) (min (c_low c) (c_close c)) \<le> 0
         then Inl (MarketDataValidationError ''Candle prices must be positive'')
         else if c_high c < max (c_open c) (c_close c) \<or> min (c_open c) (c_close c) < c_low c
         then Inl (MarketDataValidationError ''Candle OHLC values are contradictory'')
         else if c_high c < c_low c
         then Inl (MarketDataValidationError ''Candle high cannot be below candle low'')
         else if min (min (c_volume c) (quote_volume c))
                   (min (taker_buy_base_volume c) (taker_buy_quote_volume c)) < 0
         then Inl (MarketDataValidationError ''Candle volumes cannot be negative'')
         else if c_volume c < taker_buy_base_volume c
         then Inl (MarketDataValidationError ''Taker-buy base volume cannot exceed total volume'')
         else if quote_volume c < taker_buy_quote_volume c
         then Inl (MarketDataValidationError ''Taker-buy quote volume cannot exceed total quote volume'')
         else Inr c)))"

definition is_closed_at :: "candle \<Rightarrow> instant \<Rightarrow> bool" where
  "is_closed_at c as_of \<longleftrightarrow> close_time c < as_of"

text \<open>What \<^verbatim>\<open>Candle\<close> promises: its invariant.\<close>

definition candle_ok :: "candle \<Rightarrow> bool" where
  "candle_ok c \<longleftrightarrow> check_candle c = Inr c"

lemma candle_okD:
  assumes "candle_ok c"
  shows "is_open_time_aligned (c_interval c) (open_time c)"
    "next_open_time (c_interval c) (open_time c) = Inr (close_time c + usec_milli)"
    "0 < c_low c" "c_low c \<le> c_open c" "c_open c \<le> c_high c" "c_low c \<le> c_close c" "c_close c \<le> c_high c"
    "0 < c_open c" "0 < c_high c" "0 < c_close c"
    "0 \<le> taker_buy_base_volume c" "taker_buy_base_volume c \<le> c_volume c"
    "0 \<le> taker_buy_quote_volume c" "taker_buy_quote_volume c \<le> quote_volume c"
    "c_symbol c = ''BTCUSDT''" "0 \<le> trade_count c"
  using assms
  by (auto simp: candle_ok_def check_candle_def expected_close_time_def bind_result_eq_Inr
      validate_btc_symbol_def api_integer_def split: if_splits)

lemma usec_milli_pos [simp]: "0 < usec_milli"
  by (simp add: usec_defs)

lemma interval_length: "next_open_time iv t = Inr u \<Longrightarrow> t + usec_minute \<le> u"
proof (cases "fixed_duration iv")
  case None
  assume n: "next_open_time iv t = Inr u"
  have iv: "iv = ONE_MONTH" using None by (cases iv) auto
  have a: "is_open_time_aligned iv t" and u: "u = next_month_start (dt_year t) (dt_month t)"
    using n None by (auto simp: next_open_time_def split: if_splits)
  have t: "t = month_start (dt_year t) (dt_month t)" using a iv aligned_ONE_MONTH by simp
  have "1 \<le> days_in_month (dt_year t) (dt_month t)"
    using valid_date_first [OF dt_month_range(1) [of t] dt_month_range(2) [of t], of "dt_year t"]
    by (simp add: valid_date_def)
  then have "usec_minute \<le> days_in_month (dt_year t) (dt_month t) * usec_day" by (simp add: usec_defs)
  then show ?thesis unfolding u next_month_days [OF dt_month_range] using t by linarith
next
  case (Some d)
  assume n: "next_open_time iv t = Inr u"
  have "usec_minute \<le> d" using Some by (cases iv) (auto simp: usec_defs)
  then show ?thesis using n Some by (auto simp: next_open_time_def split: if_splits)
qed

lemma candle_times: "candle_ok c \<Longrightarrow> open_time c < close_time c"
  using interval_length [OF candle_okD(2)] by (fastforce simp: usec_defs)

lemma candle_minute:
  assumes "candle_ok c" "c_interval c = ONE_MINUTE"
  shows "close_time c = open_time c + usec_minute - usec_milli" "open_time c mod usec_minute = 0"
  using candle_okD(1,2) [OF assms(1)] assms(2)
  by (auto simp: next_open_time_def aligned_ONE_MINUTE split: if_splits)

subsection \<open>Candle series\<close>

type_synonym candle_series = "candle list"

text \<open>The loop of \<^verbatim>\<open>CandleSeries.__post_init__\<close>, with its \<^verbatim>\<open>seen\<close> set and \<^verbatim>\<open>previous\<close> candle.\<close>

fun series_loop :: "candle \<Rightarrow> instant list \<Rightarrow> candle option \<Rightarrow> candle list \<Rightarrow> unit result" where
  "series_loop first seen previous [] = Inr ()"
| "series_loop first seen previous (c # cs) =
     (if c_symbol c \<noteq> c_symbol first \<or> c_venue c \<noteq> c_venue first \<or> c_interval c \<noteq> c_interval first
      then Inl (MarketDataValidationError ''A candle series cannot mix symbols, venues, or intervals'')
      else if open_time c \<in> set seen
      then Inl (MarketDataValidationError ''Duplicate candle open time detected'')
      else case previous of
        None \<Rightarrow> series_loop first (open_time c # seen) (Some c) cs
      | Some p \<Rightarrow>
          if open_time c \<noteq> close_time p + usec_milli
          then Inl (MarketDataValidationError ''Missing or unordered candle detected'')
          else series_loop first (open_time c # seen) (Some c) cs)"

definition check_series :: "candle list \<Rightarrow> candle_series result" where
  "check_series cs =
     (case cs of
        [] \<Rightarrow> Inl (MarketDataValidationError ''A candle series cannot be empty'')
      | first # _ \<Rightarrow> bind_result (series_loop first [] None cs) (\<lambda>_. Inr cs))"

definition series_venue :: "candle_series \<Rightarrow> market_venue" where "series_venue s = c_venue (hd s)"
definition series_interval :: "candle_series \<Rightarrow> market_interval" where "series_interval s = c_interval (hd s)"
definition latest :: "candle_series \<Rightarrow> candle" where "latest s = last s"

definition closed_at :: "candle_series \<Rightarrow> instant \<Rightarrow> candle_series result" where
  "closed_at s as_of =
     (let closed = filter (\<lambda>c. is_closed_at c as_of) s
      in if closed = [] then Inl (MarketDataValidationError ''The upstream series contains no closed candle'')
         else check_series closed)"

text \<open>
  The contract of a series: candles of one market and interval, each opening one
  millisecond after the previous one closes.
\<close>

definition same_market :: "candle \<Rightarrow> candle \<Rightarrow> bool" where
  "same_market a b \<longleftrightarrow> c_symbol a = c_symbol b \<and> c_venue a = c_venue b \<and> c_interval a = c_interval b"

definition follows :: "candle \<Rightarrow> candle \<Rightarrow> bool" where
  "follows a b \<longleftrightarrow> same_market b a \<and> open_time b = close_time a + usec_milli"

definition series_ok :: "candle_series \<Rightarrow> bool" where
  "series_ok s \<longleftrightarrow> s \<noteq> [] \<and> list_all candle_ok s \<and> pairwise_all follows s"

lemma same_market_sym: "same_market a b \<Longrightarrow> same_market b a"
  and same_market_trans: "same_market a b \<Longrightarrow> same_market b c \<Longrightarrow> same_market a c"
  and same_market_refl [simp]: "same_market a a"
  by (simp_all add: same_market_def)

lemma follows_open_less: "candle_ok a \<Longrightarrow> follows a b \<Longrightarrow> open_time a < open_time b"
  using candle_times [of a] by (auto simp: follows_def usec_defs)

lemma series_open_sorted:
  "list_all candle_ok s \<Longrightarrow> pairwise_all follows s \<Longrightarrow> sorted_wrt (\<lambda>a b. close_time a < open_time b) s"
proof (induction s)
  case (Cons a s)
  have IH: "sorted_wrt (\<lambda>a b. close_time a < open_time b) s"
    using Cons by (auto simp: pairwise_all_Cons)
  have "close_time a < open_time c" if c: "c \<in> set s" for c
  proof (cases s)
    case (Cons b cs)
    have "follows a b" "candle_ok b" using Cons.prems Cons by auto
    then have "close_time a < open_time b" "open_time b < close_time b"
      using candle_times [of b] by (simp_all add: follows_def usec_defs)
    then show ?thesis using IH c Cons by fastforce
  qed (use c in simp)
  then show ?case using IH by simp
qed simp

lemma series_open_distinct:
  assumes "list_all candle_ok s" "pairwise_all follows s"
  shows "sorted_wrt (\<lambda>a b. open_time a < open_time b) s"
  using series_open_sorted [OF assms] assms(1)
  by (induction s) (auto simp: list_all_iff dest!: candle_times intro: less_trans)

lemma series_loop_Cons:
  "series_loop first seen previous (c # cs) =
     (if \<not> same_market c first
      then Inl (MarketDataValidationError ''A candle series cannot mix symbols, venues, or intervals'')
      else if open_time c \<in> set seen
      then Inl (MarketDataValidationError ''Duplicate candle open time detected'')
      else if \<exists>p. previous = Some p \<and> open_time c \<noteq> close_time p + usec_milli
      then Inl (MarketDataValidationError ''Missing or unordered candle detected'')
      else series_loop first (open_time c # seen) (Some c) cs)"
  unfolding same_market_def by (cases previous) simp_all

lemma series_loop_Inr:
  assumes "list_all candle_ok cs" "\<forall>p. previous = Some p \<longrightarrow> candle_ok p \<and> (\<forall>t \<in> set seen. t \<le> open_time p)"
    "previous = None \<longrightarrow> seen = []"
  shows "series_loop first seen previous cs = Inr () \<longleftrightarrow>
     list_all (\<lambda>c. same_market c first) cs
     \<and> pairwise_all (\<lambda>a b. open_time b = close_time a + usec_milli) (case previous of None \<Rightarrow> cs | Some p \<Rightarrow> p # cs)"
  using assms
proof (induction cs arbitrary: seen previous)
  case Nil
  then show ?case by (auto split: option.splits)
next
  case (Cons c cs)
  have IH: "series_loop first (open_time c # seen) (Some c) cs = Inr () \<longleftrightarrow>
     list_all (\<lambda>c. same_market c first) cs
     \<and> pairwise_all (\<lambda>a b. open_time b = close_time a + usec_milli) (c # cs)"
    if "\<forall>t \<in> set seen. t \<le> open_time c"
    using Cons.IH [of "Some c" "open_time c # seen"] Cons.prems(1) that by simp
  show ?case
  proof (cases previous)
    case None
    then show ?thesis using Cons.prems(3) IH by (auto simp: series_loop_Cons simp del: series_loop.simps)
  next
    case (Some p)
    have p: "candle_ok p" "\<forall>t \<in> set seen. t \<le> open_time p" using Cons.prems(2) Some by auto
    show ?thesis
    proof (cases "open_time c = close_time p + usec_milli")
      case True
      then have lt: "open_time p < open_time c" using candle_times [OF p(1)] usec_milli_pos by linarith
      then have "open_time c \<notin> set seen" "\<forall>t \<in> set seen. t \<le> open_time c" using p(2) by fastforce+
      then show ?thesis using Some True IH by (auto simp: series_loop_Cons simp del: series_loop.simps)
    next
      case False
      then show ?thesis using Some by (auto simp: series_loop_Cons simp del: series_loop.simps)
    qed
  qed
qed

lemma pairwise_follows_iff:
  "list_all (\<lambda>d. same_market d f) (c # cs) \<and> pairwise_all (\<lambda>a b. open_time b = close_time a + usec_milli) (c # cs)
   \<longleftrightarrow> same_market c f \<and> pairwise_all follows (c # cs)"
proof (induction cs arbitrary: c)
  case (Cons b cs)
  have "same_market b f \<longleftrightarrow> same_market b c" if "same_market c f"
    using that same_market_sym same_market_trans by blast
  then show ?case using Cons.IH [of b] by (auto simp: follows_def)
qed simp

lemma check_series_iff:
  assumes "list_all candle_ok cs"
  shows "check_series cs = Inr r \<longleftrightarrow> r = cs \<and> series_ok cs"
proof (cases cs)
  case Nil
  then show ?thesis by (simp add: check_series_def series_ok_def)
next
  case (Cons f rest)
  have l: "series_loop f [] None cs = Inr () \<longleftrightarrow> pairwise_all follows cs"
  proof -
    have "series_loop f [] None cs = Inr () \<longleftrightarrow>
        list_all (\<lambda>c. same_market c f) cs \<and> pairwise_all (\<lambda>a b. open_time b = close_time a + usec_milli) cs"
      by (subst series_loop_Inr [OF assms]) simp_all
    then show ?thesis using pairwise_follows_iff [of f f rest] unfolding Cons by simp
  qed
  have u: "bind_result (series_loop f [] None cs) (\<lambda>_. Inr cs) = Inr r \<longleftrightarrow>
      series_loop f [] None cs = Inr () \<and> r = cs"
    by (auto simp: bind_result_eq_Inr)
  have e: "check_series cs = bind_result (series_loop f [] None cs) (\<lambda>_. Inr cs)"
    by (simp add: check_series_def Cons del: series_loop.simps)
  have "series_ok cs \<longleftrightarrow> pairwise_all follows cs" using assms Cons by (simp add: series_ok_def)
  then show ?thesis unfolding e u l by blast
qed

lemma filter_sorted_prefix:
  "sorted_wrt (\<lambda>a b. P b \<longrightarrow> P a) xs \<Longrightarrow> filter P xs = takeWhile P xs"
proof (induction xs)
  case (Cons x xs)
  show ?case
  proof (cases "P x")
    case False
    then have "filter P xs = []" using Cons.prems by (auto simp: filter_empty_conv)
    then show ?thesis using False by simp
  qed (use Cons in simp)
qed simp

lemma series_ok_prefix: "series_ok s \<Longrightarrow> s = xs @ ys \<Longrightarrow> xs \<noteq> [] \<Longrightarrow> series_ok xs"
  by (auto simp: series_ok_def pairwise_all_append)

lemma series_closed_prefix:
  assumes "series_ok s"
  shows "filter (\<lambda>c. is_closed_at c now) s = takeWhile (\<lambda>c. is_closed_at c now) s"
proof (rule filter_sorted_prefix)
  have a: "list_all candle_ok s" and p: "pairwise_all follows s" using assms by (auto simp: series_ok_def)
  have "sorted_wrt (\<lambda>a b. close_time a < open_time b) s" by (rule series_open_sorted [OF a p])
  then show "sorted_wrt (\<lambda>a b. is_closed_at b now \<longrightarrow> is_closed_at a now) s"
  proof (rule sorted_wrt_mono_rel [rotated])
    show "is_closed_at y now \<longrightarrow> is_closed_at x now"
      if "x \<in> set s" "y \<in> set s" "close_time x < open_time y" for x y
      using that a candle_times [of y] by (auto simp: is_closed_at_def list_all_iff)
  qed
qed

text \<open>
  C23: cutting a series at an instant never looks ahead.  For a validated series the closed
  candles are a prefix, again a validated series, which holds exactly the candles whose
  close time is before the instant; when there is none the cut is refused.
\<close>

theorem closed_at_prefix:
  assumes "series_ok s"
  shows "closed_at s now =
           (let p = takeWhile (\<lambda>c. is_closed_at c now) s
            in if p = [] then Inl (MarketDataValidationError ''The upstream series contains no closed candle'') else Inr p)
         \<and> (\<forall>r. closed_at s now = Inr r \<longrightarrow>
              series_ok r \<and> (\<exists>rest. s = r @ rest) \<and> set r = {c \<in> set s. close_time c < now})"
proof -
  note p = series_closed_prefix [OF assms, of now]
  define r where "r = takeWhile (\<lambda>c. is_closed_at c now) s"
  have sr: "s = r @ dropWhile (\<lambda>c. is_closed_at c now) s" by (simp add: r_def)
  have ok: "series_ok r" if "r \<noteq> []" using series_ok_prefix [OF assms sr that] .
  have "closed_at s now = (if r = [] then Inl (MarketDataValidationError ''The upstream series contains no closed candle'') else Inr r)"
    using ok check_series_iff [of r r] unfolding closed_at_def p r_def [symmetric] Let_def
    by (auto simp: series_ok_def)
  moreover have "set r = {c \<in> set s. close_time c < now}"
    unfolding r_def p [symmetric] by (auto simp: is_closed_at_def)
  ultimately show ?thesis using ok sr unfolding r_def [symmetric] by (auto split: if_splits)
qed

text \<open>One-minute Spot candles on which the witnesses of the development evaluate.\<close>

definition minute_candle :: "int \<Rightarrow> decimal \<Rightarrow> decimal \<Rightarrow> decimal \<Rightarrow> decimal \<Rightarrow> candle" where
  "minute_candle k o1 h l c =
     \<lparr>c_venue = SPOT, c_interval = ONE_MINUTE, open_time = k * usec_minute,
      close_time = k * usec_minute + usec_minute - usec_milli, c_open = o1, c_high = h, c_low = l,
      c_close = c, c_volume = 0, quote_volume = 0, trade_count = 0, taker_buy_base_volume = 0,
      taker_buy_quote_volume = 0, c_symbol = ''BTCUSDT''\<rparr>"

lemma minute_candle_fields [simp]:
  "c_venue (minute_candle k o1 h l c) = SPOT" "c_interval (minute_candle k o1 h l c) = ONE_MINUTE"
  "open_time (minute_candle k o1 h l c) = k * usec_minute"
  "close_time (minute_candle k o1 h l c) = k * usec_minute + usec_minute - usec_milli"
  "c_open (minute_candle k o1 h l c) = o1" "c_high (minute_candle k o1 h l c) = h"
  "c_low (minute_candle k o1 h l c) = l" "c_close (minute_candle k o1 h l c) = c"
  "c_symbol (minute_candle k o1 h l c) = ''BTCUSDT''"
  by (simp_all add: minute_candle_def)

lemma minute_candle_ok:
  assumes "0 < l" "l \<le> o1" "o1 \<le> h" "l \<le> c" "c \<le> h"
  shows "candle_ok (minute_candle k o1 h l c)"
proof -
  have a: "is_open_time_aligned ONE_MINUTE (k * usec_minute)" by (simp add: aligned_ONE_MINUTE)
  have e: "expected_close_time ONE_MINUTE (k * usec_minute) = Inr (k * usec_minute + usec_minute - usec_milli)"
    using a by (simp add: expected_close_time_def next_open_time_def)
  have "0 < o1" "0 < h" "0 < c" "l \<le> h" using assms by linarith+
  then show ?thesis
    unfolding candle_ok_def check_candle_def minute_candle_fields
    using assms a e
    by (auto simp: validate_btc_symbol_def api_integer_def minute_candle_def not_less not_le min_def max_def)
qed

definition sample_series :: candle_series where
  "sample_series = [minute_candle 1 100 101 99 100, minute_candle 2 100 112 98 111]"

lemma sample_series_ok: "series_ok sample_series"
  by (simp add: series_ok_def sample_series_def minute_candle_ok follows_def same_market_def)

theorem closed_at_prefix_witness:
  "closed_at sample_series (2 * usec_minute) = Inr [minute_candle 1 100 101 99 100]
   \<and> series_ok [minute_candle 1 100 101 99 100]"
proof -
  have t: "takeWhile (\<lambda>c. is_closed_at c (2 * usec_minute)) sample_series = [minute_candle 1 100 101 99 100]"
    by (simp add: sample_series_def is_closed_at_def usec_defs)
  show ?thesis
    using closed_at_prefix [OF sample_series_ok, of "2 * usec_minute"] unfolding t by (auto simp: Let_def)
qed

subsection \<open>Derivatives and order-book records\<close>

record funding_snapshot =
  fs_mark_price :: decimal
  fs_index_price :: decimal
  last_funding_rate :: decimal
  next_funding_time :: instant
  fs_observed_at :: instant
  fs_symbol :: string

definition check_funding_snapshot :: "funding_snapshot \<Rightarrow> funding_snapshot result" where
  "check_funding_snapshot f =
     bind_result (validate_btc_symbol (fs_symbol f)) (\<lambda>_.
       if fs_mark_price f \<le> 0 \<or> fs_index_price f \<le> 0
       then Inl (MarketDataValidationError ''Mark and index prices must be positive'')
       else if 1 / 10 < dabs (last_funding_rate f)
       then Inl (MarketDataValidationError ''Funding rate is outside the accepted safety range'')
       else Inr f)"

record funding_rate_point =
  funding_rate :: decimal
  funding_time :: instant
  fp_mark_price :: "decimal option"
  fp_symbol :: string

definition check_funding_rate_point :: "funding_rate_point \<Rightarrow> funding_rate_point result" where
  "check_funding_rate_point f =
     bind_result (validate_btc_symbol (fp_symbol f)) (\<lambda>_.
       if (case fp_mark_price f of None \<Rightarrow> False | Some p \<Rightarrow> p \<le> 0)
       then Inl (MarketDataValidationError ''Funding mark price must be positive'')
       else if 1 / 10 < dabs (funding_rate f)
       then Inl (MarketDataValidationError ''Funding rate is outside the accepted safety range'')
       else Inr f)"

record open_interest_point =
  open_interest :: decimal
  oi_observed_at :: instant
  open_interest_value :: "decimal option"
  oi_symbol :: string

definition check_open_interest_point :: "open_interest_point \<Rightarrow> open_interest_point result" where
  "check_open_interest_point p =
     bind_result (validate_btc_symbol (oi_symbol p)) (\<lambda>_.
       if open_interest p < 0 then Inl (MarketDataValidationError ''Open interest cannot be negative'')
       else if (case open_interest_value p of None \<Rightarrow> False | Some v \<Rightarrow> v < 0)
       then Inl (MarketDataValidationError ''Open-interest value cannot be negative'')
       else Inr p)"

record taker_volume_point =
  tv_period :: derivatives_period
  buy_volume :: decimal
  sell_volume :: decimal
  buy_sell_ratio :: decimal
  period_start :: instant
  tv_symbol :: string

definition check_taker_volume_point :: "taker_volume_point \<Rightarrow> taker_volume_point result" where
  "check_taker_volume_point p =
     bind_result (validate_btc_symbol (tv_symbol p)) (\<lambda>_.
       if min (min (buy_volume p) (sell_volume p)) (buy_sell_ratio p) < 0
       then Inl (MarketDataValidationError ''Taker volume and ratio cannot be negative'')
       else if 0 < sell_volume p
          \<and> (let expected = dquot (buy_volume p) (sell_volume p);
                 tolerance = max (1 / 10000) (dmul expected (2 / 1000))
             in tolerance < dabs (dsub (buy_sell_ratio p) expected))
       then Inl (MarketDataValidationError ''Taker buy/sell ratio contradicts its volumes'')
       else Inr p)"

record order_book_level =
  l_price :: decimal
  l_quantity :: decimal

definition check_order_book_level :: "order_book_level \<Rightarrow> order_book_level result" where
  "check_order_book_level l =
     (if l_price l \<le> 0 \<or> l_quantity l < 0
      then Inl (MarketDataValidationError ''Order-book price must be positive and quantity nonnegative'')
      else Inr l)"

record order_book =
  last_update_id :: int
  bids :: "order_book_level list"
  asks :: "order_book_level list"
  ob_observed_at :: instant
  ob_symbol :: string

definition best_bid :: "order_book \<Rightarrow> decimal" where "best_bid b = l_price (hd (bids b))"
definition best_ask :: "order_book \<Rightarrow> decimal" where "best_ask b = l_price (hd (asks b))"

definition check_order_book :: "order_book \<Rightarrow> order_book result" where
  "check_order_book b =
     bind_result (validate_btc_symbol (ob_symbol b)) (\<lambda>_.
     bind_result (api_integer (Api_number (Py_int (last_update_id b))) ''last_update_id'' 0) (\<lambda>_.
       if bids b = [] \<or> asks b = [] then Inl (MarketDataValidationError ''Order book must contain bids and asks'')
       else if bids b \<noteq> sort_by (\<lambda>x y. l_price y \<le> l_price x) (bids b)
       then Inl (MarketDataValidationError ''Order-book bids are not sorted descending'')
       else if asks b \<noteq> sort_by (\<lambda>x y. l_price x \<le> l_price y) (asks b)
       then Inl (MarketDataValidationError ''Order-book asks are not sorted ascending'')
       else if best_ask b \<le> best_bid b
       then Inl (MarketDataValidationError ''Order book is locked or crossed'')
       else Inr b))"

definition mid_price :: "order_book \<Rightarrow> decimal" where
  "mid_price b = dquot (dadd (best_bid b) (best_ask b)) 2"

definition spread_basis_points :: "order_book \<Rightarrow> decimal" where
  "spread_basis_points b = dmul (dquot (dsub (best_ask b) (best_bid b)) (mid_price b)) 10000"

definition quantity_imbalance :: "order_book \<Rightarrow> decimal" where
  "quantity_imbalance b =
     (let bid_quantity = dsum (map l_quantity (bids b)); ask_quantity = dsum (map l_quantity (asks b));
          total = dadd bid_quantity ask_quantity
      in if total = 0 then 0 else dquot (dsub bid_quantity ask_quantity) total)"

lemma imbalance_bound:
  assumes "0 \<le> a" "0 \<le> b" "0 < dadd a b"
  shows "\<bar>dquot (dsub a b) (dadd a b)\<bar> \<le> 1"
proof -
  have "dsub a b \<le> dadd a b" "- dadd a b \<le> dsub a b"
    using assms rnd28_mono [of "- a - b" "a - b"] rnd28_minus [of "a + b"]
    by (auto simp: dsub_def dadd_def intro!: rnd28_mono)
  then have "dsub a b / dadd a b \<le> 1" "- 1 \<le> dsub a b / dadd a b"
    using assms(3) by (simp_all add: pos_divide_le_eq pos_le_divide_eq)
  then show ?thesis
    using rnd28_mono [of "dsub a b / dadd a b" 1] rnd28_mono [of "- 1" "dsub a b / dadd a b"]
    by (auto simp: dquot_def rnd28_one rnd28_neg_one)
qed


definition sample_book :: order_book where
  "sample_book = \<lparr>last_update_id = 1, bids = [\<lparr>l_price = 100, l_quantity = 3\<rparr>, \<lparr>l_price = 99, l_quantity = 0\<rparr>],
     asks = [\<lparr>l_price = 101, l_quantity = 1\<rparr>], ob_observed_at = 0, ob_symbol = ''BTCUSDT''\<rparr>"


subsection \<open>Snapshots and collection results\<close>

datatype collection_status = ACCEPTED | DEGRADED | REJECTED

record data_issue =
  i_code :: string
  i_source :: string
  i_detail :: string
  i_required :: bool

definition check_data_issue :: "data_issue \<Rightarrow> data_issue result" where
  "check_data_issue i =
     (if blank (i_code i) \<or> blank (i_source i) \<or> blank (i_detail i)
      then Inl (MarketDataValidationError ''Data issues require code, source, and detail'') else Inr i)"

record market_snapshot =
  captured_at :: instant
  spot_series :: "candle_series list"
  futures_series :: "candle_series list"
  ms_funding :: funding_snapshot
  ms_open_interest :: open_interest_point
  funding_history :: "funding_rate_point list"
  open_interest_history :: "open_interest_point list"
  taker_volume :: "taker_volume_point list"
  ms_order_book :: "order_book option"

definition series_key :: "candle_series \<Rightarrow> market_venue \<times> market_interval" where
  "series_key s = (series_venue s, series_interval s)"

definition check_snapshot :: "market_snapshot \<Rightarrow> market_snapshot result" where
  "check_snapshot m =
     (if spot_series m = [] \<or> futures_series m = []
      then Inl (MarketDataValidationError ''A snapshot requires spot and futures candle series'')
      else if list_ex (\<lambda>s. series_venue s \<noteq> SPOT) (spot_series m)
      then Inl (MarketDataValidationError ''Spot snapshot series must come from the spot venue'')
      else if list_ex (\<lambda>s. series_venue s \<noteq> FUTURES) (futures_series m)
      then Inl (MarketDataValidationError ''Futures snapshot series must come from the futures venue'')
      else if \<not> distinct (map series_key (spot_series m @ futures_series m))
      then Inl (MarketDataValidationError ''A snapshot contains duplicate venue/interval series'')
      else Inr m)"

definition series_for :: "market_snapshot \<Rightarrow> market_venue \<Rightarrow> market_interval \<Rightarrow> candle_series result" where
  "series_for m venue interval =
     (case List.find (\<lambda>s. series_venue s = venue \<and> series_interval s = interval) (spot_series m @ futures_series m) of
        None \<Rightarrow> Inl (MarketDataValidationError (''Snapshot is missing '' @ venue_value venue @ '' '' @ interval_value interval))
      | Some s \<Rightarrow> Inr s)"

record collection_result =
  cr_status :: collection_status
  cr_snapshot :: "market_snapshot option"
  cr_issues :: "data_issue list"

definition check_collection_result :: "collection_result \<Rightarrow> collection_result result" where
  "check_collection_result r =
     (if cr_status r = REJECTED \<and> (cr_snapshot r \<noteq> None \<or> \<not> list_ex i_required (cr_issues r))
      then Inl (MarketDataValidationError ''Rejected collection requires a required issue and no snapshot'')
      else if cr_status r \<noteq> REJECTED \<and> cr_snapshot r = None
      then Inl (MarketDataValidationError ''Accepted or degraded collection requires a snapshot'')
      else if cr_status r = ACCEPTED \<and> cr_issues r \<noteq> []
      then Inl (MarketDataValidationError ''Accepted collection cannot contain data issues'')
      else if cr_status r = DEGRADED \<and> cr_issues r = []
      then Inl (MarketDataValidationError ''Degraded collection requires at least one issue'')
      else Inr r)"

lemma series_for_Inr:
  "series_for m v i = Inr s \<Longrightarrow> s \<in> set (spot_series m @ futures_series m) \<and> series_venue s = v \<and> series_interval s = i"
  by (auto simp: series_for_def split: option.splits dest!: find_SomeD)

subsection \<open>Fail-closed checks\<close>

fun maximum_candle_age :: "market_interval \<Rightarrow> duration" where
  "maximum_candle_age ONE_MINUTE = 6 * usec_minute"
| "maximum_candle_age FIVE_MINUTES = 15 * usec_minute"
| "maximum_candle_age FIFTEEN_MINUTES = 35 * usec_minute"
| "maximum_candle_age ONE_HOUR = 2 * usec_hour"
| "maximum_candle_age FOUR_HOURS = 6 * usec_hour"
| "maximum_candle_age ONE_DAY = 30 * usec_hour"
| "maximum_candle_age ONE_WEEK = 8 * usec_day"
| "maximum_candle_age ONE_MONTH = 36 * usec_day"

definition ensure_series_usable :: "candle_series \<Rightarrow> instant \<Rightarrow> int \<Rightarrow> unit result" where
  "ensure_series_usable s as_of minimum_closed_candles =
     (let name = venue_value (series_venue s) @ '' '' @ interval_value (series_interval s);
          age = as_of - close_time (latest s)
      in if minimum_closed_candles < 1 then Inl (ValueError ''minimum_closed_candles must be positive'')
         else if int (length s) < minimum_closed_candles
         then Inl (MarketDataValidationError (name @ '' has too few closed candles''))
         else if list_ex (\<lambda>c. \<not> is_closed_at c as_of) s
         then Inl (MarketDataValidationError ''Incomplete candles cannot enter analysis'')
         else if age < 0 then Inl (MarketDataValidationError ''Latest candle is timestamped in the future'')
         else if maximum_candle_age (series_interval s) < age
         then Inl (MarketDataValidationError (name @ '' candle data is stale''))
         else Inr ())"

definition coherent_reference_time :: "instant \<Rightarrow> instant \<Rightarrow> instant \<Rightarrow> duration \<Rightarrow> duration \<Rightarrow> instant result" where
  "coherent_reference_time spot futures local maximum_exchange_skew maximum_local_skew =
     (if maximum_exchange_skew < \<bar>spot - futures\<bar>
      then Inl (MarketDataValidationError ''Spot and futures server clocks disagree'')
      else if maximum_local_skew < \<bar>local - min spot futures\<bar>
      then Inl (MarketDataValidationError ''Runner clock is not coherent with Binance server time'')
      else Inr (min spot futures))"

definition ensure_price_coherence :: "decimal \<Rightarrow> decimal \<Rightarrow> decimal \<Rightarrow> unit result" where
  "ensure_price_coherence spot futures maximum =
     (if spot \<le> 0 \<or> futures \<le> 0 \<or> \<not> (0 < maximum \<and> maximum \<le> 1 / 4)
      then Inl (MarketDataValidationError ''Price-coherence inputs are outside safe ranges'')
      else if maximum < dquot (dabs (dsub futures spot)) spot
      then Inl (MarketDataValidationError ''Spot and futures prices are severely dislocated'')
      else Inr ())"

definition ensure_observation_fresh :: "instant \<Rightarrow> instant \<Rightarrow> duration \<Rightarrow> string \<Rightarrow> unit result" where
  "ensure_observation_fresh observed as_of maximum_age name =
     (if as_of - observed < - 5 * usec_second
      then Inl (MarketDataValidationError (name @ '' is timestamped in the future''))
      else if maximum_age < as_of - observed then Inl (MarketDataValidationError (name @ '' is stale''))
      else Inr ())"

lemma ensure_series_usable_ok:
  "ensure_series_usable s as_of n = Inr () \<longleftrightarrow>
     1 \<le> n \<and> n \<le> int (length s) \<and> (\<forall>c \<in> set s. close_time c < as_of)
     \<and> 0 \<le> as_of - close_time (latest s)
     \<and> as_of - close_time (latest s) \<le> maximum_candle_age (series_interval s)"
  by (auto simp: ensure_series_usable_def Let_def is_closed_at_def list_ex_iff not_less)

lemma coherent_reference_time_ok:
  "coherent_reference_time spot futures local ex lo = Inr t \<Longrightarrow>
     t \<le> spot \<and> t \<le> futures \<and> spot \<le> t + ex \<and> futures \<le> t + ex \<and> \<bar>local - t\<bar> \<le> lo"
  by (auto simp: coherent_reference_time_def split: if_splits)

end
