(* ===== verification/TradeRecords.thy ===== *)
theory TradeRecords
  imports Domain
begin

section \<open>Records read from the store: lifecycle signals, decisions, report signals\<close>

text \<open>
  \<^verbatim>\<open>lifecycle/models.py\<close>, \<^verbatim>\<open>management/models.py\<close> and the \<^verbatim>\<open>ReportSignal\<close> of
  \<^verbatim>\<open>reports/models.py\<close>, which the repository builds from its rows.  The lemmas give the sign
  of the R accounting: a price beyond the entry by more than the cost is worth a positive R,
  the protected price exactly zero, and the original stop a loss.
\<close>

subsection \<open>Tracks and lifecycle signals\<close>

record track_state =
  ts_variant :: outcome_variant
  ts_current_stop :: decimal
  ts_remaining_fraction :: decimal
  ts_realized_r :: decimal

definition check_track_state :: "track_state \<Rightarrow> track_state result" where
  "check_track_state t =
     (if ts_current_stop t \<le> 0 then Inl (DomainValidationError ''Track stop must be positive'')
      else if \<not> (0 < ts_remaining_fraction t \<and> ts_remaining_fraction t \<le> 1)
      then Inl (DomainValidationError ''Active track fraction must be between zero and one'')
      else Inr t)"

record lifecycle_signal =
  ls_signal_id :: string
  ls_status :: signal_status
  ls_side :: side
  ls_created_at :: instant
  ls_expires_at :: instant
  ls_entry_low :: decimal
  ls_entry_high :: decimal
  ls_original_stop :: decimal
  ls_targets :: "target list"
  ls_cost_rate :: decimal
  ls_risk_percent :: decimal
  ls_fill_price :: "decimal option"
  ls_activated_at :: "instant option"
  ls_active_tracks :: "track_state list"

definition check_lifecycle_signal :: "lifecycle_signal \<Rightarrow> lifecycle_signal result" where
  "check_lifecycle_signal s =
     (if ls_signal_id s = [] \<or> ls_expires_at s \<le> ls_created_at s
      then Inl (DomainValidationError ''Lifecycle signal identity or time range is invalid'')
      else if ls_entry_low s \<le> 0 \<or> ls_entry_high s < ls_entry_low s \<or> ls_original_stop s \<le> 0
      then Inl (DomainValidationError ''Lifecycle prices are invalid'')
      else if length (ls_targets s) < 1
      then Inl (DomainValidationError ''Lifecycle signal requires at least TP1'')
      else if ls_status s \<in> {ACTIVE, CLOSED} \<and> (ls_fill_price s = None \<or> ls_activated_at s = None)
      then Inl (DomainValidationError ''Activated lifecycle signal requires fill and activation time'')
      else Inr s)"

definition ls_conservative_entry :: "lifecycle_signal \<Rightarrow> decimal" where
  "ls_conservative_entry s = (case ls_side s of LONG \<Rightarrow> ls_entry_high s | SHORT \<Rightarrow> ls_entry_low s)"

definition active_variants :: "lifecycle_signal \<Rightarrow> outcome_variant list" where
  "active_variants s = map ts_variant (ls_active_tracks s)"

definition result_r :: "lifecycle_signal \<Rightarrow> decimal \<Rightarrow> decimal result" where
  "result_r s price =
     (case ls_fill_price s of
        None \<Rightarrow> Inl (DomainValidationError ''Cannot calculate an outcome before activation'')
      | Some fill \<Rightarrow>
          let cost = dmul fill (ls_cost_rate s);
              total_risk = dadd (gross_risk (ls_side s) fill (ls_original_stop s)) cost;
              gross_result = gross_move (ls_side s) fill price
          in ddiv (dsub gross_result cost) total_risk)"

definition track_result_r :: "lifecycle_signal \<Rightarrow> track_state \<Rightarrow> decimal \<Rightarrow> decimal result" where
  "track_result_r s track price =
     bind_result (result_r s price) (\<lambda>r. Inr (dadd (ts_realized_r track) (dmul (ts_remaining_fraction track) r)))"

subsection \<open>Management decisions\<close>

datatype payload_value =
  PV_text string | PV_bool bool | PV_decimal decimal | PV_none

type_synonym payload = "(string \<times> payload_value) list"

record management_decision =
  md_signal_id :: string
  md_decided_at :: instant
  md_action :: management_action
  md_current_price :: decimal
  md_unrealized_r :: decimal
  md_unrealized_percent :: decimal
  md_reason :: string
  md_updated_stop :: "decimal option"
  md_changes_managed_result :: bool
  md_strategy_version :: string
  md_evidence :: payload
  md_dedupe_key :: string
  md_remaining_fraction_after :: "decimal option"
  md_realized_r_after :: "decimal option"

definition check_management_decision :: "management_decision \<Rightarrow> management_decision result" where
  "check_management_decision d =
     (let fraction = md_remaining_fraction_after d in
      if md_signal_id d = [] \<or> blank (md_reason d) \<or> blank (md_strategy_version d)
      then Inl (DomainValidationError ''Management decision identity and explanation are required'')
      else if md_current_price d \<le> 0 \<or> blank (md_dedupe_key d)
      then Inl (DomainValidationError ''Management decision price and dedupe key are invalid'')
      else if (case md_updated_stop d of None \<Rightarrow> False | Some p \<Rightarrow> p \<le> 0)
      then Inl (DomainValidationError ''Updated stop must be positive'')
      else if (case fraction of None \<Rightarrow> False | Some f \<Rightarrow> \<not> (0 < f \<and> f \<le> 1))
      then Inl (DomainValidationError ''Remaining managed fraction must be between zero and one'')
      else if (fraction = None) \<noteq> (md_realized_r_after d = None)
      then Inl (DomainValidationError ''Partial accounting fields must be supplied together'')
      else if md_action d = HOLD \<and> (md_changes_managed_result d \<or> md_updated_stop d \<noteq> None \<or> fraction \<noteq> None)
      then Inl (DomainValidationError ''HOLD cannot change managed-track state'')
      else if md_action d = MOVE_STOP_TO_BREAK_EVEN \<and> (\<not> md_changes_managed_result d \<or> md_updated_stop d = None)
      then Inl (DomainValidationError ''Break-even action requires a changed stop'')
      else if md_action d = TAKE_PARTIAL_PROFIT \<and> (\<not> md_changes_managed_result d \<or> fraction = None)
      then Inl (DomainValidationError ''Partial action requires durable fraction accounting'')
      else Inr d)"

lemma check_management_decision_Inr:
  "check_management_decision d = Inr e \<Longrightarrow> e = d \<and> 0 < md_current_price d
     \<and> (\<forall>p. md_updated_stop d = Some p \<longrightarrow> 0 < p)
     \<and> (\<forall>f. md_remaining_fraction_after d = Some f \<longrightarrow> 0 < f \<and> f \<le> 1)"
  by (auto simp: check_management_decision_def Let_def split: if_splits option.splits)

subsection \<open>Report signals\<close>

record report_signal =
  rs_signal_id :: string
  rs_status :: signal_status
  rs_side :: side
  rs_regime :: market_regime
  rs_setup_score :: int
  rs_created_at :: instant
  rs_expires_at :: instant
  rs_entry_low :: decimal
  rs_entry_high :: decimal
  rs_original_stop :: decimal
  rs_targets :: "target list"
  rs_strategy_version :: string
  rs_fill_price :: "decimal option"
  rs_activated_at :: "instant option"
  rs_managed_stop :: "decimal option"
  rs_fixed_track_active :: bool
  rs_managed_track_active :: bool

definition check_report_signal :: "report_signal \<Rightarrow> report_signal result" where
  "check_report_signal s =
     (if rs_signal_id s = [] \<or> blank (rs_strategy_version s)
      then Inl (DomainValidationError ''Report signal identity and strategy are required'')
      else if \<not> (0 \<le> rs_setup_score s \<and> rs_setup_score s \<le> 100) \<or> rs_expires_at s \<le> rs_created_at s
      then Inl (DomainValidationError ''Report signal score or time range is invalid'')
      else if rs_status s = ACTIVE \<and> (rs_fill_price s = None \<or> rs_activated_at s = None)
      then Inl (DomainValidationError ''Active report signal requires fill and activation time'')
      else if rs_status s = PENDING \<and> (rs_fill_price s \<noteq> None \<or> rs_activated_at s \<noteq> None
                \<or> rs_managed_stop s \<noteq> None \<or> rs_fixed_track_active s \<or> rs_managed_track_active s)
      then Inl (DomainValidationError ''Pending report signal cannot contain active trade state'')
      else Inr s)"

subsection \<open>The sign of the R accounting\<close>

text \<open>
  What an activated signal of validated terms satisfies: a positive fill at the conservative
  entry, the original stop strictly on its losing side, and a cost rate between 0 and 1%.
\<close>

definition risk_ok :: "lifecycle_signal \<Rightarrow> decimal \<Rightarrow> bool" where
  "risk_ok s fill \<longleftrightarrow> ls_fill_price s = Some fill \<and> 0 < fill \<and> 0 \<le> ls_cost_rate s \<and> ls_cost_rate s \<le> 1 / 100
     \<and> (case ls_side s of LONG \<Rightarrow> ls_original_stop s < fill | SHORT \<Rightarrow> fill < ls_original_stop s)"

definition round_trip_cost :: "lifecycle_signal \<Rightarrow> decimal \<Rightarrow> decimal" where
  "round_trip_cost s fill = dmul fill (ls_cost_rate s)"

definition unit_risk :: "lifecycle_signal \<Rightarrow> decimal \<Rightarrow> decimal" where
  "unit_risk s fill = dadd (gross_risk (ls_side s) fill (ls_original_stop s)) (round_trip_cost s fill)"

lemma round_trip_cost_nonneg: "risk_ok s fill \<Longrightarrow> 0 \<le> round_trip_cost s fill"
  by (simp add: risk_ok_def round_trip_cost_def dmul_def dec.nonneg)

lemma unit_risk_pos:
  assumes "risk_ok s fill"
  shows "0 < unit_risk s fill"
proof -
  have "0 < gross_risk (ls_side s) fill (ls_original_stop s)"
    using assms by (cases "ls_side s") (auto simp: risk_ok_def gross_risk_def dsub_def dec.pos)
  then show ?thesis
    using round_trip_cost_nonneg [OF assms] by (simp add: unit_risk_def dadd_def dec.pos)
qed

lemma result_r_value:
  assumes "risk_ok s fill"
  shows "result_r s price = Inr (dquot (dsub (gross_move (ls_side s) fill price) (round_trip_cost s fill)) (unit_risk s fill))"
  using assms unit_risk_pos [OF assms]
  by (simp add: result_r_def risk_ok_def unit_risk_def round_trip_cost_def Let_def)

lemma result_r_sign:
  assumes "risk_ok s fill" "result_r s price = Inr r"
  shows "0 < r \<longleftrightarrow> round_trip_cost s fill < gross_move (ls_side s) fill price"
    "r < 0 \<longleftrightarrow> gross_move (ls_side s) fill price < round_trip_cost s fill"
    "r = 0 \<longleftrightarrow> gross_move (ls_side s) fill price = round_trip_cost s fill"
  using assms(2) dquot_sign [OF unit_risk_pos [OF assms(1)]] unfolding result_r_value [OF assms(1)]
  by (auto simp: dsub_def dec.pos dec.neg dec.rnd_eq_0)

lemma result_r_mono:
  assumes "risk_ok s fill" "case ls_side s of LONG \<Rightarrow> p \<le> q | SHORT \<Rightarrow> q \<le> p"
    "result_r s p = Inr a" "result_r s q = Inr b"
  shows "a \<le> b"
proof -
  have "gross_move (ls_side s) fill p \<le> gross_move (ls_side s) fill q"
    by (rule gross_move_mono [OF assms(2)])
  then have "dsub (gross_move (ls_side s) fill p) (round_trip_cost s fill)
      \<le> dsub (gross_move (ls_side s) fill q) (round_trip_cost s fill)"
    unfolding dsub_def by (intro rnd28_mono) simp
  then show ?thesis
    using assms(3,4) unit_risk_pos [OF assms(1)] unfolding result_r_value [OF assms(1)]
    by (auto simp: dquot_def intro!: rnd28_mono divide_right_mono)
qed

text \<open>A price on the losing side of the fill loses.\<close>

lemma result_r_losing:
  assumes "risk_ok s fill" "result_r s price = Inr r"
    "case ls_side s of LONG \<Rightarrow> price < fill | SHORT \<Rightarrow> fill < price"
  shows "r < 0"
proof -
  have "gross_move (ls_side s) fill price < 0"
    using assms(3) by (cases "ls_side s") (auto simp: gross_move_def dsub_def dec.neg)
  then show ?thesis
    using result_r_sign(2) [OF assms(1,2)] round_trip_cost_nonneg [OF assms(1)] by simp
qed

end
