(* ===== verification/Statistics.thy ===== *)
theory Statistics
  imports Domain "HOL-Library.List_Lexorder" "HOL-Library.Char_ord"
begin

section \<open>Outcome statistics\<close>

text \<open>
  \<^verbatim>\<open>statistics/models.py\<close> and \<^verbatim>\<open>statistics/calculator.py\<close>: pure calculations over the
  immutable outcome samples.  Counts are \<open>nat\<close>, rates and sums decimals, and a rate without
  a denominator is \<open>None\<close>.  \<^verbatim>\<open>Decimal.sqrt\<close> may raise, so the calculator returns a result.

  The lemmas show that the calculator never raises, that its counts partition the resolved
  samples, that the Wilson interval is an interval within 0 and 100, that the drawdown loop
  computes the largest fall of the equity curve, and that a report does not depend on the
  order of its samples.
\<close>

subsection \<open>Records\<close>

record outcome_sample =
  sm_signal_id :: string
  sm_variant :: outcome_variant
  sm_result :: outcome_result
  sm_result_r :: decimal
  sm_closed_at :: instant
  sm_strategy_version :: string

definition check_outcome_sample :: "outcome_sample \<Rightarrow> outcome_sample result" where
  "check_outcome_sample s =
     (if sm_signal_id s = [] \<or> blank (sm_strategy_version s)
      then Inl (DomainValidationError ''Outcome sample identity and strategy are required'')
      else if sm_result s = WIN \<and> sm_result_r s \<le> 0
      then Inl (DomainValidationError ''WIN outcome requires positive R'')
      else if sm_result s = LOSS \<and> 0 \<le> sm_result_r s
      then Inl (DomainValidationError ''LOSS outcome requires negative R'')
      else if sm_result s = BREAK_EVEN \<and> sm_result_r s \<noteq> 0
      then Inl (DomainValidationError ''BREAK_EVEN outcome requires exactly zero R'')
      else Inr s)"

record variant_statistics =
  vs_variant :: outcome_variant
  vs_resolved :: nat
  vs_wins :: nat
  vs_losses :: nat
  vs_break_even :: nat
  vs_early_exits :: nat
  vs_positive :: nat
  vs_negative :: nat
  vs_flat :: nat
  strict_win_rate_percent :: "decimal option"
  strict_win_rate_95_low_percent :: "decimal option"
  strict_win_rate_95_high_percent :: "decimal option"
  decisive_win_rate_percent :: "decimal option"
  positive_rate_percent :: "decimal option"
  net_r :: decimal
  average_r :: "decimal option"
  median_r :: "decimal option"
  profit_factor :: "decimal option"
  max_drawdown_r :: decimal

record comparison_statistics =
  completed_pairs :: nat
  managed_better :: nat
  fixed_better :: nat
  cmp_ties :: nat
  unresolved_fixed :: nat
  unresolved_managed :: nat
  average_managed_delta_r :: "decimal option"

record statistics_report =
  sr_calculated_at :: instant
  sr_fixed :: variant_statistics
  sr_managed :: variant_statistics
  sr_comparison :: comparison_statistics
  strategy_counts :: "(string \<times> nat) list"

subsection \<open>Rates, median, interval and drawdown\<close>

definition stat_rate :: "nat \<Rightarrow> nat \<Rightarrow> decimal option" where
  "stat_rate numerator denominator =
     (if denominator = 0 then None
      else Some (dquot (dmul (of_nat numerator) 100) (of_nat denominator)))"

definition stat_median :: "decimal list \<Rightarrow> decimal option" where
  "stat_median values =
     (if values = [] then None
      else let ordered = sort values; middle = length ordered div 2
           in if odd (length ordered) then Some (ordered ! middle)
              else Some (dquot (dadd (ordered ! (middle - 1)) (ordered ! middle)) 2))"

definition z_95 :: decimal where
  "z_95 = 1959963984540054 / 1000000000000000"

definition wilson_interval :: "nat \<Rightarrow> nat \<Rightarrow> (decimal option \<times> decimal option) result" where
  "wilson_interval wins trials =
     (if trials = 0 then Inr (None, None)
      else let count = of_nat trials;
               probability = dquot (of_nat wins) count;
               z_squared = dmul z_95 z_95;
               denominator = dadd 1 (dquot z_squared count);
               center = dquot (dadd probability (dquot z_squared (dmul 2 count))) denominator;
               variance = dquot (dadd (dmul probability (dsub 1 probability))
                                      (dquot z_squared (dmul 4 count))) count
           in bind_result (dsqrt variance) (\<lambda>root.
                let margin = dquot (dmul z_95 root) denominator
                in Inr (Some (dmul (max 0 (dsub center margin)) 100),
                        Some (dmul (min 1 (dadd center margin)) 100))))"

text \<open>The loop of \<^verbatim>\<open>_max_drawdown\<close> with its cumulative sum, peak and maximum.\<close>

fun drawdown_loop :: "decimal \<Rightarrow> decimal \<Rightarrow> decimal \<Rightarrow> decimal list \<Rightarrow> decimal" where
  "drawdown_loop cumulative peak maximum [] = maximum"
| "drawdown_loop cumulative peak maximum (v # vs) =
     (let cumulative' = dadd cumulative v; peak' = max peak cumulative'
      in drawdown_loop cumulative' peak' (max maximum (dsub peak' cumulative')) vs)"

definition max_drawdown :: "decimal list \<Rightarrow> decimal" where
  "max_drawdown values = drawdown_loop 0 0 0 values"

subsection \<open>The report\<close>

definition count_where :: "('a \<Rightarrow> bool) \<Rightarrow> 'a list \<Rightarrow> nat" where
  "count_where P xs = length (filter P xs)"

definition variant_samples :: "outcome_variant \<Rightarrow> outcome_sample list \<Rightarrow> outcome_sample list" where
  "variant_samples v samples = filter (\<lambda>s. sm_variant s = v) samples"

definition variant_statistics_of :: "outcome_variant \<Rightarrow> outcome_sample list \<Rightarrow> variant_statistics result" where
  "variant_statistics_of v samples =
     (let selected = variant_samples v samples;
          values = map sm_result_r selected;
          wins = count_where (\<lambda>s. sm_result s = WIN) selected;
          losses = count_where (\<lambda>s. sm_result s = LOSS) selected;
          positive = count_where (\<lambda>x. 0 < x) values;
          gross_positive = dsum (filter (\<lambda>x. 0 < x) values);
          gross_negative = dneg (dsum (filter (\<lambda>x. x < 0) values));
          resolved = length selected;
          net = dsum values
      in bind_result (wilson_interval wins resolved) (\<lambda>(low, high).
           Inr \<lparr>vs_variant = v, vs_resolved = resolved, vs_wins = wins, vs_losses = losses,
                vs_break_even = count_where (\<lambda>s. sm_result s = BREAK_EVEN) selected,
                vs_early_exits = count_where (\<lambda>s. sm_result s = EARLY_EXIT) selected,
                vs_positive = positive, vs_negative = count_where (\<lambda>x. x < 0) values,
                vs_flat = count_where (\<lambda>x. x = 0) values,
                strict_win_rate_percent = stat_rate wins resolved,
                strict_win_rate_95_low_percent = low, strict_win_rate_95_high_percent = high,
                decisive_win_rate_percent = stat_rate wins (wins + losses),
                positive_rate_percent = stat_rate positive resolved,
                net_r = net,
                average_r = (if values = [] then None else Some (dquot net (of_nat resolved))),
                median_r = stat_median values,
                profit_factor = (if gross_negative = 0 then None else Some (dquot gross_positive gross_negative)),
                max_drawdown_r = max_drawdown values\<rparr>))"

text \<open>The order \<^verbatim>\<open>(closed_at, signal_id, variant)\<close>.\<close>

definition sample_le :: "outcome_sample \<Rightarrow> outcome_sample \<Rightarrow> bool" where
  "sample_le a b \<longleftrightarrow> sm_closed_at a < sm_closed_at b
     \<or> sm_closed_at a = sm_closed_at b
       \<and> (sm_signal_id a < sm_signal_id b
          \<or> sm_signal_id a = sm_signal_id b \<and> sm_variant a \<le> sm_variant b)"

text \<open>
  A dict comprehension keyed by \<^verbatim>\<open>signal_id\<close> keeps the keys and, for each, the last value.
\<close>

definition by_signal :: "outcome_variant \<Rightarrow> outcome_sample list \<Rightarrow> string \<Rightarrow> outcome_sample option" where
  "by_signal v samples key =
     List.find (\<lambda>s. sm_signal_id s = key) (rev (variant_samples v samples))"

definition signal_keys :: "outcome_variant \<Rightarrow> outcome_sample list \<Rightarrow> string list" where
  "signal_keys v samples = fromkeys (map sm_signal_id (variant_samples v samples))"

definition sample_delta :: "outcome_sample list \<Rightarrow> string \<Rightarrow> decimal" where
  "sample_delta samples key =
     (case (by_signal MANAGED samples key, by_signal FIXED samples key) of
        (Some m, Some f) \<Rightarrow> dsub (sm_result_r m) (sm_result_r f) | _ \<Rightarrow> 0)"

definition comparison_of :: "outcome_sample list \<Rightarrow> comparison_statistics" where
  "comparison_of ordered =
     (let fixed_keys = signal_keys FIXED ordered; managed_keys = signal_keys MANAGED ordered;
          paired = sort (filter (\<lambda>k. k \<in> set managed_keys) fixed_keys);
          deltas = map (sample_delta ordered) paired
      in \<lparr>completed_pairs = length paired,
          managed_better = count_where (\<lambda>d. 0 < d) deltas,
          fixed_better = count_where (\<lambda>d. d < 0) deltas,
          cmp_ties = count_where (\<lambda>d. d = 0) deltas,
          unresolved_fixed = length (filter (\<lambda>k. k \<notin> set fixed_keys) managed_keys),
          unresolved_managed = length (filter (\<lambda>k. k \<notin> set managed_keys) fixed_keys),
          average_managed_delta_r =
            (if deltas = [] then None else Some (dquot (dsum deltas) (of_nat (length deltas))))\<rparr>)"

definition calculate_statistics :: "outcome_sample list \<Rightarrow> instant \<Rightarrow> statistics_report result" where
  "calculate_statistics samples calculated_at =
     (let ordered = sort_by sample_le samples;
          versions = map sm_strategy_version ordered
      in bind_result (variant_statistics_of FIXED ordered) (\<lambda>fixed.
         bind_result (variant_statistics_of MANAGED ordered) (\<lambda>managed.
           Inr \<lparr>sr_calculated_at = calculated_at, sr_fixed = fixed, sr_managed = managed,
                sr_comparison = comparison_of ordered,
                strategy_counts = map (\<lambda>v. (v, count_where (\<lambda>w. w = v) versions)) (sort (fromkeys versions))\<rparr>)))"

subsection \<open>The interval\<close>

lemma dquot_nonneg: "0 \<le> x \<Longrightarrow> 0 \<le> y \<Longrightarrow> 0 \<le> dquot x y"
  by (simp add: dquot_def dec.nonneg)

lemma dquot_le_1: "x \<le> y \<Longrightarrow> 0 < y \<Longrightarrow> dquot x y \<le> 1"
  unfolding dquot_def by (rule dec.upper [OF rnd28_one]) simp

lemma dadd_nonneg: "0 \<le> x \<Longrightarrow> 0 \<le> y \<Longrightarrow> 0 \<le> dadd x y"
  by (simp add: dadd_def dec.nonneg)

lemma dmul_nonneg: "0 \<le> x \<Longrightarrow> 0 \<le> y \<Longrightarrow> 0 \<le> dmul x y"
  by (simp add: dmul_def dec.nonneg)

lemma dsub_nonneg: "y \<le> x \<Longrightarrow> 0 \<le> dsub x y"
  by (simp add: dsub_def dec.nonneg)

lemma dsqrt_nonneg: "0 \<le> x \<Longrightarrow> \<exists>r. dsqrt x = Inr r \<and> 0 \<le> r"
  by (auto simp: dsqrt_def Let_def dec.nonneg)

lemma dmul_100: "0 \<le> x \<Longrightarrow> x \<le> 1 \<Longrightarrow> 0 \<le> dmul x 100 \<and> dmul x 100 \<le> 100"
  unfolding dmul_def by (auto simp: dec.nonneg intro!: dec.upper [OF rnd28_numeral])

lemma dmul_mono: "x \<le> y \<Longrightarrow> 0 \<le> c \<Longrightarrow> dmul x c \<le> dmul y c"
  unfolding dmul_def by (intro rnd28_mono mult_right_mono)

lemma wilson_some:
  assumes "0 < n" "w \<le> n"
  obtains low high where "wilson_interval w n = Inr (Some low, Some high)"
    "0 \<le> low" "low \<le> high" "high \<le> 100"
proof -
  define count :: rat where "count = of_nat n"
  define p where "p = dquot (of_nat w) count"
  define z where "z = dmul z_95 z_95"
  define den where "den = dadd 1 (dquot z count)"
  define center where "center = dquot (dadd p (dquot z (dmul 2 count))) den"
  define var where "var = dquot (dadd (dmul p (dsub 1 p)) (dquot z (dmul 4 count))) count"
  have c: "0 < count" using assms(1) by (simp add: count_def)
  have wc: "(of_nat w :: rat) \<le> count" using assms(2) by (simp add: count_def)
  have p: "0 \<le> p" "p \<le> 1"
    unfolding p_def using c wc by (auto intro: dquot_nonneg dquot_le_1)
  have z: "0 \<le> z" unfolding z_def by (rule dmul_nonneg) (simp_all add: z_95_def)
  have den: "1 \<le> den"
    unfolding den_def dadd_def using dquot_nonneg [OF z, of count] c by (intro dec.lower [OF rnd28_one]) simp
  have c2: "count \<le> dmul 2 count"
  proof -
    have "\<bar>rnd28 (2 * count) - 2 * count\<bar> \<le> 2 * count * (5 / 10 ^ 28)"
      using rnd28_error [of "2 * count"] c by (simp only: abs_of_pos [of "2 * count"] zero_less_mult_iff)
    moreover have "2 * count * (5 / 10 ^ 28) \<le> count" using c by simp
    ultimately show ?thesis unfolding dmul_def by (simp only: abs_le_iff) linarith
  qed
  have "dquot z (dmul 2 count) \<le> dquot z count"
    unfolding dquot_def using c c2 z by (intro rnd28_mono divide_left_mono) auto
  then have "dadd p (dquot z (dmul 2 count)) \<le> den"
    unfolding den_def dadd_def using p by (intro rnd28_mono add_mono) auto
  then have center: "center \<le> 1" "0 \<le> center"
    unfolding center_def using den p z c c2
    by (auto intro!: dquot_le_1 dquot_nonneg dadd_nonneg)
  have "0 \<le> var"
    unfolding var_def using p z c by (auto intro!: dquot_nonneg dadd_nonneg dmul_nonneg dsub_nonneg)
  then obtain root where root: "dsqrt var = Inr root" "0 \<le> root" using dsqrt_nonneg by blast
  define margin where "margin = dquot (dmul z_95 root) den"
  have margin: "0 \<le> margin"
    unfolding margin_def using root den by (intro dquot_nonneg dmul_nonneg) (auto simp: z_95_def)
  have lo: "dsub center margin \<le> 1" unfolding dsub_def using center margin by (intro dec.upper [OF rnd28_one]) simp
  have hi: "0 \<le> dadd center margin" using center margin by (intro dadd_nonneg)
  have lh: "dsub center margin \<le> dadd center margin"
    unfolding dsub_def dadd_def using margin by (intro rnd28_mono) simp
  have w: "wilson_interval w n = Inr (Some (dmul (max 0 (dsub center margin)) 100), Some (dmul (min 1 (dadd center margin)) 100))"
    using assms(1) root(1) unfolding wilson_interval_def Let_def
    by (simp add: count_def p_def z_def den_def center_def var_def margin_def)
  show thesis
    using dmul_100 [of "max 0 (dsub center margin)"] dmul_100 [of "min 1 (dadd center margin)"] lo hi lh
    by (intro that [OF w]) (auto intro!: dmul_mono)
qed

lemma count_where_le: "count_where P xs \<le> length xs"
  by (simp add: count_where_def)

lemma variant_statistics_total: "\<exists>r. variant_statistics_of v samples = Inr r"
proof -
  define w where "w = count_where (\<lambda>s. sm_result s = WIN) (variant_samples v samples)"
  have "\<exists>lo hi. wilson_interval w (length (variant_samples v samples)) = Inr (lo, hi)"
  proof (cases "length (variant_samples v samples) = 0")
    case True
    then show ?thesis by (simp add: wilson_interval_def)
  next
    case False
    then have "0 < length (variant_samples v samples)" by simp
    from wilson_some [OF this, of w] show ?thesis unfolding w_def by (metis count_where_le)
  qed
  then show ?thesis unfolding variant_statistics_of_def Let_def w_def by (elim exE) simp
qed

subsection \<open>Partition and permutation\<close>

lemma count_where_split:
  "count_where P xs = count_where (\<lambda>x. P x \<and> Q x) xs + count_where (\<lambda>x. P x \<and> \<not> Q x) xs"
  by (induction xs) (auto simp: count_where_def)

lemma count_where_mono: "(\<And>x. x \<in> set xs \<Longrightarrow> P x \<Longrightarrow> Q x) \<Longrightarrow> count_where P xs \<le> count_where Q xs"
  by (induction xs) (auto simp: count_where_def)

lemma count_where_map: "count_where P (map f xs) = count_where (\<lambda>x. P (f x)) xs"
  by (induction xs) (auto simp: count_where_def)

lemma result_partition:
  "length xs = count_where (\<lambda>s. sm_result s = WIN) xs + count_where (\<lambda>s. sm_result s = LOSS) xs
     + count_where (\<lambda>s. sm_result s = BREAK_EVEN) xs + count_where (\<lambda>s. sm_result s = EARLY_EXIT) xs"
proof (induction xs)
  case (Cons x xs)
  then show ?case by (cases "sm_result x") (simp_all add: count_where_def)
qed (simp add: count_where_def)

lemma sign_partition:
  "length xs = count_where (\<lambda>x. 0 < x) xs + count_where (\<lambda>x. x < 0) xs + count_where (\<lambda>x. x = (0::rat)) xs"
  by (induction xs) (auto simp: count_where_def)

lemma variant_statistics_counts:
  assumes "variant_statistics_of v samples = Inr r"
  shows "vs_resolved r = length (variant_samples v samples)"
    "vs_wins r = count_where (\<lambda>s. sm_result s = WIN) (variant_samples v samples)"
    "vs_losses r = count_where (\<lambda>s. sm_result s = LOSS) (variant_samples v samples)"
    "vs_break_even r = count_where (\<lambda>s. sm_result s = BREAK_EVEN) (variant_samples v samples)"
    "vs_early_exits r = count_where (\<lambda>s. sm_result s = EARLY_EXIT) (variant_samples v samples)"
    "vs_positive r = count_where (\<lambda>s. 0 < sm_result_r s) (variant_samples v samples)"
    "vs_negative r = count_where (\<lambda>s. sm_result_r s < 0) (variant_samples v samples)"
    "vs_flat r = count_where (\<lambda>s. sm_result_r s = 0) (variant_samples v samples)"
    "max_drawdown_r r = max_drawdown (map sm_result_r (variant_samples v samples))"
    "wilson_interval (vs_wins r) (vs_resolved r) =
       Inr (strict_win_rate_95_low_percent r, strict_win_rate_95_high_percent r)"
    "strict_win_rate_percent r = stat_rate (vs_wins r) (vs_resolved r)"
  using assms by (auto simp: variant_statistics_of_def Let_def bind_result_eq_Inr count_where_map split: prod.splits)

lemma sample_le_total: "sample_le a b \<or> sample_le b a"
  by (auto simp: sample_le_def)

lemma sample_le_trans: "sample_le a b \<Longrightarrow> sample_le b c \<Longrightarrow> sample_le a c"
  by (auto simp: sample_le_def)

lemma sample_le_antisym:
  "sample_le a b \<Longrightarrow> sample_le b a \<Longrightarrow> sm_signal_id a = sm_signal_id b \<and> sm_variant a = sm_variant b"
  by (auto simp: sample_le_def)

lemma mset_variant_samples: "mset (variant_samples v (sort_by sample_le xs)) = mset (variant_samples v xs)"
  by (simp add: variant_samples_def)

lemma count_where_mset: "mset xs = mset ys \<Longrightarrow> count_where P xs = count_where P ys"
  unfolding count_where_def by (metis mset_filter size_mset)

subsection \<open>The largest fall of the equity curve\<close>

text \<open>The equity curve: the running sums, starting at zero.\<close>

fun running_sums :: "decimal \<Rightarrow> decimal list \<Rightarrow> decimal list" where
  "running_sums c [] = [c]"
| "running_sums c (v # vs) = c # running_sums (dadd c v) vs"

definition falls :: "decimal list \<Rightarrow> decimal set" where
  "falls xs = {dsub (xs ! i) (xs ! j) | i j. i \<le> j \<and> j < length xs}"

lemma finite_falls [simp]: "finite (falls xs)"
proof -
  have "falls xs \<subseteq> (\<lambda>(i, j). dsub (xs ! i) (xs ! j)) ` ({..<length xs} \<times> {..<length xs})"
    by (auto simp: falls_def)
  then show ?thesis by (rule finite_subset) simp
qed

lemma falls_snoc: "falls (xs @ [c]) = falls xs \<union> (\<lambda>x. dsub x c) ` set (xs @ [c])"
proof (intro set_eqI iffI)
  fix d assume "d \<in> falls (xs @ [c])"
  then obtain i j where ij: "i \<le> j" "j \<le> length xs" "d = dsub ((xs @ [c]) ! i) ((xs @ [c]) ! j)"
    by (auto simp: falls_def less_Suc_eq_le)
  show "d \<in> falls xs \<union> (\<lambda>x. dsub x c) ` set (xs @ [c])"
  proof (cases "j = length xs")
    case True
    have "(xs @ [c]) ! i \<in> set (xs @ [c])" using ij by (intro nth_mem) simp
    then show ?thesis using ij True by auto
  next
    case False
    then have "j < length xs" "i < length xs" using ij by auto
    then show ?thesis using ij by (auto simp: falls_def nth_append)
  qed
next
  fix d assume "d \<in> falls xs \<union> (\<lambda>x. dsub x c) ` set (xs @ [c])"
  then consider i j where "i \<le> j" "j < length xs" "d = dsub (xs ! i) (xs ! j)"
    | i where "i < length (xs @ [c])" "d = dsub ((xs @ [c]) ! i) c"
    unfolding falls_def by (auto simp: in_set_conv_nth simp del: set_append)
  then show "d \<in> falls (xs @ [c])"
  proof cases
    case (1 i j)
    then have "d = dsub ((xs @ [c]) ! i) ((xs @ [c]) ! j)" by (simp add: nth_append)
    then show ?thesis using 1 unfolding falls_def by fastforce
  next
    case (2 i)
    then have "d = dsub ((xs @ [c]) ! i) ((xs @ [c]) ! length xs)" by simp
    then show ?thesis using 2 unfolding falls_def by fastforce
  qed
qed

lemma Max_dsub_image:
  assumes "finite A" "A \<noteq> {}"
  shows "Max ((\<lambda>x. dsub x c) ` A) = dsub (Max A) c"
proof (rule Max_eqI)
  show "finite ((\<lambda>x. dsub x c) ` A)" using assms by simp
  show "\<And>y. y \<in> (\<lambda>x. dsub x c) ` A \<Longrightarrow> y \<le> dsub (Max A) c"
    using assms(1) by (auto simp: dsub_def intro!: rnd28_mono)
  show "dsub (Max A) c \<in> (\<lambda>x. dsub x c) ` A" using assms by auto
qed

lemma drawdown_loop_falls:
  assumes "past \<noteq> []" "peak = Max (set past)" "m = Max (falls past)"
  shows "drawdown_loop c peak m vs = Max (falls (past @ tl (running_sums c vs)))"
  using assms
proof (induction vs arbitrary: c peak m past)
  case (Cons v vs)
  define c' where "c' = dadd c v"
  have f: "falls past \<noteq> {}" using Cons.prems(1) by (auto simp: falls_def)
  have peak: "max peak c' = Max (set (past @ [c']))"
    using Cons.prems(1,2) by (simp add: max.commute)
  have "Max (falls (past @ [c'])) = max (Max (falls past)) (Max ((\<lambda>x. dsub x c') ` set (past @ [c'])))"
    unfolding falls_snoc using f by (intro Max_Un) auto
  also have "\<dots> = max m (dsub (max peak c') c')"
    unfolding peak Cons.prems(3) by (subst Max_dsub_image) auto
  finally have m: "max m (dsub (max peak c') c') = Max (falls (past @ [c']))" by simp
  have "drawdown_loop c' (max peak c') (max m (dsub (max peak c') c')) vs
      = Max (falls ((past @ [c']) @ tl (running_sums c' vs)))"
    by (rule Cons.IH) (use peak m in auto)
  moreover have "c' # tl (running_sums c' vs) = running_sums c' vs" by (cases vs) auto
  ultimately show ?case by (simp add: Let_def c'_def)
qed simp

text \<open>
  C21: the drawdown is the largest fall of the equity curve.  The one-pass loop over the
  cumulative sum and its peak computes the maximum, over all pairs of an earlier and a
  later point of the running sums, of the earlier minus the later.
\<close>

theorem max_drawdown_is_largest_fall:
  "max_drawdown values = Max (falls (running_sums 0 values)) \<and> 0 \<le> max_drawdown values"
proof -
  have f: "falls [0] = {0}" unfolding falls_def by (auto simp: dsub_def)
  have "max_drawdown values = Max (falls ([0] @ tl (running_sums 0 values)))"
    unfolding max_drawdown_def by (rule drawdown_loop_falls) (simp_all add: f)
  moreover have t: "[0] @ tl (running_sums 0 values) = running_sums 0 values" by (cases "values") auto
  ultimately have e: "max_drawdown values = Max (falls (running_sums 0 values))" by simp
  have "running_sums 0 values \<noteq> []" by (cases "values") auto
  then have "dsub (running_sums 0 values ! 0) (running_sums 0 values ! 0) \<in> falls (running_sums 0 values)"
    unfolding falls_def by blast
  then have "0 \<le> Max (falls (running_sums 0 values))" by (simp add: dsub_def)
  with e show ?thesis by simp
qed

subsection \<open>The report is sound and does not depend on the order of the samples\<close>

definition counts_consistent :: "variant_statistics \<Rightarrow> bool" where
  "counts_consistent r \<longleftrightarrow>
     vs_resolved r = vs_wins r + vs_losses r + vs_break_even r + vs_early_exits r
     \<and> vs_resolved r = vs_positive r + vs_negative r + vs_flat r
     \<and> vs_wins r \<le> vs_positive r \<and> vs_losses r \<le> vs_negative r \<and> vs_break_even r \<le> vs_flat r
     \<and> (if vs_resolved r = 0 then strict_win_rate_95_low_percent r = None
        else \<exists>low high. strict_win_rate_95_low_percent r = Some low
               \<and> strict_win_rate_95_high_percent r = Some high \<and> 0 \<le> low \<and> low \<le> high \<and> high \<le> 100)"

lemma valid_sample_signs:
  assumes "check_outcome_sample s = Inr s"
  shows "sm_result s = WIN \<Longrightarrow> 0 < sm_result_r s" "sm_result s = LOSS \<Longrightarrow> sm_result_r s < 0"
    "sm_result s = BREAK_EVEN \<Longrightarrow> sm_result_r s = 0"
  using assms by (auto simp: check_outcome_sample_def split: if_splits)

lemma variant_statistics_consistent:
  assumes r: "variant_statistics_of v samples = Inr r"
    and ok: "list_all (\<lambda>s. check_outcome_sample s = Inr s) samples"
  shows "counts_consistent r"
proof -
  note c = variant_statistics_counts [OF r]
  define sel where "sel = variant_samples v samples"
  have sel: "check_outcome_sample s = Inr s" if "s \<in> set sel" for s
    using ok that by (auto simp: sel_def variant_samples_def list_all_iff)
  have le: "vs_wins r \<le> vs_positive r" "vs_losses r \<le> vs_negative r" "vs_break_even r \<le> vs_flat r"
    unfolding c sel_def [symmetric] using valid_sample_signs [OF sel] by (auto intro!: count_where_mono)
  have w: "vs_wins r \<le> vs_resolved r" unfolding c by (rule count_where_le)
  have "if vs_resolved r = 0 then strict_win_rate_95_low_percent r = None
        else \<exists>low high. strict_win_rate_95_low_percent r = Some low
               \<and> strict_win_rate_95_high_percent r = Some high \<and> 0 \<le> low \<and> low \<le> high \<and> high \<le> 100"
  proof (cases "vs_resolved r = 0")
    case True
    then show ?thesis using c(10) by (simp add: wilson_interval_def)
  next
    case False
    then have "0 < vs_resolved r" by simp
    from wilson_some [OF this w] show ?thesis using c(10) False by (metis Inr_inject Pair_inject)
  qed
  moreover have "vs_resolved r = vs_wins r + vs_losses r + vs_break_even r + vs_early_exits r"
    unfolding c by (rule result_partition)
  moreover have "vs_resolved r = vs_positive r + vs_negative r + vs_flat r"
    using sign_partition [of "map sm_result_r sel"] unfolding c sel_def by (simp add: count_where_map)
  ultimately show ?thesis using le unfolding counts_consistent_def by blast
qed

lemma calculate_statistics_parts:
  assumes "calculate_statistics samples t = Inr r"
  shows "variant_statistics_of FIXED (sort_by sample_le samples) = Inr (sr_fixed r)"
    "variant_statistics_of MANAGED (sort_by sample_le samples) = Inr (sr_managed r)"
    "sr_comparison r = comparison_of (sort_by sample_le samples)" "sr_calculated_at r = t"
  using assms by (auto simp: calculate_statistics_def Let_def bind_result_eq_Inr)

lemma calculate_statistics_total: "\<exists>r. calculate_statistics samples t = Inr r"
proof -
  obtain f where "variant_statistics_of FIXED (sort_by sample_le samples) = Inr f"
    using variant_statistics_total by blast
  moreover obtain m where "variant_statistics_of MANAGED (sort_by sample_le samples) = Inr m"
    using variant_statistics_total by blast
  ultimately show ?thesis by (simp add: calculate_statistics_def Let_def)
qed


definition sample_outcomes :: "outcome_sample list" where
  "sample_outcomes =
     [\<lparr>sm_signal_id = ''B'', sm_variant = FIXED, sm_result = WIN, sm_result_r = 3, sm_closed_at = 2, sm_strategy_version = ''v1''\<rparr>,
      \<lparr>sm_signal_id = ''A'', sm_variant = MANAGED, sm_result = LOSS, sm_result_r = - 1, sm_closed_at = 1, sm_strategy_version = ''v1''\<rparr>]"

lemma sample_outcomes_ok: "list_all (\<lambda>s. check_outcome_sample s = Inr s) sample_outcomes"
  by (simp add: sample_outcomes_def check_outcome_sample_def blank_def is_space_def)


text \<open>
  C20: a report does not depend on the order of its samples.  Samples with distinct signal
  and variant, read from the database in any order, give the same report; the query's last
  sort key is a random identifier.
\<close>

theorem statistics_order_independent:
  assumes "mset samples = mset samples'" "distinct (map (\<lambda>s. (sm_signal_id s, sm_variant s)) samples)"
  shows "calculate_statistics samples t = calculate_statistics samples' t"
proof -
  have "sort_by sample_le samples = sort_by sample_le samples'"
  proof (rule sort_by_permuted [OF assms(1)])
    show "a = b" if "a \<in> set samples" "b \<in> set samples" "sample_le a b" "sample_le b a" for a b
      using sample_le_antisym [OF that(3,4)] that(1,2) assms(2) by (auto simp: distinct_map dest: inj_onD)
  qed (use sample_le_total sample_le_trans in blast)+
  then show ?thesis by (simp add: calculate_statistics_def)
qed

theorem statistics_order_independent_witness:
  "calculate_statistics sample_outcomes 5 = calculate_statistics (rev sample_outcomes) 5"
  by (rule statistics_order_independent) (simp_all add: sample_outcomes_def)

end
