(* ===== verification/Repository.thy ===== *)
theory Repository
  imports TradeRecords Statistics "HOL-Library.AList"
begin

section \<open>The transactional repository\<close>

text \<open>
  \<^verbatim>\<open>persistence/sqlite_repository.py\<close> over the schema of \<^verbatim>\<open>migrations/0001_initial.sql\<close>.  The
  database is a record of tables, a table the list of its rows in insertion order.  A
  method that writes is a function from the database to the new one or an exception; an
  exception leaves the old database in place (\<^verbatim>\<open>ROLLBACK\<close>).  Constraints of the schema
  (primary and unique keys, foreign keys, the partial unique index on the active signal)
  raise \<open>IntegrityError\<close>, which most methods turn into \<open>DuplicateRecordError\<close>.

  Timestamps are stored as \<^verbatim>\<open>iso_utc\<close> text, that is, in whole seconds; the text compares as
  the instants do.  Decimals are stored with \<^verbatim>\<open>format(x, "f")\<close>, which is exact.  Generated row
  identifiers (\<^verbatim>\<open>uuid4\<close>) are left out; queries ordered by them are ordered by insertion
  instead, and \<open>statistics_order_independent\<close> shows that the difference is not observable.
\<close>

subsection \<open>Tables\<close>

record signal_row =
  r_signal_id :: string
  r_symbol :: string
  r_side :: side
  r_status :: signal_status
  r_setup_score :: int
  r_regime :: market_regime
  r_biases :: timeframe_biases
  r_created_at :: instant
  r_data_timestamp :: instant
  r_expires_at :: instant
  r_entry_low :: decimal
  r_entry_high :: decimal
  r_original_stop :: decimal
  r_cost_rate :: decimal
  r_minimum_planned_rr :: decimal
  r_invalidation_condition :: string
  r_expiration_condition :: string
  r_risk_percent :: decimal
  r_reasons :: "string list"
  r_risks :: "string list"
  r_strategy_version :: string
  r_updated_at :: instant
  r_row_version :: int

record target_row =
  g_signal_id :: string
  g_ordinal :: int
  g_price :: decimal
  g_planned_r :: decimal

record trade_row =
  d_signal_id :: string
  d_activated_at :: instant
  d_fill_price :: decimal
  d_entry_low :: decimal
  d_entry_high :: decimal
  d_original_stop :: decimal
  d_targets :: "(int \<times> decimal \<times> decimal) list"
  d_strategy_version :: string
  d_activation_key :: string

record track_row =
  k_signal_id :: string
  k_variant :: outcome_variant
  k_status :: track_status
  k_current_stop :: decimal
  k_remaining_fraction :: decimal
  k_realized_r :: decimal
  k_updated_at :: instant
  k_closed_at :: "instant option"
  k_row_version :: int

record event_row =
  e_signal_id :: string
  e_variant :: "outcome_variant option"
  e_type :: trade_event_type
  e_occurred_at :: instant
  e_price :: "decimal option"
  e_payload :: payload
  e_dedupe_key :: string

record decision_row =
  m_signal_id :: string
  m_decided_at :: instant
  m_action :: management_action
  m_current_price :: decimal
  m_unrealized_percent :: decimal
  m_unrealized_r :: decimal
  m_reason :: string
  m_updated_stop :: "decimal option"
  m_changes_managed_result :: bool
  m_strategy_version :: string
  m_evidence :: payload
  m_dedupe_key :: string

record outcome_row =
  o_signal_id :: string
  o_variant :: outcome_variant
  o_result :: outcome_result
  o_result_r :: decimal
  o_result_percent :: decimal
  o_close_reason :: string
  o_closed_at :: instant
  o_details :: payload

record snapshot_row =
  p_signal_id :: string
  p_variant :: outcome_variant
  p_calculated_at :: instant
  p_strategy_version :: string
  p_report :: statistics_report
  p_dedupe_key :: string

record checkpoint_row =
  h_key :: string
  h_last_processed_at :: instant
  h_payload :: payload
  h_row_version :: int

record setting_row =
  b_key :: string
  b_value :: string
  b_updated_at :: instant
  b_row_version :: int

record outbox_row =
  x_signal_id :: "string option"
  x_message_type :: string
  x_payload :: payload
  x_dedupe_key :: string
  x_created_at :: instant

record database =
  counters :: "(date \<times> int) list"
  signals :: "signal_row list"
  target_rows :: "target_row list"
  trades :: "trade_row list"
  tracks :: "track_row list"
  events :: "event_row list"
  decisions :: "decision_row list"
  outcomes :: "outcome_row list"
  snapshots :: "snapshot_row list"
  checkpoints :: "checkpoint_row list"
  settings :: "setting_row list"
  outbox :: "outbox_row list"

definition empty_database :: database where
  "empty_database = \<lparr>counters = [], signals = [], target_rows = [], trades = [], tracks = [], events = [],
     decisions = [], outcomes = [], snapshots = [], checkpoints = [], settings = [], outbox = []\<rparr>"

subsection \<open>Statements\<close>

text \<open>\<^verbatim>\<open>except sqlite3.IntegrityError as exc: raise e from exc\<close>.\<close>

definition on_integrity :: "exn \<Rightarrow> 'a result \<Rightarrow> 'a result" where
  "on_integrity e r = (case r of Inl (IntegrityError _) \<Rightarrow> Inl e | _ \<Rightarrow> r)"

definition one_active :: "signal_row list \<Rightarrow> bool" where
  "one_active rows \<longleftrightarrow> distinct (map r_symbol (filter (\<lambda>r. r_status r = ACTIVE) rows))"

definition find_signal :: "database \<Rightarrow> string \<Rightarrow> signal_row option" where
  "find_signal db sid = List.find (\<lambda>r. r_signal_id r = sid) (signals db)"

definition find_trade :: "database \<Rightarrow> string \<Rightarrow> trade_row option" where
  "find_trade db sid = List.find (\<lambda>d. d_signal_id d = sid) (trades db)"

definition find_track :: "database \<Rightarrow> string \<Rightarrow> outcome_variant \<Rightarrow> track_row option" where
  "find_track db sid v = List.find (\<lambda>k. k_signal_id k = sid \<and> k_variant k = v) (tracks db)"

definition find_checkpoint :: "database \<Rightarrow> string \<Rightarrow> checkpoint_row option" where
  "find_checkpoint db key = List.find (\<lambda>h. h_key h = key) (checkpoints db)"

definition target_rows_of :: "database \<Rightarrow> string \<Rightarrow> target_row list" where
  "target_rows_of db sid = sort_by (\<lambda>a b. g_ordinal a \<le> g_ordinal b) (filter (\<lambda>g. g_signal_id g = sid) (target_rows db))"

definition insert_signal_row :: "database \<Rightarrow> signal_row \<Rightarrow> database result" where
  "insert_signal_row db r =
     (if r_symbol r \<noteq> ''BTCUSDT'' \<or> \<not> (0 \<le> r_setup_score r \<and> r_setup_score r \<le> 100) \<or> r_row_version r < 1
      then Inl (IntegrityError ''CHECK constraint failed: signals'')
      else if find_signal db (r_signal_id r) \<noteq> None
      then Inl (IntegrityError ''UNIQUE constraint failed: signals.signal_id'')
      else if \<not> one_active (signals db @ [r])
      then Inl (IntegrityError ''UNIQUE constraint failed: signals.symbol'')
      else Inr (db\<lparr>signals := signals db @ [r]\<rparr>))"

definition insert_target_row :: "database \<Rightarrow> target_row \<Rightarrow> database result" where
  "insert_target_row db g =
     (if find_signal db (g_signal_id g) = None then Inl (IntegrityError ''FOREIGN KEY constraint failed'')
      else if \<not> (1 \<le> g_ordinal g \<and> g_ordinal g \<le> 3) then Inl (IntegrityError ''CHECK constraint failed: signal_targets'')
      else if list_ex (\<lambda>h. g_signal_id h = g_signal_id g \<and> g_ordinal h = g_ordinal g) (target_rows db)
      then Inl (IntegrityError ''UNIQUE constraint failed: signal_targets.signal_id, signal_targets.ordinal'')
      else Inr (db\<lparr>target_rows := target_rows db @ [g]\<rparr>))"

definition insert_trade :: "database \<Rightarrow> trade_row \<Rightarrow> database result" where
  "insert_trade db d =
     (if find_signal db (d_signal_id d) = None then Inl (IntegrityError ''FOREIGN KEY constraint failed'')
      else if find_trade db (d_signal_id d) \<noteq> None
      then Inl (IntegrityError ''UNIQUE constraint failed: trades.signal_id'')
      else if list_ex (\<lambda>x. d_activation_key x = d_activation_key d) (trades db)
      then Inl (IntegrityError ''UNIQUE constraint failed: trades.activation_event_key'')
      else Inr (db\<lparr>trades := trades db @ [d]\<rparr>))"

definition insert_track :: "database \<Rightarrow> track_row \<Rightarrow> database result" where
  "insert_track db k =
     (if find_trade db (k_signal_id k) = None then Inl (IntegrityError ''FOREIGN KEY constraint failed'')
      else if find_track db (k_signal_id k) (k_variant k) \<noteq> None
      then Inl (IntegrityError ''UNIQUE constraint failed: trade_tracks.signal_id, trade_tracks.variant'')
      else Inr (db\<lparr>tracks := tracks db @ [k]\<rparr>))"

definition insert_event :: "database \<Rightarrow> event_row \<Rightarrow> database result" where
  "insert_event db e =
     (if find_signal db (e_signal_id e) = None then Inl (IntegrityError ''FOREIGN KEY constraint failed'')
      else if list_ex (\<lambda>x. e_dedupe_key x = e_dedupe_key e) (events db)
      then Inl (IntegrityError ''UNIQUE constraint failed: trade_events.dedupe_key'')
      else Inr (db\<lparr>events := events db @ [e]\<rparr>))"

definition insert_outcome :: "database \<Rightarrow> outcome_row \<Rightarrow> database result" where
  "insert_outcome db r =
     (if find_trade db (o_signal_id r) = None then Inl (IntegrityError ''FOREIGN KEY constraint failed'')
      else if list_ex (\<lambda>x. o_signal_id x = o_signal_id r \<and> o_variant x = o_variant r) (outcomes db)
      then Inl (IntegrityError ''UNIQUE constraint failed: outcomes.signal_id, outcomes.variant'')
      else Inr (db\<lparr>outcomes := outcomes db @ [r]\<rparr>))"

definition insert_decision :: "database \<Rightarrow> decision_row \<Rightarrow> database result" where
  "insert_decision db m =
     (if find_trade db (m_signal_id m) = None then Inl (IntegrityError ''FOREIGN KEY constraint failed'')
      else if list_ex (\<lambda>x. m_dedupe_key x = m_dedupe_key m) (decisions db)
      then Inl (IntegrityError ''UNIQUE constraint failed: management_decisions.dedupe_key'')
      else Inr (db\<lparr>decisions := decisions db @ [m]\<rparr>))"

definition insert_snapshot :: "database \<Rightarrow> snapshot_row \<Rightarrow> database result" where
  "insert_snapshot db p =
     (if find_signal db (p_signal_id p) = None then Inl (IntegrityError ''FOREIGN KEY constraint failed'')
      else if list_ex (\<lambda>x. p_dedupe_key x = p_dedupe_key p) (snapshots db)
      then Inl (IntegrityError ''UNIQUE constraint failed: statistics_snapshots.dedupe_key'')
      else Inr (db\<lparr>snapshots := snapshots db @ [p]\<rparr>))"

fun insert_all :: "('s \<Rightarrow> 'r \<Rightarrow> 's result) \<Rightarrow> 's \<Rightarrow> 'r list \<Rightarrow> 's result" where
  "insert_all ins db [] = Inr db"
| "insert_all ins db (r # rs) = bind_result (ins db r) (\<lambda>db'. insert_all ins db' rs)"

text \<open>An \<^verbatim>\<open>UPDATE\<close> changes the rows that match and returns their number.\<close>

definition update_signals :: "database \<Rightarrow> (signal_row \<Rightarrow> bool) \<Rightarrow> (signal_row \<Rightarrow> signal_row) \<Rightarrow> (nat \<times> database) result" where
  "update_signals db P f =
     (let rows = map (\<lambda>r. if P r then f r else r) (signals db)
      in if \<not> one_active rows then Inl (IntegrityError ''UNIQUE constraint failed: signals.symbol'')
         else Inr (length (filter P (signals db)), db\<lparr>signals := rows\<rparr>))"

definition update_tracks :: "database \<Rightarrow> (track_row \<Rightarrow> bool) \<Rightarrow> (track_row \<Rightarrow> track_row) \<Rightarrow> nat \<times> database" where
  "update_tracks db P f =
     (length (filter P (tracks db)), db\<lparr>tracks := map (\<lambda>k. if P k then f k else k) (tracks db)\<rparr>)"

definition set_status :: "database \<Rightarrow> string \<Rightarrow> signal_status \<Rightarrow> int \<Rightarrow> signal_status \<Rightarrow> instant \<Rightarrow> (nat \<times> database) result" where
  "set_status db sid expected version new now =
     update_signals db
       (\<lambda>r. r_signal_id r = sid \<and> r_status r = expected \<and> r_row_version r = version)
       (\<lambda>r. r\<lparr>r_status := new, r_updated_at := whole_seconds now, r_row_version := r_row_version r + 1\<rparr>)"

subsection \<open>Identifiers and creation\<close>

definition counter_of :: "database \<Rightarrow> date \<Rightarrow> int" where
  "counter_of db d = (case map_of (counters db) d of None \<Rightarrow> 0 | Some n \<Rightarrow> n)"

definition allocate_signal_id :: "date \<Rightarrow> (database, string) program" where
  "allocate_signal_id d = (\<lambda>db.
     let n = counter_of db d + 1
     in (format_signal_id d n, db\<lparr>counters := AList.update d n (counters db)\<rparr>))"

definition signal_row_of :: "signal \<Rightarrow> signal_row" where
  "signal_row_of s =
     (let t = terms s in
      \<lparr>r_signal_id = signal_id s, r_symbol = symbol t, r_side = side t, r_status = status s,
       r_setup_score = setup_score s, r_regime = regime s, r_biases = biases s,
       r_created_at = whole_seconds (created_at t), r_data_timestamp = whole_seconds (data_timestamp t),
       r_expires_at = whole_seconds (expires_at t), r_entry_low = entry_low t, r_entry_high = entry_high t,
       r_original_stop = original_stop t, r_cost_rate = estimated_round_trip_cost_rate t,
       r_minimum_planned_rr = minimum_planned_rr t, r_invalidation_condition = invalidation_condition t,
       r_expiration_condition = expiration_condition t, r_risk_percent = recommended_risk_percent t,
       r_reasons = reasons s, r_risks = risks s, r_strategy_version = strategy_version s,
       r_updated_at = whole_seconds (created_at t), r_row_version = row_version s\<rparr>)"

definition target_rows_for :: "signal \<Rightarrow> target_row list" where
  "target_rows_for s =
     map (\<lambda>t. \<lparr>g_signal_id = signal_id s, g_ordinal = t_ordinal t, g_price = t_price t,
               g_planned_r = planned_r_for (terms s) t\<rparr>) (targets (terms s))"

definition new_event :: "string \<Rightarrow> outcome_variant option \<Rightarrow> trade_event_type \<Rightarrow> instant \<Rightarrow> decimal option \<Rightarrow> payload \<Rightarrow> string \<Rightarrow> event_row" where
  "new_event sid v ty now price body key =
     \<lparr>e_signal_id = sid, e_variant = v, e_type = ty, e_occurred_at = whole_seconds now, e_price = price,
      e_payload = body, e_dedupe_key = key\<rparr>"

definition create_signal :: "signal \<Rightarrow> database \<Rightarrow> database result" where
  "create_signal s db =
     on_integrity (DuplicateRecordError (''Signal '' @ signal_id s @ '' already exists''))
       (bind_result (insert_signal_row db (signal_row_of s)) (\<lambda>db1.
        bind_result (insert_all insert_target_row db1 (target_rows_for s)) (\<lambda>db2.
        insert_event db2
          (new_event (signal_id s) None Ev_SIGNAL_CREATED (created_at (terms s)) None
             [(''strategy_version'', PV_text (strategy_version s))]
             (''signal:'' @ signal_id s @ '':created'')))))"

subsection \<open>Reading a lifecycle signal\<close>

definition not_found :: "string \<Rightarrow> exn" where
  "not_found sid = RecordNotFoundError (''Signal '' @ sid @ '' was not found'')"

definition track_name :: "string \<Rightarrow> outcome_variant \<Rightarrow> string" where
  "track_name sid v = ''Track '' @ sid @ ''/'' @ variant_value v"

definition get_signal_status :: "database \<Rightarrow> string \<Rightarrow> signal_status result" where
  "get_signal_status db sid =
     (case find_signal db sid of None \<Rightarrow> Inl (not_found sid) | Some r \<Rightarrow> Inr (r_status r))"

definition active_track_rows :: "database \<Rightarrow> string \<Rightarrow> track_row list" where
  "active_track_rows db sid =
     sort_by (\<lambda>a b. k_variant a \<le> k_variant b)
       (filter (\<lambda>k. k_signal_id k = sid \<and> k_status k = Track_ACTIVE) (tracks db))"

definition read_target :: "target_row \<Rightarrow> target result" where
  "read_target g = check_target \<lparr>t_ordinal = g_ordinal g, t_price = g_price g\<rparr>"

definition read_track :: "track_row \<Rightarrow> track_state result" where
  "read_track k = check_track_state \<lparr>ts_variant = k_variant k, ts_current_stop = k_current_stop k,
     ts_remaining_fraction = k_remaining_fraction k, ts_realized_r = k_realized_r k\<rparr>"

definition lifecycle_signal_of ::
  "signal_row \<Rightarrow> trade_row option \<Rightarrow> target list \<Rightarrow> track_state list \<Rightarrow> lifecycle_signal" where
  "lifecycle_signal_of r tr tgs tks =
     \<lparr>ls_signal_id = r_signal_id r, ls_status = r_status r, ls_side = r_side r,
      ls_created_at = r_created_at r, ls_expires_at = r_expires_at r,
      ls_entry_low = r_entry_low r, ls_entry_high = r_entry_high r,
      ls_original_stop = r_original_stop r, ls_targets = tgs,
      ls_cost_rate = r_cost_rate r, ls_risk_percent = r_risk_percent r,
      ls_fill_price = map_option d_fill_price tr, ls_activated_at = map_option d_activated_at tr,
      ls_active_tracks = tks\<rparr>"

definition get_lifecycle_signal :: "database \<Rightarrow> string \<Rightarrow> lifecycle_signal result" where
  "get_lifecycle_signal db sid =
     (case find_signal db sid of
        None \<Rightarrow> Inl (not_found sid)
      | Some r \<Rightarrow>
          bind_result (map_result read_target (target_rows_of db sid)) (\<lambda>tgs.
          bind_result (map_result read_track (active_track_rows db sid)) (\<lambda>tks.
            check_lifecycle_signal (lifecycle_signal_of r (find_trade db sid) tgs tks))))"

subsection \<open>Transitions\<close>

definition get_signal_row :: "database \<Rightarrow> string \<Rightarrow> signal_row result" where
  "get_signal_row db sid = (case find_signal db sid of None \<Rightarrow> Inl (not_found sid) | Some r \<Rightarrow> Inr r)"

definition trade_row_of :: "signal_row \<Rightarrow> target_row list \<Rightarrow> decimal \<Rightarrow> instant \<Rightarrow> string \<Rightarrow> trade_row" where
  "trade_row_of row tgs fill occurred_at key =
     \<lparr>d_signal_id = r_signal_id row, d_activated_at = whole_seconds occurred_at, d_fill_price = fill,
      d_entry_low = r_entry_low row, d_entry_high = r_entry_high row, d_original_stop = r_original_stop row,
      d_targets = map (\<lambda>g. (g_ordinal g, g_price g, g_planned_r g)) tgs,
      d_strategy_version = r_strategy_version row, d_activation_key = key\<rparr>"

definition track_row_of :: "signal_row \<Rightarrow> instant \<Rightarrow> outcome_variant \<Rightarrow> track_row" where
  "track_row_of row occurred_at v =
     \<lparr>k_signal_id = r_signal_id row, k_variant = v, k_status = Track_ACTIVE,
      k_current_stop = r_original_stop row, k_remaining_fraction = 1, k_realized_r = 0,
      k_updated_at = whole_seconds occurred_at, k_closed_at = None, k_row_version = 1\<rparr>"

definition activate_signal :: "string \<Rightarrow> decimal \<Rightarrow> instant \<Rightarrow> string \<Rightarrow> database \<Rightarrow> database result" where
  "activate_signal sid fill occurred_at key db =
     (if fill \<le> 0 then Inl (ValueError ''fill_price must be positive'')
      else on_integrity (DuplicateRecordError ''Activation was duplicated or another BTC signal is already active'')
       (bind_result (get_signal_row db sid) (\<lambda>row.
        bind_result (assert_transition (r_status row) ACTIVE) (\<lambda>_.
        bind_result (transition_event (r_status row) ACTIVE) (\<lambda>event.
        bind_result (set_status db sid PENDING (r_row_version row) ACTIVE occurred_at) (\<lambda>(count, db1).
          if count \<noteq> 1 then Inl (ConcurrencyError ''Signal changed during activation'')
          else
        bind_result (insert_trade db1 (trade_row_of row (target_rows_of db1 sid) fill occurred_at key)) (\<lambda>db2.
        bind_result (insert_all insert_track db2 (map (track_row_of row occurred_at) [FIXED, MANAGED])) (\<lambda>db3.
        insert_event db3
          (new_event sid None event occurred_at (Some fill) [(''fill_policy'', PV_text ''conservative-v1'')] key)))))))))"

text \<open>\<^verbatim>\<open>_transition_pending\<close> does not catch \<^verbatim>\<open>IntegrityError\<close>.\<close>

definition transition_pending :: "string \<Rightarrow> signal_status \<Rightarrow> instant \<Rightarrow> string \<Rightarrow> database \<Rightarrow> database result" where
  "transition_pending sid new occurred_at key db =
     bind_result (get_signal_row db sid) (\<lambda>row.
     bind_result (assert_transition (r_status row) new) (\<lambda>_.
     bind_result (transition_event (r_status row) new) (\<lambda>event.
     bind_result (set_status db sid PENDING (r_row_version row) new occurred_at) (\<lambda>(count, db1).
       if count \<noteq> 1 then Inl (ConcurrencyError ''Signal changed during lifecycle transition'')
       else insert_event db1 (new_event sid None event occurred_at None [] key)))))"

definition expire_signal :: "string \<Rightarrow> instant \<Rightarrow> string \<Rightarrow> database \<Rightarrow> database result" where
  "expire_signal sid occurred_at key db = transition_pending sid EXPIRED occurred_at key db"

definition cancel_signal :: "string \<Rightarrow> instant \<Rightarrow> string \<Rightarrow> database \<Rightarrow> database result" where
  "cancel_signal sid occurred_at key db = transition_pending sid CANCELLED occurred_at key db"

subsection \<open>Tracks, events and outcomes\<close>

definition require_active_track :: "database \<Rightarrow> string \<Rightarrow> outcome_variant \<Rightarrow> track_row result" where
  "require_active_track db sid v =
     (case find_track db sid v of
        None \<Rightarrow> Inl (RecordNotFoundError (track_name sid v @ '' was not found''))
      | Some k \<Rightarrow>
          if k_status k \<noteq> Track_ACTIVE then Inl (ConcurrencyError (track_name sid v @ '' is already closed'')) else Inr k)"

definition get_track_status :: "database \<Rightarrow> string \<Rightarrow> outcome_variant \<Rightarrow> track_status result" where
  "get_track_status db sid v =
     (case find_track db sid v of
        None \<Rightarrow> Inl (RecordNotFoundError (track_name sid v @ '' was not found''))
      | Some k \<Rightarrow> Inr (k_status k))"

definition append_trade_event ::
  "string \<Rightarrow> outcome_variant \<Rightarrow> trade_event_type \<Rightarrow> instant \<Rightarrow> decimal \<Rightarrow> string \<Rightarrow> payload \<Rightarrow> database \<Rightarrow> database result" where
  "append_trade_event sid v ty occurred_at price key body db =
     (if ty \<in> {Ev_SIGNAL_CREATED, Ev_ENTRY_ACTIVATED, Ev_ENTRY_EXPIRED, Ev_SIGNAL_CANCELLED, Ev_CLOSED}
      then Inl (ValueError ''This event is owned by a lifecycle operation'')
      else on_integrity (DuplicateRecordError (''Event '' @ key @ '' already exists''))
        (bind_result (require_active_track db sid v) (\<lambda>_.
         insert_event db (new_event sid (Some v) ty occurred_at (Some price) body key))))"

definition close_events :: "trade_event_type set" where
  "close_events = {Ev_TP1_HIT, Ev_TP2_HIT, Ev_TP3_HIT, Ev_STOP_LOSS_HIT, Ev_BREAK_EVEN, Ev_EARLY_EXIT}"

definition result_value :: "outcome_result \<Rightarrow> string" where
  "result_value r = (case r of WIN \<Rightarrow> ''WIN'' | LOSS \<Rightarrow> ''LOSS'' | BREAK_EVEN \<Rightarrow> ''BREAK_EVEN'' | EARLY_EXIT \<Rightarrow> ''EARLY_EXIT'')"

text \<open>The rows of \<^verbatim>\<open>outcomes JOIN signals\<close> as samples, by closing time.\<close>

definition sample_of :: "database \<Rightarrow> outcome_row \<Rightarrow> outcome_sample result" where
  "sample_of db r =
     check_outcome_sample
       \<lparr>sm_signal_id = o_signal_id r, sm_variant = o_variant r, sm_result = o_result r, sm_result_r = o_result_r r,
        sm_closed_at = o_closed_at r,
        sm_strategy_version = (case find_signal db (o_signal_id r) of None \<Rightarrow> [] | Some s \<Rightarrow> r_strategy_version s)\<rparr>"

definition joined_outcomes :: "database \<Rightarrow> outcome_row list" where
  "joined_outcomes db =
     sort_by (\<lambda>a b. o_closed_at a \<le> o_closed_at b)
       (filter (\<lambda>r. find_signal db (o_signal_id r) \<noteq> None) (outcomes db))"

definition list_outcome_samples :: "database \<Rightarrow> instant option \<Rightarrow> instant option \<Rightarrow> outcome_sample list result" where
  "list_outcome_samples db start_at end_at =
     map_result (sample_of db)
       (filter (\<lambda>r. (case start_at of None \<Rightarrow> True | Some t \<Rightarrow> whole_seconds t \<le> o_closed_at r)
                  \<and> (case end_at of None \<Rightarrow> True | Some t \<Rightarrow> o_closed_at r < whole_seconds t))
          (joined_outcomes db))"

definition snapshot_key :: "string \<Rightarrow> outcome_variant \<Rightarrow> string" where
  "snapshot_key sid v = ''statistics:'' @ sid @ '':'' @ variant_value v @ '':statistics-v0.9.0''"

definition insert_statistics_snapshot :: "string \<Rightarrow> outcome_variant \<Rightarrow> instant \<Rightarrow> database \<Rightarrow> database result" where
  "insert_statistics_snapshot sid v calculated_at db =
     bind_result (map_result (sample_of db) (joined_outcomes db)) (\<lambda>samples.
     bind_result (calculate_statistics samples calculated_at) (\<lambda>report.
       insert_snapshot db
         \<lparr>p_signal_id = sid, p_variant = v, p_calculated_at = whole_seconds calculated_at,
          p_strategy_version = ''statistics-v0.9.0'', p_report = report, p_dedupe_key = snapshot_key sid v\<rparr>))"

text \<open>The keyword arguments of \<^verbatim>\<open>close_track\<close>.\<close>

record track_close =
  tc_signal_id :: string
  tc_variant :: outcome_variant
  tc_result :: outcome_result
  tc_result_r :: decimal
  tc_result_percent :: decimal
  tc_close_reason :: string
  tc_close_event :: trade_event_type
  tc_price :: decimal
  tc_occurred_at :: instant
  tc_dedupe_key :: string
  tc_details :: payload

definition outcome_row_of :: "track_close \<Rightarrow> outcome_row" where
  "outcome_row_of c =
     \<lparr>o_signal_id = tc_signal_id c, o_variant = tc_variant c, o_result = tc_result c, o_result_r = tc_result_r c,
      o_result_percent = tc_result_percent c, o_close_reason = tc_close_reason c,
      o_closed_at = whole_seconds (tc_occurred_at c), o_details = tc_details c\<rparr>"

text \<open>The part of \<^verbatim>\<open>close_track\<close> that closes the signal with its managed track.\<close>

definition close_managed_signal :: "track_close \<Rightarrow> database \<Rightarrow> database result" where
  "close_managed_signal c db =
     (if tc_variant c = MANAGED then
        bind_result (get_signal_row db (tc_signal_id c)) (\<lambda>row.
        bind_result (assert_transition (r_status row) CLOSED) (\<lambda>_.
        bind_result (set_status db (tc_signal_id c) ACTIVE (r_row_version row) CLOSED (tc_occurred_at c)) (\<lambda>(n, db').
          if n \<noteq> 1 then Inl (ConcurrencyError ''Signal changed during managed close'') else Inr db')))
      else Inr db)"

text \<open>The row a track update selects, under optimistic concurrency, and the columns it sets.\<close>

definition track_matches :: "string \<Rightarrow> outcome_variant \<Rightarrow> track_row \<Rightarrow> track_row \<Rightarrow> bool" where
  "track_matches sid v track k \<longleftrightarrow> k_signal_id k = sid \<and> k_variant k = v \<and> k_status k = Track_ACTIVE
     \<and> k_row_version k = k_row_version track"

definition closed_fields :: "track_close \<Rightarrow> track_row \<Rightarrow> track_row" where
  "closed_fields c k =
     k\<lparr>k_status := Track_CLOSED, k_realized_r := tc_result_r c, k_closed_at := Some (whole_seconds (tc_occurred_at c)),
       k_updated_at := whole_seconds (tc_occurred_at c), k_row_version := k_row_version k + 1\<rparr>"

definition close_track :: "track_close \<Rightarrow> database \<Rightarrow> database result" where
  "close_track c db =
     (let sid = tc_signal_id c; v = tc_variant c in
      if tc_close_event c \<notin> close_events then Inl (ValueError ''close_event is not a permitted terminal event'')
      else if blank (tc_close_reason c) then Inl (ValueError ''close_reason is required'')
      else on_integrity (DuplicateRecordError (track_name sid v @ '' already has this close or outcome''))
       (bind_result (require_active_track db sid v) (\<lambda>track.
        let (count, db1) = update_tracks db (track_matches sid v track) (closed_fields c)
        in if count \<noteq> 1 then Inl (ConcurrencyError ''Trade track changed during close'')
        else
        bind_result (insert_outcome db1 (outcome_row_of c)) (\<lambda>db2.
        bind_result (insert_event db2
            (new_event sid (Some v) (tc_close_event c) (tc_occurred_at c) (Some (tc_price c))
               [(''result'', PV_text (result_value (tc_result c))), (''result_r'', PV_decimal (tc_result_r c))]
               (tc_dedupe_key c @ '':reason''))) (\<lambda>db3.
        bind_result (insert_event db3
            (new_event sid (Some v) Ev_CLOSED (tc_occurred_at c) (Some (tc_price c))
               [(''close_reason'', PV_text (tc_close_reason c))] (tc_dedupe_key c @ '':closed''))) (\<lambda>db4.
        bind_result (close_managed_signal c db4)
          (insert_statistics_snapshot sid v (tc_occurred_at c))))))))"

subsection \<open>Checkpoints, decisions, alerts, settings and reports\<close>

definition get_checkpoint :: "database \<Rightarrow> string \<Rightarrow> instant option" where
  "get_checkpoint db key = map_option h_last_processed_at (find_checkpoint db key)"

text \<open>The upsert moves a checkpoint only forwards.\<close>

definition advance_checkpoint :: "string \<Rightarrow> instant \<Rightarrow> payload \<Rightarrow> database \<Rightarrow> database result" where
  "advance_checkpoint key processed_at body db =
     (let now = whole_seconds processed_at in
      if blank key then Inl (ValueError ''checkpoint_key is required'')
      else Inr (db\<lparr>checkpoints :=
        (case find_checkpoint db key of
           None \<Rightarrow> checkpoints db @ [\<lparr>h_key = key, h_last_processed_at = now, h_payload = body, h_row_version = 1\<rparr>]
         | Some _ \<Rightarrow>
             map (\<lambda>h. if h_key h = key \<and> h_last_processed_at h < now
                      then h\<lparr>h_last_processed_at := now, h_payload := body, h_row_version := h_row_version h + 1\<rparr>
                      else h) (checkpoints db))\<rparr>))"

definition decision_row_of :: "management_decision \<Rightarrow> decision_row" where
  "decision_row_of d =
     \<lparr>m_signal_id = md_signal_id d, m_decided_at = whole_seconds (md_decided_at d), m_action = md_action d,
      m_current_price = md_current_price d, m_unrealized_percent = md_unrealized_percent d,
      m_unrealized_r = md_unrealized_r d, m_reason = md_reason d, m_updated_stop = md_updated_stop d,
      m_changes_managed_result = md_changes_managed_result d, m_strategy_version = md_strategy_version d,
      m_evidence = md_evidence d, m_dedupe_key = md_dedupe_key d\<rparr>"

definition action_value :: "management_action \<Rightarrow> string" where
  "action_value a = (case a of HOLD \<Rightarrow> ''HOLD'' | MOVE_STOP_TO_BREAK_EVEN \<Rightarrow> ''MOVE_STOP_TO_BREAK_EVEN''
     | REDUCE_POSITION \<Rightarrow> ''REDUCE_POSITION'' | TAKE_PARTIAL_PROFIT \<Rightarrow> ''TAKE_PARTIAL_PROFIT''
     | TRAIL_STOP \<Rightarrow> ''TRAIL_STOP'' | CLOSE_POSITION_NOW \<Rightarrow> ''CLOSE_POSITION_NOW''
     | CANCEL_PENDING_ENTRY \<Rightarrow> ''CANCEL_PENDING_ENTRY'')"

definition value_or :: "'a \<Rightarrow> 'a option \<Rightarrow> 'a" where
  "value_or d x = (case x of None \<Rightarrow> d | Some y \<Rightarrow> y)"

definition decided_fields :: "management_decision \<Rightarrow> track_row \<Rightarrow> track_row \<Rightarrow> track_row" where
  "decided_fields d track k =
     k\<lparr>k_current_stop := value_or (k_current_stop track) (md_updated_stop d),
       k_remaining_fraction := value_or (k_remaining_fraction track) (md_remaining_fraction_after d),
       k_realized_r := value_or (k_realized_r track) (md_realized_r_after d),
       k_updated_at := whole_seconds (md_decided_at d), k_row_version := k_row_version k + 1\<rparr>"

definition apply_management_decision :: "management_decision \<Rightarrow> database \<Rightarrow> database result" where
  "apply_management_decision d db =
     (let sid = md_signal_id d in
      on_integrity (DuplicateRecordError (''Management decision '' @ md_dedupe_key d @ '' already exists''))
       (bind_result (require_active_track db sid MANAGED) (\<lambda>track.
        let (count, db1) =
              (if md_changes_managed_result d then
                 update_tracks db (track_matches sid MANAGED track) (decided_fields d track)
               else (1, db))
        in if count \<noteq> 1 then Inl (ConcurrencyError ''Managed track changed during decision'')
        else
        bind_result (insert_decision db1 (decision_row_of d)) (\<lambda>db2.
        insert_event db2
          (new_event sid (Some MANAGED) Ev_MANAGEMENT_DECISION (md_decided_at d) (Some (md_current_price d))
             [(''action'', PV_text (action_value (md_action d))),
              (''changes_managed_result'', PV_bool (md_changes_managed_result d)),
              (''strategy_version'', PV_text (md_strategy_version d))]
             (md_dedupe_key d @ '':event''))))))"

definition management_decision_exists :: "database \<Rightarrow> string \<Rightarrow> bool" where
  "management_decision_exists db key = list_ex (\<lambda>m. m_dedupe_key m = key) (decisions db)"

text \<open>\<^verbatim>\<open>ORDER BY calculated_at DESC, rowid DESC LIMIT 1\<close>: the last of the latest.\<close>

definition latest_statistics_snapshot :: "database \<Rightarrow> snapshot_row option" where
  "latest_statistics_snapshot db =
     fold (\<lambda>p best. case best of None \<Rightarrow> Some p
             | Some b \<Rightarrow> if p_calculated_at b \<le> p_calculated_at p then Some p else Some b) (snapshots db) None"

definition count_events :: "database \<Rightarrow> string \<Rightarrow> nat" where
  "count_events db sid = count_where (\<lambda>e. e_signal_id e = sid) (events db)"

definition enqueue_alert :: "string \<Rightarrow> payload \<Rightarrow> string \<Rightarrow> instant \<Rightarrow> string option \<Rightarrow> database \<Rightarrow> database result" where
  "enqueue_alert message_type body key now sid db =
     on_integrity (DuplicateRecordError (''Alert '' @ key @ '' already exists''))
       (if (case sid of None \<Rightarrow> False | Some s \<Rightarrow> find_signal db s = None)
        then Inl (IntegrityError ''FOREIGN KEY constraint failed'')
        else if list_ex (\<lambda>x. x_dedupe_key x = key) (outbox db)
        then Inl (IntegrityError ''UNIQUE constraint failed: outbox.dedupe_key'')
        else Inr (db\<lparr>outbox := outbox db @ [\<lparr>x_signal_id = sid, x_message_type = message_type, x_payload = body,
               x_dedupe_key = key, x_created_at = whole_seconds now\<rparr>]\<rparr>))"

definition count_outbox :: "database \<Rightarrow> nat" where
  "count_outbox db = length (outbox db)"

text \<open>Setting keys are stripped and upper-cased; keys that name secrets are refused.\<close>

definition to_upper :: "char \<Rightarrow> char" where
  "to_upper c = (let n = (of_char c :: nat) in if 97 \<le> n \<and> n \<le> 122 then char_of (n - 32) else c)"

definition strip :: "string \<Rightarrow> string" where
  "strip s = rev (dropWhile is_space (rev (dropWhile is_space s)))"

definition contains_text :: "string \<Rightarrow> string \<Rightarrow> bool" where
  "contains_text part s = list_ex (\<lambda>i. take (length part) (drop i s) = part) [0..<Suc (length s)]"

definition sensitive_setting_parts :: "string list" where
  "sensitive_setting_parts = [''TOKEN'', ''SECRET'', ''PASSWORD'', ''API_KEY'', ''AUTHORIZATION'', ''SIGNATURE'',
     ''CHAT_ID'', ''USER_ID'']"

definition setting_key :: "string \<Rightarrow> string" where
  "setting_key key = map to_upper (strip key)"

definition find_setting :: "database \<Rightarrow> string \<Rightarrow> setting_row option" where
  "find_setting db key = List.find (\<lambda>b. b_key b = key) (settings db)"

definition put_setting :: "string \<Rightarrow> string \<Rightarrow> instant \<Rightarrow> database \<Rightarrow> database result" where
  "put_setting key val now db =
     (let normalized = setting_key key in
      if normalized = [] \<or> list_ex (\<lambda>part. contains_text part normalized) sensitive_setting_parts
      then Inl (SecurityError ''Secrets and identity values cannot be stored in bot_settings'')
      else Inr (db\<lparr>settings :=
        (case find_setting db normalized of
           None \<Rightarrow> settings db @ [\<lparr>b_key = normalized, b_value = val, b_updated_at = whole_seconds now, b_row_version = 1\<rparr>]
         | Some _ \<Rightarrow>
             map (\<lambda>b. if b_key b = normalized
                      then b\<lparr>b_value := val, b_updated_at := whole_seconds now, b_row_version := b_row_version b + 1\<rparr>
                      else b) (settings db))\<rparr>))"

definition get_setting :: "database \<Rightarrow> string \<Rightarrow> string option" where
  "get_setting db key = map_option b_value (find_setting db (setting_key key))"

definition track_is_active :: "track_row option \<Rightarrow> bool" where
  "track_is_active k \<longleftrightarrow> (case k of None \<Rightarrow> False | Some t \<Rightarrow> k_status t = Track_ACTIVE)"

definition report_signal_of :: "database \<Rightarrow> signal_row \<Rightarrow> report_signal result" where
  "report_signal_of db r =
     (let sid = r_signal_id r; managed = find_track db sid MANAGED; fixed = find_track db sid FIXED in
      bind_result (map_result read_target (target_rows_of db sid)) (\<lambda>tgs.
        check_report_signal
          \<lparr>rs_signal_id = sid, rs_status = r_status r, rs_side = r_side r, rs_regime = r_regime r,
           rs_setup_score = r_setup_score r, rs_created_at = r_created_at r, rs_expires_at = r_expires_at r,
           rs_entry_low = r_entry_low r, rs_entry_high = r_entry_high r, rs_original_stop = r_original_stop r,
           rs_targets = tgs, rs_strategy_version = r_strategy_version r,
           rs_fill_price = map_option d_fill_price (find_trade db sid),
           rs_activated_at = map_option d_activated_at (find_trade db sid),
           rs_managed_stop = map_option k_current_stop managed,
           rs_fixed_track_active = track_is_active fixed, rs_managed_track_active = track_is_active managed\<rparr>))"

definition list_report_signals :: "database \<Rightarrow> signal_status \<Rightarrow> report_signal list result" where
  "list_report_signals db st =
     (if st \<notin> {ACTIVE, PENDING} then Inl (ValueError ''Reports can list only ACTIVE or PENDING signals'')
      else map_result (report_signal_of db)
        (sort_by (\<lambda>a b. r_created_at a < r_created_at b
                    \<or> r_created_at a = r_created_at b \<and> r_signal_id a \<le> r_signal_id b)
           (filter (\<lambda>r. r_status r = st) (signals db))))"

end
