(* ===== verification/RepositoryLaws.thy ===== *)
theory RepositoryLaws
  imports Repository "HOL-Library.Sublist"
begin

section \<open>What each statement and method of the repository does\<close>

text \<open>
  The rows are looked up by key (\<open>find_signal\<close>, \<open>find_trade\<close>, \<open>find_track\<close>,
  \<open>find_outcome\<close>), and every statement is described by its effect on these lookups.  The
  laws of the methods follow by composing those of their statements.
\<close>

named_theorems statement_laws \<open>effects of the statements on the lookups\<close>

definition find_outcome :: "database \<Rightarrow> string \<Rightarrow> outcome_variant \<Rightarrow> outcome_row option" where
  "find_outcome db sid v = List.find (\<lambda>r. o_signal_id r = sid \<and> o_variant r = v) (outcomes db)"

lemmas find_defs = find_signal_def find_trade_def find_track_def find_outcome_def find_checkpoint_def

lemma find_snoc: "List.find P (xs @ [x]) = (case List.find P xs of None \<Rightarrow> if P x then Some x else None | Some y \<Rightarrow> Some y)"
  by (induction xs) auto

lemma find_map_keep: "(\<And>x. P (f x) = P x) \<Longrightarrow> List.find P (map f xs) = map_option f (List.find P xs)"
  by (induction xs) auto

lemma find_key_distinct:
  "distinct (map key xs) \<Longrightarrow> x \<in> set xs \<Longrightarrow> List.find (\<lambda>y. key y = key x) xs = Some x"
  by (induction xs) auto

lemma filter_key_distinct:
  assumes "distinct (map key xs)" "List.find (\<lambda>y. key y = k) xs = Some x" "P x" "\<And>y. P y \<Longrightarrow> key y = k"
  shows "filter P xs = [x]"
  using assms
proof (induction xs)
  case (Cons y ys)
  show ?case
  proof (cases "key y = k")
    case True
    then have "x = y" using Cons.prems by simp
    moreover have "filter P ys = []"
      using Cons.prems(1,4) True by (auto simp: filter_empty_conv) (metis image_eqI)
    ultimately show ?thesis using Cons.prems(3) by simp
  next
    case False
    then have "\<not> P y" "List.find (\<lambda>y. key y = k) ys = Some x" using Cons.prems by auto
    then show ?thesis using Cons by simp
  qed
qed simp

text \<open>Updating the row found under a key changes the lookup at that key only.\<close>

lemma find_update:
  assumes "distinct (map key xs)" "List.find (\<lambda>y. key y = k) xs = Some x" "P x" "\<And>y. P y \<Longrightarrow> key y = k"
    and "\<And>y. key (f y) = key y"
  shows "List.find (\<lambda>y. key y = j) (map (\<lambda>y. if P y then f y else y) xs) =
           (if j = k then Some (f x) else List.find (\<lambda>y. key y = j) xs)"
  using assms(1-4)
proof (induction xs)
  case (Cons y ys)
  show ?case
  proof (cases "key y = k")
    case True
    then have x: "x = y" using Cons.prems by simp
    have "\<And>z. z \<in> set ys \<Longrightarrow> \<not> P z" using Cons.prems(1,4) True by (auto simp: image_iff)
    then have "map (\<lambda>y. if P y then f y else y) ys = ys" by (simp add: map_idI)
    then show ?thesis using x True Cons.prems(3) assms(5) by simp
  next
    case False
    then have "\<not> P y" "List.find (\<lambda>y. key y = k) ys = Some x" using Cons.prems by auto
    then show ?thesis using Cons False assms(5) by auto
  qed
qed simp

lemma signal_row_of_fields [simp]:
  "r_signal_id (signal_row_of s) = signal_id s" "r_symbol (signal_row_of s) = symbol (terms s)"
  "r_side (signal_row_of s) = side (terms s)" "r_status (signal_row_of s) = status s"
  "r_setup_score (signal_row_of s) = setup_score s"
  "r_created_at (signal_row_of s) = whole_seconds (created_at (terms s))"
  "r_expires_at (signal_row_of s) = whole_seconds (expires_at (terms s))"
  "r_entry_low (signal_row_of s) = entry_low (terms s)" "r_entry_high (signal_row_of s) = entry_high (terms s)"
  "r_original_stop (signal_row_of s) = original_stop (terms s)"
  "r_cost_rate (signal_row_of s) = estimated_round_trip_cost_rate (terms s)"
  "r_risk_percent (signal_row_of s) = recommended_risk_percent (terms s)"
  "r_strategy_version (signal_row_of s) = strategy_version s" "r_row_version (signal_row_of s) = row_version s"
  by (simp_all add: signal_row_of_def Let_def)

subsection \<open>Statements\<close>

lemma on_integrity_Inr [simp]: "on_integrity e r = Inr x \<longleftrightarrow> r = Inr x"
  by (auto simp: on_integrity_def split: sum.splits exn.splits)

lemma find_key_None: "List.find (\<lambda>y. key y = k) xs = None \<longleftrightarrow> k \<notin> key ` set xs"
  by (auto simp: find_None_iff)

lemma insert_signal_row_law:
  assumes "insert_signal_row db r = Inr db'"
  shows "find_signal db (r_signal_id r) = None" "one_active (signals db @ [r])"
    "db' = db\<lparr>signals := signals db @ [r]\<rparr>"
    "find_signal db' sid = (if sid = r_signal_id r then Some r else find_signal db sid)"
proof -
  show n: "find_signal db (r_signal_id r) = None" and "one_active (signals db @ [r])"
    and d: "db' = db\<lparr>signals := signals db @ [r]\<rparr>"
    using assms by (auto simp: insert_signal_row_def split: if_splits)
  show "find_signal db' sid = (if sid = r_signal_id r then Some r else find_signal db sid)"
    using n by (auto simp: d find_signal_def find_snoc split: option.splits)
qed

lemma insert_trade_law:
  assumes "insert_trade db d = Inr db'"
  shows "find_signal db (d_signal_id d) \<noteq> None" "find_trade db (d_signal_id d) = None"
    "db' = db\<lparr>trades := trades db @ [d]\<rparr>"
    "find_trade db' sid = (if sid = d_signal_id d then Some d else find_trade db sid)"
proof -
  show "find_signal db (d_signal_id d) \<noteq> None" and n: "find_trade db (d_signal_id d) = None"
    and d: "db' = db\<lparr>trades := trades db @ [d]\<rparr>"
    using assms by (auto simp: insert_trade_def split: if_splits)
  show "find_trade db' sid = (if sid = d_signal_id d then Some d else find_trade db sid)"
    using n by (auto simp: d find_trade_def find_snoc split: option.splits)
qed

lemma insert_track_law:
  assumes "insert_track db k = Inr db'"
  shows "find_trade db (k_signal_id k) \<noteq> None" "find_track db (k_signal_id k) (k_variant k) = None"
    "db' = db\<lparr>tracks := tracks db @ [k]\<rparr>"
    "find_track db' sid v = (if sid = k_signal_id k \<and> v = k_variant k then Some k else find_track db sid v)"
proof -
  show "find_trade db (k_signal_id k) \<noteq> None" and n: "find_track db (k_signal_id k) (k_variant k) = None"
    and d: "db' = db\<lparr>tracks := tracks db @ [k]\<rparr>"
    using assms by (auto simp: insert_track_def split: if_splits)
  show "find_track db' sid v = (if sid = k_signal_id k \<and> v = k_variant k then Some k else find_track db sid v)"
    using n by (auto simp: d find_track_def find_snoc split: option.splits)
qed

lemma insert_outcome_law:
  assumes "insert_outcome db r = Inr db'"
  shows "find_trade db (o_signal_id r) \<noteq> None" "find_outcome db (o_signal_id r) (o_variant r) = None"
    "db' = db\<lparr>outcomes := outcomes db @ [r]\<rparr>"
    "find_outcome db' sid v = (if sid = o_signal_id r \<and> v = o_variant r then Some r else find_outcome db sid v)"
proof -
  show "find_trade db (o_signal_id r) \<noteq> None" and n: "find_outcome db (o_signal_id r) (o_variant r) = None"
    and d: "db' = db\<lparr>outcomes := outcomes db @ [r]\<rparr>"
    using assms by (auto simp: insert_outcome_def find_outcome_def find_None_iff list_ex_iff split: if_splits)
  show "find_outcome db' sid v = (if sid = o_signal_id r \<and> v = o_variant r then Some r else find_outcome db sid v)"
    using n by (auto simp: d find_outcome_def find_snoc split: option.splits)
qed

lemma insert_event_law:
  assumes "insert_event db e = Inr db'"
  shows "db' = db\<lparr>events := events db @ [e]\<rparr>" "e_dedupe_key e \<notin> e_dedupe_key ` set (events db)"
    "find_signal db (e_signal_id e) \<noteq> None"
  using assms by (auto simp: insert_event_def list_ex_iff split: if_splits)

lemma insert_decision_law:
  assumes "insert_decision db m = Inr db'"
  shows "db' = db\<lparr>decisions := decisions db @ [m]\<rparr>" "m_dedupe_key m \<notin> m_dedupe_key ` set (decisions db)"
  using assms by (auto simp: insert_decision_def list_ex_iff split: if_splits)

lemma insert_snapshot_law:
  assumes "insert_snapshot db p = Inr db'"
  shows "db' = db\<lparr>snapshots := snapshots db @ [p]\<rparr>" "p_dedupe_key p \<notin> p_dedupe_key ` set (snapshots db)"
  using assms by (auto simp: insert_snapshot_def list_ex_iff split: if_splits)

lemma insert_target_row_law:
  "insert_target_row db g = Inr db' \<Longrightarrow> db' = db\<lparr>target_rows := target_rows db @ [g]\<rparr>"
  by (auto simp: insert_target_row_def split: if_splits)

lemma insert_targets_law:
  "insert_all insert_target_row db gs = Inr db' \<Longrightarrow> db' = db\<lparr>target_rows := target_rows db @ gs\<rparr>"
proof (induction gs arbitrary: db)
  case (Cons g gs)
  from Cons.prems obtain db1 where "insert_target_row db g = Inr db1" "insert_all insert_target_row db1 gs = Inr db'"
    by (auto simp: bind_result_eq_Inr)
  with insert_target_row_law Cons.IH show ?case by fastforce
qed simp

text \<open>The lookups read one table each.\<close>

lemma find_frame [statement_laws, simp]:
  "find_signal (db\<lparr>target_rows := a\<rparr>) sid = find_signal db sid" "find_signal (db\<lparr>trades := b\<rparr>) sid = find_signal db sid"
  "find_signal (db\<lparr>tracks := c\<rparr>) sid = find_signal db sid" "find_signal (db\<lparr>events := d\<rparr>) sid = find_signal db sid"
  "find_signal (db\<lparr>decisions := e\<rparr>) sid = find_signal db sid" "find_signal (db\<lparr>outcomes := f\<rparr>) sid = find_signal db sid"
  "find_signal (db\<lparr>snapshots := g\<rparr>) sid = find_signal db sid" "find_signal (db\<lparr>checkpoints := h\<rparr>) sid = find_signal db sid"
  "find_signal (db\<lparr>settings := i\<rparr>) sid = find_signal db sid" "find_signal (db\<lparr>outbox := j\<rparr>) sid = find_signal db sid"
  "find_signal (db\<lparr>counters := k\<rparr>) sid = find_signal db sid"
  "find_trade (db\<lparr>target_rows := a\<rparr>) sid = find_trade db sid" "find_trade (db\<lparr>signals := l\<rparr>) sid = find_trade db sid"
  "find_trade (db\<lparr>tracks := c\<rparr>) sid = find_trade db sid" "find_trade (db\<lparr>events := d\<rparr>) sid = find_trade db sid"
  "find_trade (db\<lparr>decisions := e\<rparr>) sid = find_trade db sid" "find_trade (db\<lparr>outcomes := f\<rparr>) sid = find_trade db sid"
  "find_trade (db\<lparr>snapshots := g\<rparr>) sid = find_trade db sid" "find_trade (db\<lparr>checkpoints := h\<rparr>) sid = find_trade db sid"
  "find_trade (db\<lparr>settings := i\<rparr>) sid = find_trade db sid" "find_trade (db\<lparr>outbox := j\<rparr>) sid = find_trade db sid"
  "find_trade (db\<lparr>counters := k\<rparr>) sid = find_trade db sid"
  "find_track (db\<lparr>target_rows := a\<rparr>) sid v = find_track db sid v" "find_track (db\<lparr>signals := l\<rparr>) sid v = find_track db sid v"
  "find_track (db\<lparr>trades := b\<rparr>) sid v = find_track db sid v" "find_track (db\<lparr>events := d\<rparr>) sid v = find_track db sid v"
  "find_track (db\<lparr>decisions := e\<rparr>) sid v = find_track db sid v" "find_track (db\<lparr>outcomes := f\<rparr>) sid v = find_track db sid v"
  "find_track (db\<lparr>snapshots := g\<rparr>) sid v = find_track db sid v" "find_track (db\<lparr>checkpoints := h\<rparr>) sid v = find_track db sid v"
  "find_track (db\<lparr>settings := i\<rparr>) sid v = find_track db sid v" "find_track (db\<lparr>outbox := j\<rparr>) sid v = find_track db sid v"
  "find_track (db\<lparr>counters := k\<rparr>) sid v = find_track db sid v"
  "find_outcome (db\<lparr>target_rows := a\<rparr>) sid v = find_outcome db sid v" "find_outcome (db\<lparr>signals := l\<rparr>) sid v = find_outcome db sid v"
  "find_outcome (db\<lparr>trades := b\<rparr>) sid v = find_outcome db sid v" "find_outcome (db\<lparr>tracks := c\<rparr>) sid v = find_outcome db sid v"
  "find_outcome (db\<lparr>events := d\<rparr>) sid v = find_outcome db sid v" "find_outcome (db\<lparr>decisions := e\<rparr>) sid v = find_outcome db sid v"
  "find_outcome (db\<lparr>snapshots := g\<rparr>) sid v = find_outcome db sid v" "find_outcome (db\<lparr>checkpoints := h\<rparr>) sid v = find_outcome db sid v"
  "find_outcome (db\<lparr>settings := i\<rparr>) sid v = find_outcome db sid v" "find_outcome (db\<lparr>outbox := j\<rparr>) sid v = find_outcome db sid v"
  "find_outcome (db\<lparr>counters := k\<rparr>) sid v = find_outcome db sid v"
  by (simp_all add: find_signal_def find_trade_def find_track_def find_outcome_def)

lemma set_status_law:
  assumes "set_status db sid expected version new now = Inr (n, db')" "distinct (map r_signal_id (signals db))"
    "find_signal db sid = Some row" "r_status row = expected" "r_row_version row = version"
  defines "row' \<equiv> row\<lparr>r_status := new, r_updated_at := whole_seconds now, r_row_version := version + 1\<rparr>"
  shows "n = 1" "find_signal db' s = (if s = sid then Some row' else find_signal db s)"
    "one_active (signals db')" "\<exists>rows. db' = db\<lparr>signals := rows\<rparr> \<and> map r_signal_id rows = map r_signal_id (signals db)"
proof -
  define P where "P r \<longleftrightarrow> r_signal_id r = sid \<and> r_status r = expected \<and> r_row_version r = version" for r :: signal_row
  define f where "f r = r\<lparr>r_status := new, r_updated_at := whole_seconds now, r_row_version := r_row_version r + 1\<rparr>" for r :: signal_row
  have e0: "set_status db sid expected version new now = update_signals db P f"
    by (simp add: set_status_def P_def [abs_def] f_def [abs_def])
  have e: "n = length (filter P (signals db))" "db' = db\<lparr>signals := map (\<lambda>r. if P r then f r else r) (signals db)\<rparr>"
    "one_active (map (\<lambda>r. if P r then f r else r) (signals db))"
    using assms(1) unfolding e0 by (auto simp: update_signals_def Let_def split: if_splits)
  have found: "List.find (\<lambda>r. r_signal_id r = sid) (signals db) = Some row" using assms(3) by (simp add: find_signal_def)
  have P: "P row" using find_SomeD [OF found] assms(4,5) by (simp add: P_def)
  have k: "P r \<Longrightarrow> r_signal_id r = sid" "r_signal_id (f r) = r_signal_id r" for r by (simp_all add: P_def f_def)
  show "n = 1" unfolding e(1) using filter_key_distinct [where P = P, OF assms(2) found P k(1)] by simp
  have "f row = row'" using assms(5) by (simp add: f_def row'_def)
  then show "find_signal db' s = (if s = sid then Some row' else find_signal db s)"
    unfolding e(2) find_signal_def using find_update [where P = P and f = f, OF assms(2) found P k] by simp
  show "one_active (signals db')" using e(2,3) by simp
  show "\<exists>rows. db' = db\<lparr>signals := rows\<rparr> \<and> map r_signal_id rows = map r_signal_id (signals db)"
    unfolding e(2) by (rule exI [of _ "map (\<lambda>r. if P r then f r else r) (signals db)"]) (auto simp: k)
qed

lemma update_tracks_law:
  assumes "update_tracks db P f = (n, db')" "distinct (map (\<lambda>k. (k_signal_id k, k_variant k)) (tracks db))"
    "find_track db sid v = Some k" "P k" "\<And>x. P x \<Longrightarrow> k_signal_id x = sid \<and> k_variant x = v"
    "\<And>x. k_signal_id (f x) = k_signal_id x \<and> k_variant (f x) = k_variant x"
  shows "n = 1" "find_track db' s w = (if s = sid \<and> w = v then Some (f k) else find_track db s w)"
    "\<exists>rows. db' = db\<lparr>tracks := rows\<rparr> \<and> map (\<lambda>k. (k_signal_id k, k_variant k)) rows = map (\<lambda>k. (k_signal_id k, k_variant k)) (tracks db)"
proof -
  let ?key = "\<lambda>k. (k_signal_id k, k_variant k)"
  have e: "n = length (filter P (tracks db))" "db' = db\<lparr>tracks := map (\<lambda>k. if P k then f k else k) (tracks db)\<rparr>"
    using assms(1) by (auto simp: update_tracks_def)
  have l: "find_track d s w = List.find (\<lambda>x. ?key x = (s, w)) (tracks d)" for d s w
    by (simp add: find_track_def)
  have kP: "P x \<Longrightarrow> ?key x = (sid, v)" "?key (f x) = ?key x" for x using assms(5,6) by auto
  note found = assms(3) [unfolded l]
  show "n = 1" unfolding e(1)
    using filter_key_distinct [where key = ?key and P = P, OF assms(2) found assms(4) kP(1)] by simp
  show "find_track db' s w = (if s = sid \<and> w = v then Some (f k) else find_track db s w)"
    unfolding e(2) l
    using find_update [where key = ?key and P = P and f = f and j = "(s, w)", OF assms(2) found assms(4) kP] by simp
  show "\<exists>rows. db' = db\<lparr>tracks := rows\<rparr> \<and> map ?key rows = map ?key (tracks db)"
    unfolding e(2) by (rule exI [of _ "map (\<lambda>k. if P k then f k else k) (tracks db)"]) (auto simp: assms(6))
qed

subsection \<open>Original terms never change\<close>

text \<open>A signal row without the columns the methods update.\<close>

definition original_row :: "signal_row \<Rightarrow> signal_row" where
  "original_row r = r\<lparr>r_status := PENDING, r_updated_at := 0, r_row_version := 0\<rparr>"

text \<open>
  \<open>extends db db'\<close>: the audit tables only grow at their end, and the signals keep their
  original columns.
\<close>

definition extends :: "database \<Rightarrow> database \<Rightarrow> bool" where
  "extends db db' \<longleftrightarrow>
     prefix (map original_row (signals db)) (map original_row (signals db'))
     \<and> prefix (target_rows db) (target_rows db') \<and> prefix (trades db) (trades db')
     \<and> prefix (events db) (events db') \<and> prefix (decisions db) (decisions db')
     \<and> prefix (outcomes db) (outcomes db') \<and> prefix (snapshots db) (snapshots db')
     \<and> prefix (outbox db) (outbox db')"

lemma extends_refl [simp]: "extends db db"
  by (simp add: extends_def)

lemma extends_trans: "extends a b \<Longrightarrow> extends b c \<Longrightarrow> extends a c"
  unfolding extends_def by (meson prefix_order.trans)

lemma extends_inserts:
  "insert_signal_row db r = Inr db1 \<Longrightarrow> extends db db1"
  "insert_all insert_target_row db gs = Inr db1 \<Longrightarrow> extends db db1"
  "insert_trade db d = Inr db1 \<Longrightarrow> extends db db1"
  "insert_track db k = Inr db1 \<Longrightarrow> extends db db1"
  "insert_event db e = Inr db1 \<Longrightarrow> extends db db1"
  "insert_decision db m = Inr db1 \<Longrightarrow> extends db db1"
  "insert_outcome db q = Inr db1 \<Longrightarrow> extends db db1"
  "insert_snapshot db p = Inr db1 \<Longrightarrow> extends db db1"
  using insert_signal_row_law(3) [of db r db1] insert_targets_law [of db gs db1] insert_trade_law(3) [of db d db1]
    insert_track_law(3) [of db k db1] insert_event_law(1) [of db e db1] insert_decision_law(1) [of db m db1]
    insert_outcome_law(3) [of db q db1] insert_snapshot_law(1) [of db p db1]
  by (auto simp: extends_def)

lemma extends_insert_tracks: "insert_all insert_track db ks = Inr db1 \<Longrightarrow> extends db db1"
proof (induction ks arbitrary: db)
  case (Cons k ks)
  then show ?case by (auto simp: bind_result_eq_Inr intro: extends_trans extends_inserts)
qed simp

lemma extends_set_status: "set_status db sid x ver new now = Inr (n, db1) \<Longrightarrow> extends db db1"
proof -
  assume s: "set_status db sid x ver new now = Inr (n, db1)"
  define g where "g r = (if r_signal_id r = sid \<and> r_status r = x \<and> r_row_version r = ver
      then r\<lparr>r_status := new, r_updated_at := whole_seconds now, r_row_version := r_row_version r + 1\<rparr> else r)"
    for r :: signal_row
  have "db1 = db\<lparr>signals := map g (signals db)\<rparr>"
    using s by (auto simp: set_status_def update_signals_def Let_def g_def [abs_def] split: if_splits)
  moreover have "original_row (g r) = original_row r" for r by (simp add: original_row_def g_def)
  ultimately show ?thesis by (simp add: extends_def o_def)
qed

lemma extends_update_tracks: "update_tracks db P f = (n, db1) \<Longrightarrow> extends db db1"
  by (auto simp: update_tracks_def extends_def)

lemmas extends_laws = extends_inserts extends_insert_tracks extends_set_status extends_update_tracks

lemma extends_transition_pending: "transition_pending sid new now key db = Inr db' \<Longrightarrow> extends db db'"
  by (auto simp: transition_pending_def bind_result_eq_Inr split: if_splits
      dest!: extends_laws intro: extends_trans)

lemma extends_activate: "activate_signal sid fill now key db = Inr db' \<Longrightarrow> extends db db'"
  unfolding activate_signal_def
  by (auto simp: bind_result_eq_Inr split: if_splits simp del: insert_all.simps
      dest!: extends_laws intro: extends_trans)

lemma extends_create: "create_signal s db = Inr db' \<Longrightarrow> extends db db'"
  by (auto simp: create_signal_def bind_result_eq_Inr dest!: extends_laws intro: extends_trans)

lemma extends_append_event: "append_trade_event sid v ty now p key body db = Inr db' \<Longrightarrow> extends db db'"
  by (auto simp: append_trade_event_def bind_result_eq_Inr split: if_splits dest!: extends_laws intro: extends_trans)

lemma extends_close_managed: "close_managed_signal c db = Inr db' \<Longrightarrow> extends db db'"
  by (auto simp: close_managed_signal_def bind_result_eq_Inr split: if_splits dest!: extends_laws intro: extends_trans)

lemma extends_snapshot: "insert_statistics_snapshot sid v now db = Inr db' \<Longrightarrow> extends db db'"
  by (auto simp: insert_statistics_snapshot_def bind_result_eq_Inr dest!: extends_laws intro: extends_trans)

text \<open>The intermediate databases of the longer methods.\<close>

definition reason_event :: "track_close \<Rightarrow> event_row" where
  "reason_event c = new_event (tc_signal_id c) (Some (tc_variant c)) (tc_close_event c) (tc_occurred_at c) (Some (tc_price c))
     [(''result'', PV_text (result_value (tc_result c))), (''result_r'', PV_decimal (tc_result_r c))]
     (tc_dedupe_key c @ '':reason'')"

definition closed_event :: "track_close \<Rightarrow> event_row" where
  "closed_event c = new_event (tc_signal_id c) (Some (tc_variant c)) Ev_CLOSED (tc_occurred_at c) (Some (tc_price c))
     [(''close_reason'', PV_text (tc_close_reason c))] (tc_dedupe_key c @ '':closed'')"

lemma close_track_steps:
  assumes "close_track c db = Inr db'"
  obtains track db1 db2 db3 db4 db5 where
    "tc_close_event c \<in> close_events" "\<not> blank (tc_close_reason c)"
    "require_active_track db (tc_signal_id c) (tc_variant c) = Inr track"
    "update_tracks db (track_matches (tc_signal_id c) (tc_variant c) track) (closed_fields c) = (1, db1)"
    "insert_outcome db1 (outcome_row_of c) = Inr db2" "insert_event db2 (reason_event c) = Inr db3"
    "insert_event db3 (closed_event c) = Inr db4" "close_managed_signal c db4 = Inr db5"
    "insert_statistics_snapshot (tc_signal_id c) (tc_variant c) (tc_occurred_at c) db5 = Inr db'"
proof -
  obtain track where t: "tc_close_event c \<in> close_events" "\<not> blank (tc_close_reason c)"
    "require_active_track db (tc_signal_id c) (tc_variant c) = Inr track"
    using assms by (auto simp: close_track_def Let_def bind_result_eq_Inr split: if_splits)
  obtain n db1 where u: "update_tracks db (track_matches (tc_signal_id c) (tc_variant c) track) (closed_fields c) = (n, db1)"
    by fastforce
  show thesis
    using assms t u that
    by (auto simp: close_track_def Let_def bind_result_eq_Inr reason_event_def closed_event_def split: if_splits)
qed

definition decision_event :: "management_decision \<Rightarrow> event_row" where
  "decision_event d = new_event (md_signal_id d) (Some MANAGED) Ev_MANAGEMENT_DECISION (md_decided_at d)
     (Some (md_current_price d))
     [(''action'', PV_text (action_value (md_action d))),
      (''changes_managed_result'', PV_bool (md_changes_managed_result d)),
      (''strategy_version'', PV_text (md_strategy_version d))] (md_dedupe_key d @ '':event'')"

lemma decision_steps:
  assumes "apply_management_decision d db = Inr db'"
  obtains track db1 db2 where
    "require_active_track db (md_signal_id d) MANAGED = Inr track"
    "(if md_changes_managed_result d
      then update_tracks db (track_matches (md_signal_id d) MANAGED track) (decided_fields d track) else (1, db)) = (1, db1)"
    "insert_decision db1 (decision_row_of d) = Inr db2" "insert_event db2 (decision_event d) = Inr db'"
proof -
  obtain track where t: "require_active_track db (md_signal_id d) MANAGED = Inr track"
    using assms by (auto simp: apply_management_decision_def Let_def bind_result_eq_Inr split: if_splits)
  obtain n db1 where u: "(if md_changes_managed_result d
      then update_tracks db (track_matches (md_signal_id d) MANAGED track) (decided_fields d track) else (1, db)) = (n, db1)"
    by fastforce
  show thesis
    using assms t u that
    by (auto simp: apply_management_decision_def Let_def bind_result_eq_Inr decision_event_def split: if_splits)
qed

lemma activate_steps:
  assumes "activate_signal sid fill now key db = Inr db'"
  obtains row db1 db2 db3 where
    "0 < fill" "find_signal db sid = Some row" "r_status row = PENDING"
    "set_status db sid PENDING (r_row_version row) ACTIVE now = Inr (1, db1)"
    "insert_trade db1 (trade_row_of row (target_rows_of db1 sid) fill now key) = Inr db2"
    "insert_all insert_track db2 (map (track_row_of row now) [FIXED, MANAGED]) = Inr db3"
    "insert_event db3 (new_event sid None Ev_ENTRY_ACTIVATED now (Some fill) [(''fill_policy'', PV_text ''conservative-v1'')] key) = Inr db'"
proof -
  obtain row e where r: "0 < fill" "find_signal db sid = Some row" "transition_event (r_status row) ACTIVE = Inr e"
    using assms by (auto simp: activate_signal_def get_signal_row_def bind_result_eq_Inr split: if_splits option.splits)
  then have s: "r_status row = PENDING" "e = Ev_ENTRY_ACTIVATED"
    by (cases "r_status row"; simp add: transition_event_def assert_transition_def transitions_def)+
  show thesis
    using assms r s that
    by (auto simp: activate_signal_def get_signal_row_def bind_result_eq_Inr simp del: insert_all.simps split: if_splits)
qed

lemma transition_steps:
  assumes "transition_pending sid new now key db = Inr db'" "new \<in> {EXPIRED, CANCELLED}"
  obtains row e db1 where
    "find_signal db sid = Some row" "r_status row = PENDING"
    "set_status db sid PENDING (r_row_version row) new now = Inr (1, db1)"
    "insert_event db1 (new_event sid None e now None [] key) = Inr db'"
proof -
  obtain row e where r: "find_signal db sid = Some row" "transition_event (r_status row) new = Inr e"
    using assms by (auto simp: transition_pending_def get_signal_row_def bind_result_eq_Inr split: option.splits)
  then have s: "r_status row = PENDING"
    using assms(2) by (cases "r_status row") (auto simp: transition_event_def assert_transition_def transitions_def)
  show thesis
    using assms r s that
    by (auto simp: transition_pending_def get_signal_row_def bind_result_eq_Inr split: if_splits)
qed

lemma close_managed_steps:
  assumes "close_managed_signal c db = Inr db'" "tc_variant c = MANAGED"
  obtains row where "find_signal db (tc_signal_id c) = Some row" "r_status row = ACTIVE"
    "set_status db (tc_signal_id c) ACTIVE (r_row_version row) CLOSED (tc_occurred_at c) = Inr (1, db')"
proof -
  obtain row where r: "find_signal db (tc_signal_id c) = Some row" "assert_transition (r_status row) CLOSED = Inr ()"
    using assms by (auto simp: close_managed_signal_def get_signal_row_def bind_result_eq_Inr split: option.splits)
  then have "r_status row = ACTIVE"
    by (cases "r_status row") (auto simp: assert_transition_def transitions_def)
  then show thesis
    using assms r that
    by (auto simp: close_managed_signal_def get_signal_row_def bind_result_eq_Inr split: if_splits)
qed

lemmas extends_close_laws = extends_laws extends_close_managed extends_snapshot

lemma extends_close: "close_track c db = Inr db' \<Longrightarrow> extends db db'"
  by (elim close_track_steps) (meson extends_close_laws extends_trans)

lemma extends_decision: "apply_management_decision d db = Inr db' \<Longrightarrow> extends db db'"
  by (elim decision_steps) (auto split: if_splits dest!: extends_laws intro: extends_trans)

lemma extends_others:
  "advance_checkpoint key now body db = Inr db' \<Longrightarrow> extends db db'"
  "enqueue_alert ty body key now s db = Inr db' \<Longrightarrow> extends db db'"
  "put_setting key val now db = Inr db' \<Longrightarrow> extends db db'"
  "extends db (snd (allocate_signal_id d db))"
  by (auto simp: advance_checkpoint_def enqueue_alert_def put_setting_def allocate_signal_id_def Let_def extends_def
      split: if_splits option.splits)

end
