(* ===== verification/RepositoryInvariant.thy ===== *)
theory RepositoryInvariant
  imports RepositoryLaws
begin

section \<open>The invariant of the repository\<close>

text \<open>
  \<open>db_ok\<close> relates the tables: keys are unique, at most one signal is active, every signal
  row carries validated terms with its target rows, trades and both tracks exist exactly for
  the signals that were activated, a track is closed exactly when it has an outcome (with
  the same R and a sign that fits its result), and the signal is closed exactly when its
  managed track is.  Every method of the repository keeps it.
\<close>

subsection \<open>Well-formed databases\<close>

definition valid_signal :: "signal \<Rightarrow> bool" where
  "valid_signal s \<longleftrightarrow> check_signal s = Inr s \<and> check_signal_terms (terms s) = Inr (terms s)
     \<and> list_all (\<lambda>t. check_target t = Inr t) (targets (terms s))"

definition target_rows_at :: "database \<Rightarrow> string \<Rightarrow> target_row list" where
  "target_rows_at db sid = filter (\<lambda>g. g_signal_id g = sid) (target_rows db)"

definition row_ok :: "database \<Rightarrow> signal_row \<Rightarrow> bool" where
  "row_ok db r \<longleftrightarrow> (\<exists>s. valid_signal s \<and> original_row r = original_row (signal_row_of s)
     \<and> target_rows_at db (r_signal_id r) = target_rows_for s)"

definition track_ok :: "track_row \<Rightarrow> bool" where
  "track_ok k \<longleftrightarrow> 0 < k_current_stop k \<and> 0 < k_remaining_fraction k \<and> k_remaining_fraction k \<le> 1"

definition outcome_signs :: "outcome_row \<Rightarrow> bool" where
  "outcome_signs r \<longleftrightarrow> (o_result r = WIN \<longrightarrow> 0 < o_result_r r) \<and> (o_result r = LOSS \<longrightarrow> o_result_r r < 0)
     \<and> (o_result r = BREAK_EVEN \<longrightarrow> o_result_r r = 0)"

definition track_outcome :: "track_row \<Rightarrow> outcome_row option \<Rightarrow> bool" where
  "track_outcome k out \<longleftrightarrow>
     (case k_status k of
        Track_ACTIVE \<Rightarrow> out = None
      | Track_CLOSED \<Rightarrow> (\<exists>r. out = Some r \<and> o_result_r r = k_realized_r k \<and> outcome_signs r))"

definition trade_ok :: "signal_row \<Rightarrow> trade_row \<Rightarrow> bool" where
  "trade_ok r d \<longleftrightarrow> 0 < d_fill_price d \<and> d_entry_low d = r_entry_low r \<and> d_entry_high d = r_entry_high r
     \<and> d_original_stop d = r_original_stop r \<and> d_strategy_version d = r_strategy_version r"

definition untraded :: "database \<Rightarrow> string \<Rightarrow> bool" where
  "untraded db sid \<longleftrightarrow> find_trade db sid = None \<and> (\<forall>v. find_track db sid v = None \<and> find_outcome db sid v = None)"

definition traded :: "database \<Rightarrow> string \<Rightarrow> signal_row \<Rightarrow> bool" where
  "traded db sid r \<longleftrightarrow> (\<exists>d. find_trade db sid = Some d \<and> trade_ok r d)
     \<and> (\<forall>v. \<exists>k. find_track db sid v = Some k \<and> track_ok k \<and> track_outcome k (find_outcome db sid v)
            \<and> (v = MANAGED \<longrightarrow> (k_status k = Track_ACTIVE \<longleftrightarrow> r_status r = ACTIVE)))"

definition sid_ok :: "database \<Rightarrow> string \<Rightarrow> bool" where
  "sid_ok db sid \<longleftrightarrow>
     (case find_signal db sid of
        None \<Rightarrow> untraded db sid \<and> target_rows_at db sid = []
      | Some r \<Rightarrow> r_signal_id r = sid \<and> row_ok db r
                 \<and> (if r_status r \<in> {ACTIVE, CLOSED} then traded db sid r else untraded db sid))"

definition keys_ok :: "database \<Rightarrow> bool" where
  "keys_ok db \<longleftrightarrow> distinct (map r_signal_id (signals db)) \<and> distinct (map (\<lambda>k. (k_signal_id k, k_variant k)) (tracks db))
     \<and> distinct (map d_signal_id (trades db)) \<and> distinct (map (\<lambda>r. (o_signal_id r, o_variant r)) (outcomes db))
     \<and> distinct (map e_dedupe_key (events db))"

definition db_ok :: "database \<Rightarrow> bool" where
  "db_ok db \<longleftrightarrow> keys_ok db \<and> one_active (signals db) \<and> (\<forall>sid. sid_ok db sid)"

lemma db_ok_keys: "db_ok db \<Longrightarrow> distinct (map r_signal_id (signals db))"
  "db_ok db \<Longrightarrow> distinct (map (\<lambda>k. (k_signal_id k, k_variant k)) (tracks db))"
  by (auto simp: db_ok_def keys_ok_def)

lemma empty_ok: "db_ok empty_database"
  by (simp add: db_ok_def keys_ok_def empty_database_def one_active_def sid_ok_def untraded_def find_defs target_rows_at_def)

text \<open>A database that looks the same from every signal but the one an operation names.\<close>

definition same_at :: "database \<Rightarrow> database \<Rightarrow> string \<Rightarrow> bool" where
  "same_at db db' sid \<longleftrightarrow> find_signal db' sid = find_signal db sid \<and> find_trade db' sid = find_trade db sid
     \<and> (\<forall>v. find_track db' sid v = find_track db sid v \<and> find_outcome db' sid v = find_outcome db sid v)
     \<and> target_rows_at db' sid = target_rows_at db sid"

lemma same_at_ok:
  assumes "same_at db db' sid" "sid_ok db sid"
  shows "sid_ok db' sid"
proof -
  have "r_signal_id r = sid \<Longrightarrow> row_ok db' r = row_ok db r" for r
    using assms(1) by (simp add: row_ok_def same_at_def)
  moreover have "untraded db' sid = untraded db sid" "traded db' sid r = traded db sid r" for r
    using assms(1) by (simp_all add: untraded_def traded_def same_at_def)
  ultimately show ?thesis using assms by (auto simp: sid_ok_def same_at_def split: option.splits)
qed

lemma target_rows_at_frame [simp]:
  "target_rows_at (db\<lparr>signals := a\<rparr>) sid = target_rows_at db sid" "target_rows_at (db\<lparr>trades := b\<rparr>) sid = target_rows_at db sid"
  "target_rows_at (db\<lparr>tracks := c\<rparr>) sid = target_rows_at db sid" "target_rows_at (db\<lparr>events := d\<rparr>) sid = target_rows_at db sid"
  "target_rows_at (db\<lparr>decisions := e\<rparr>) sid = target_rows_at db sid" "target_rows_at (db\<lparr>outcomes := f\<rparr>) sid = target_rows_at db sid"
  "target_rows_at (db\<lparr>snapshots := g\<rparr>) sid = target_rows_at db sid" "target_rows_at (db\<lparr>checkpoints := h\<rparr>) sid = target_rows_at db sid"
  "target_rows_at (db\<lparr>settings := i\<rparr>) sid = target_rows_at db sid" "target_rows_at (db\<lparr>outbox := j\<rparr>) sid = target_rows_at db sid"
  "target_rows_at (db\<lparr>counters := k\<rparr>) sid = target_rows_at db sid"
  by (simp_all add: target_rows_at_def)

lemma keys_ok_frame [simp]:
  "keys_ok (db\<lparr>target_rows := a\<rparr>) = keys_ok db" "keys_ok (db\<lparr>decisions := e\<rparr>) = keys_ok db"
  "keys_ok (db\<lparr>snapshots := g\<rparr>) = keys_ok db" "keys_ok (db\<lparr>checkpoints := h\<rparr>) = keys_ok db"
  "keys_ok (db\<lparr>settings := i\<rparr>) = keys_ok db" "keys_ok (db\<lparr>outbox := j\<rparr>) = keys_ok db" "keys_ok (db\<lparr>counters := k\<rparr>) = keys_ok db"
  by (simp_all add: keys_ok_def)

lemma key_fresh:
  "find_signal db x = None \<longleftrightarrow> x \<notin> r_signal_id ` set (signals db)"
  "find_trade db x = None \<longleftrightarrow> x \<notin> d_signal_id ` set (trades db)"
  "find_track db x v = None \<longleftrightarrow> (x, v) \<notin> (\<lambda>k. (k_signal_id k, k_variant k)) ` set (tracks db)"
  "find_outcome db x v = None \<longleftrightarrow> (x, v) \<notin> (\<lambda>k. (o_signal_id k, o_variant k)) ` set (outcomes db)"
  by (auto simp: find_defs find_None_iff)

lemma keys_ok_inserts:
  "insert_signal_row db r = Inr db1 \<Longrightarrow> keys_ok db \<Longrightarrow> keys_ok db1"
  "insert_trade db d = Inr db1 \<Longrightarrow> keys_ok db \<Longrightarrow> keys_ok db1"
  "insert_track db k = Inr db1 \<Longrightarrow> keys_ok db \<Longrightarrow> keys_ok db1"
  "insert_event db e = Inr db1 \<Longrightarrow> keys_ok db \<Longrightarrow> keys_ok db1"
  "insert_outcome db q = Inr db1 \<Longrightarrow> keys_ok db \<Longrightarrow> keys_ok db1"
  using insert_signal_row_law(1,3) [of db r db1] insert_trade_law(2,3) [of db d db1] insert_track_law(2,3) [of db k db1]
    insert_event_law(1,2) [of db e db1] insert_outcome_law(2,3) [of db q db1]
  by (auto simp: keys_ok_def key_fresh)

lemma keys_ok_set_status:
  assumes "set_status db sid x ver new now = Inr (n, db1)" "keys_ok db"
  shows "keys_ok db1"
proof -
  define g where "g r = (if r_signal_id r = sid \<and> r_status r = x \<and> r_row_version r = ver
      then r\<lparr>r_status := new, r_updated_at := whole_seconds now, r_row_version := r_row_version r + 1\<rparr> else r)"
    for r :: signal_row
  have "db1 = db\<lparr>signals := map g (signals db)\<rparr>"
    using assms(1) by (auto simp: set_status_def update_signals_def Let_def g_def [abs_def] split: if_splits)
  moreover have "r_signal_id (g r) = r_signal_id r" for r by (simp add: g_def)
  ultimately show ?thesis using assms(2) by (simp add: keys_ok_def o_def)
qed

lemma keys_ok_update_tracks:
  assumes "update_tracks db P f = (n, db1)" "keys_ok db"
    "\<And>x. k_signal_id (f x) = k_signal_id x \<and> k_variant (f x) = k_variant x"
  shows "keys_ok db1"
proof -
  have "map (\<lambda>k. (k_signal_id k, k_variant k)) (map (\<lambda>k. if P k then f k else k) (tracks db))
      = map (\<lambda>k. (k_signal_id k, k_variant k)) (tracks db)"
    using assms(3) by auto
  then show ?thesis using assms(1,2) by (auto simp: keys_ok_def update_tracks_def simp del: map_map)
qed

subsection \<open>Creation\<close>

lemma create_effect:
  assumes "create_signal s db = Inr db'" "db_ok db" "valid_signal s"
  shows "keys_ok db'" "one_active (signals db')" "find_signal db (signal_id s) = None"
    "find_signal db' x = (if x = signal_id s then Some (signal_row_of s) else find_signal db x)"
    "find_trade db' x = find_trade db x" "find_track db' x v = find_track db x v"
    "find_outcome db' x v = find_outcome db x v"
    "target_rows_at db' x = (if x = signal_id s then target_rows_for s else target_rows_at db x)"
proof -
  obtain db1 db2 e where s: "insert_signal_row db (signal_row_of s) = Inr db1"
    "insert_all insert_target_row db1 (target_rows_for s) = Inr db2" "insert_event db2 e = Inr db'"
    using assms(1) by (auto simp: create_signal_def bind_result_eq_Inr)
  note l = insert_signal_row_law [OF s(1)] insert_targets_law [OF s(2)] insert_event_law(1) [OF s(3)]
  have id: "r_signal_id (signal_row_of s) = signal_id s" by simp
  have k: "keys_ok db" using assms(2) by (simp add: db_ok_def)
  have "keys_ok db2" unfolding l(5) using keys_ok_inserts(1) [OF s(1) k] by simp
  then show "keys_ok db'" by (rule keys_ok_inserts(4) [OF s(3)])
  show "one_active (signals db')" using l(2,3,5,6) by simp
  show n: "find_signal db (signal_id s) = None" using l(1) id by simp
  show "find_signal db' x = (if x = signal_id s then Some (signal_row_of s) else find_signal db x)"
    using l(4) [of x] id by (simp add: l(5,6))
  show "find_trade db' x = find_trade db x" "find_track db' x v = find_track db x v"
    "find_outcome db' x v = find_outcome db x v" by (simp_all add: l(3,5,6))
  have "target_rows_at db (signal_id s) = []" using assms(2) n by (auto simp: db_ok_def sid_ok_def dest: spec [of _ "signal_id s"])
  moreover have "filter (\<lambda>g. g_signal_id g = x) (target_rows_for s) = (if x = signal_id s then target_rows_for s else [])"
    by (auto simp: target_rows_for_def filter_empty_conv intro: filter_True)
  ultimately show "target_rows_at db' x = (if x = signal_id s then target_rows_for s else target_rows_at db x)"
    by (simp add: l(3,5,6) target_rows_at_def)
qed

lemma create_ok:
  assumes "create_signal s db = Inr db'" "db_ok db" "valid_signal s"
  shows "db_ok db'"
proof -
  note e = create_effect [OF assms]
  have "sid_ok db' x" for x
  proof (cases "x = signal_id s")
    case False
    have "same_at db db' x" using e False by (simp add: same_at_def)
    then show ?thesis using same_at_ok assms(2) by (auto simp: db_ok_def)
  next
    case True
    have u: "untraded db x" using assms(2) e(3) True by (auto simp: db_ok_def sid_ok_def dest: spec [of _ x])
    have p: "status s = PENDING" using assms(3) by (auto simp: valid_signal_def check_signal_def bind_result_eq_Inr split: if_splits)
    have "untraded db' x" using u e by (simp add: untraded_def)
    moreover have "row_ok db' (signal_row_of s)"
      using assms(3) e(8) [of x] True by (auto simp: row_ok_def)
    ultimately show ?thesis using e(4) [of x] True p by (simp add: sid_ok_def)
  qed
  then show ?thesis using e(1,2) by (simp add: db_ok_def)
qed

subsection \<open>Transitions\<close>

definition moved_row :: "signal_row \<Rightarrow> signal_status \<Rightarrow> instant \<Rightarrow> signal_row" where
  "moved_row r new now = r\<lparr>r_status := new, r_updated_at := whole_seconds now, r_row_version := r_row_version r + 1\<rparr>"

lemma moved_row_fields [simp]:
  "r_signal_id (moved_row r new now) = r_signal_id r" "r_status (moved_row r new now) = new"
  "original_row (moved_row r new now) = original_row r" "r_side (moved_row r new now) = r_side r"
  "r_entry_low (moved_row r new now) = r_entry_low r" "r_entry_high (moved_row r new now) = r_entry_high r"
  "r_original_stop (moved_row r new now) = r_original_stop r" "r_cost_rate (moved_row r new now) = r_cost_rate r"
  "r_risk_percent (moved_row r new now) = r_risk_percent r" "r_created_at (moved_row r new now) = r_created_at r"
  "r_expires_at (moved_row r new now) = r_expires_at r" "r_strategy_version (moved_row r new now) = r_strategy_version r"
  by (simp_all add: moved_row_def original_row_def)

lemma row_ok_moved: "target_rows_at db' (r_signal_id r) = target_rows_at db (r_signal_id r) \<Longrightarrow> row_ok db r \<Longrightarrow> row_ok db' (moved_row r new now)"
  by (auto simp: row_ok_def)

lemma trade_ok_moved [simp]: "trade_ok (moved_row r new now) d = trade_ok r d"
  by (simp add: trade_ok_def)

lemma sid_ok_Some:
  assumes "db_ok db" "find_signal db sid = Some r"
  shows "r_signal_id r = sid" "row_ok db r" "r_status r \<in> {ACTIVE, CLOSED} \<Longrightarrow> traded db sid r"
    "r_status r \<notin> {ACTIVE, CLOSED} \<Longrightarrow> untraded db sid"
  using assms(1) [unfolded db_ok_def] assms(2) by (auto simp: sid_ok_def split: if_splits dest!: spec [of _ sid])

lemma set_status_effect:
  assumes "set_status db sid (r_status row) (r_row_version row) new now = Inr (1, db1)" "db_ok db"
    "find_signal db sid = Some row"
  shows "keys_ok db1" "one_active (signals db1)"
    "find_signal db1 x = (if x = sid then Some (moved_row row new now) else find_signal db x)"
    "find_trade db1 x = find_trade db x" "find_track db1 x v = find_track db x v" "find_outcome db1 x v = find_outcome db x v"
    "target_rows_at db1 x = target_rows_at db x"
proof -
  note l = set_status_law [OF assms(1) db_ok_keys(1) [OF assms(2)] assms(3) refl refl]
  show "keys_ok db1" using keys_ok_set_status [OF assms(1)] assms(2) by (simp add: db_ok_def)
  show "one_active (signals db1)" by (rule l(3))
  show "find_signal db1 x = (if x = sid then Some (moved_row row new now) else find_signal db x)"
    using l(2) [of x] by (simp add: moved_row_def)
  obtain rows where "db1 = db\<lparr>signals := rows\<rparr>" using l(4) by blast
  then show "find_trade db1 x = find_trade db x" "find_track db1 x v = find_track db x v"
    "find_outcome db1 x v = find_outcome db x v" "target_rows_at db1 x = target_rows_at db x" by simp_all
qed

lemma transition_effect:
  assumes "transition_pending sid new now key db = Inr db'" "new \<in> {EXPIRED, CANCELLED}" "db_ok db"
  obtains row where "find_signal db sid = Some row" "r_status row = PENDING" "keys_ok db'" "one_active (signals db')"
    "\<And>x. find_signal db' x = (if x = sid then Some (moved_row row new now) else find_signal db x)"
    "\<And>x. find_trade db' x = find_trade db x" "\<And>x v. find_track db' x v = find_track db x v"
    "\<And>x v. find_outcome db' x v = find_outcome db x v" "\<And>x. target_rows_at db' x = target_rows_at db x"
proof -
  obtain row e db1 where s: "find_signal db sid = Some row" "r_status row = PENDING"
    "set_status db sid PENDING (r_row_version row) new now = Inr (1, db1)"
    "insert_event db1 (new_event sid None e now None [] key) = Inr db'"
    by (rule transition_steps [OF assms(1,2)])
  note e = set_status_effect [OF s(3) [folded s(2)] assms(3) s(1)] and l = insert_event_law(1) [OF s(4)]
  have k: "keys_ok db'" by (rule keys_ok_inserts(4) [OF s(4) e(1)])
  show thesis by (rule that [OF s(1,2) k]) (use e in \<open>simp_all add: l\<close>)
qed

lemma transition_ok:
  assumes "transition_pending sid new now key db = Inr db'" "new \<in> {EXPIRED, CANCELLED}" "db_ok db"
  shows "db_ok db'"
proof -
  obtain row where e: "find_signal db sid = Some row" "r_status row = PENDING" "keys_ok db'" "one_active (signals db')"
    "\<And>x. find_signal db' x = (if x = sid then Some (moved_row row new now) else find_signal db x)"
    "\<And>x. find_trade db' x = find_trade db x" "\<And>x v. find_track db' x v = find_track db x v"
    "\<And>x v. find_outcome db' x v = find_outcome db x v" "\<And>x. target_rows_at db' x = target_rows_at db x"
    by (rule transition_effect [OF assms]) blast
  have "sid_ok db' x" for x
  proof (cases "x = sid")
    case False
    have "same_at db db' x" using e False by (simp add: same_at_def)
    then show ?thesis using same_at_ok assms(3) by (auto simp: db_ok_def)
  next
    case True
    note o = sid_ok_Some [OF assms(3) e(1)]
    have "row_ok db' (moved_row row new now)" using row_ok_moved [OF e(9) o(2)] .
    moreover have "untraded db' sid" using o(4) e by (simp add: untraded_def)
    ultimately show ?thesis using True e(5) [of x] assms(2) o(1) by (auto simp: sid_ok_def)
  qed
  then show ?thesis using e(3,4) by (simp add: db_ok_def)
qed

subsection \<open>Activation\<close>

lemma activate_effect:
  assumes "activate_signal sid fill now key db = Inr db'" "db_ok db"
  obtains row where "0 < fill" "find_signal db sid = Some row" "r_status row = PENDING" "keys_ok db'" "one_active (signals db')"
    "\<And>x. find_signal db' x = (if x = sid then Some (moved_row row ACTIVE now) else find_signal db x)"
    "\<And>x. find_trade db' x = (if x = sid then Some (trade_row_of row (target_rows_of db sid) fill now key) else find_trade db x)"
    "\<And>x v. find_track db' x v = (if x = sid then Some (track_row_of row now v) else find_track db x v)"
    "\<And>x v. find_outcome db' x v = find_outcome db x v" "\<And>x. target_rows_at db' x = target_rows_at db x"
proof -
  obtain row db1 db2 db3 where s: "0 < fill" "find_signal db sid = Some row" "r_status row = PENDING"
    "set_status db sid PENDING (r_row_version row) ACTIVE now = Inr (1, db1)"
    "insert_trade db1 (trade_row_of row (target_rows_of db1 sid) fill now key) = Inr db2"
    "insert_all insert_track db2 (map (track_row_of row now) [FIXED, MANAGED]) = Inr db3"
    "insert_event db3 (new_event sid None Ev_ENTRY_ACTIVATED now (Some fill) [(''fill_policy'', PV_text ''conservative-v1'')] key) = Inr db'"
    by (rule activate_steps [OF assms(1)])
  note e = set_status_effect [OF s(4) [folded s(3)] assms(2) s(2)] and t = insert_trade_law [OF s(5)]
    and l = insert_event_law(1) [OF s(7)]
  have id: "r_signal_id row = sid" by (rule sid_ok_Some(1) [OF assms(2) s(2)])
  then have ids: "d_signal_id (trade_row_of row tg fill now key) = sid" "k_signal_id (track_row_of row now v) = sid"
    "k_variant (track_row_of row now v) = v" for tg v
    by (simp_all add: trade_row_of_def track_row_of_def)
  obtain db4 where k: "insert_track db2 (track_row_of row now FIXED) = Inr db4" "insert_track db4 (track_row_of row now MANAGED) = Inr db3"
    using s(6) by (auto simp: bind_result_eq_Inr)
  note k1 = insert_track_law [OF k(1)] and k2 = insert_track_law [OF k(2)]
  have v: "v = FIXED \<or> v = MANAGED" for v by (cases v) auto
  have tg: "target_rows_of db1 sid = target_rows_of db sid"
    using e(7) [of sid] by (simp add: target_rows_of_def target_rows_at_def)
  have K: "keys_ok db'"
    by (rule keys_ok_inserts(4) [OF s(7) keys_ok_inserts(3) [OF k(2) keys_ok_inserts(3) [OF k(1) keys_ok_inserts(2) [OF s(5) e(1)]]]])
  have F: "find_track db' x w = (if x = sid then Some (track_row_of row now w) else find_track db x w)" for x w
    using k1(4) [of x w] k2(4) [of x w] e(5) [of x w] v [of w] by (auto simp: l t(3) ids)
  show thesis
  proof (rule that [OF s(1,2,3) K])
    show "one_active (signals db')" using e(2) by (simp add: l k1(3) k2(3) t(3))
    show "find_signal db' x = (if x = sid then Some (moved_row row ACTIVE now) else find_signal db x)" for x
      using e(3) [of x] by (simp add: l k1(3) k2(3) t(3))
    show "find_trade db' x = (if x = sid then Some (trade_row_of row (target_rows_of db sid) fill now key) else find_trade db x)" for x
      using t(4) [of x] e(4) [of x] by (simp add: l k1(3) k2(3) ids tg)
    show "find_track db' x w = (if x = sid then Some (track_row_of row now w) else find_track db x w)" for x w by (rule F)
    show "find_outcome db' x w = find_outcome db x w" for x w using e(6) by (simp add: l k1(3) k2(3) t(3))
    show "target_rows_at db' x = target_rows_at db x" for x using e(7) by (simp add: l k1(3) k2(3) t(3))
  qed
qed

lemma row_ok_terms:
  assumes "row_ok db r"
  obtains s where "valid_signal s" "r_signal_id r = signal_id s" "r_side r = side (terms s)"
    "r_entry_low r = entry_low (terms s)" "r_entry_high r = entry_high (terms s)"
    "r_original_stop r = original_stop (terms s)" "r_cost_rate r = estimated_round_trip_cost_rate (terms s)"
    "r_risk_percent r = recommended_risk_percent (terms s)"
    "r_created_at r = whole_seconds (created_at (terms s))" "r_expires_at r = whole_seconds (expires_at (terms s))"
    "r_strategy_version r = strategy_version s" "target_rows_at db (r_signal_id r) = target_rows_for s"
    "check_signal_terms (terms s) = Inr (terms s)"
proof -
  obtain s where s: "valid_signal s" "original_row r = original_row (signal_row_of s)"
    "target_rows_at db (r_signal_id r) = target_rows_for s"
    using assms by (auto simp: row_ok_def)
  have f: "f (original_row r) = f (original_row (signal_row_of s))" for f :: "signal_row \<Rightarrow> 'x" by (simp add: s(2))
  have id: "r_signal_id (original_row q) = r_signal_id q" "r_side (original_row q) = r_side q"
    "r_entry_low (original_row q) = r_entry_low q" "r_entry_high (original_row q) = r_entry_high q"
    "r_original_stop (original_row q) = r_original_stop q" "r_cost_rate (original_row q) = r_cost_rate q"
    "r_risk_percent (original_row q) = r_risk_percent q" "r_created_at (original_row q) = r_created_at q"
    "r_expires_at (original_row q) = r_expires_at q" "r_strategy_version (original_row q) = r_strategy_version q" for q
    by (simp_all add: original_row_def)
  show thesis
    by (rule that [of s]) (use s(1,3) f [of r_signal_id] f [of r_side] f [of r_entry_low] f [of r_entry_high]
        f [of r_original_stop] f [of r_cost_rate] f [of r_risk_percent] f [of r_created_at] f [of r_expires_at]
        f [of r_strategy_version] in \<open>simp_all add: id valid_signal_def\<close>)
qed

lemma activate_ok:
  assumes "activate_signal sid fill now key db = Inr db'" "db_ok db"
  shows "db_ok db'"
proof -
  obtain row where e: "0 < fill" "find_signal db sid = Some row" "r_status row = PENDING" "keys_ok db'" "one_active (signals db')"
    "\<And>x. find_signal db' x = (if x = sid then Some (moved_row row ACTIVE now) else find_signal db x)"
    "\<And>x. find_trade db' x = (if x = sid then Some (trade_row_of row (target_rows_of db sid) fill now key) else find_trade db x)"
    "\<And>x v. find_track db' x v = (if x = sid then Some (track_row_of row now v) else find_track db x v)"
    "\<And>x v. find_outcome db' x v = find_outcome db x v" "\<And>x. target_rows_at db' x = target_rows_at db x"
    by (rule activate_effect [OF assms]) blast
  note o = sid_ok_Some [OF assms(2) e(2)]
  have "sid_ok db' x" for x
  proof (cases "x = sid")
    case False
    have "same_at db db' x" using e False by (simp add: same_at_def)
    then show ?thesis using same_at_ok assms(2) by (auto simp: db_ok_def)
  next
    case True
    have "row_ok db' (moved_row row ACTIVE now)" using row_ok_moved [OF e(10) o(2)] .
    moreover have "0 < r_original_stop row"
      by (rule row_ok_terms [OF o(2)]) (auto dest: check_signal_terms_Inr)
    then have "traded db' sid (moved_row row ACTIVE now)"
      using o(4) e by (auto simp: traded_def untraded_def trade_ok_def trade_row_of_def track_ok_def track_row_of_def track_outcome_def)
    ultimately show ?thesis using True e(6) [of x] o(1) by (auto simp: sid_ok_def)
  qed
  then show ?thesis using e(4,5) by (simp add: db_ok_def)
qed

subsection \<open>Closing a track\<close>

lemma require_active_track_Inr:
  "require_active_track db sid v = Inr k \<longleftrightarrow> find_track db sid v = Some k \<and> k_status k = Track_ACTIVE"
  by (auto simp: require_active_track_def split: option.splits if_splits)

lemma closed_fields_key [simp]: "k_signal_id (closed_fields c k) = k_signal_id k" "k_variant (closed_fields c k) = k_variant k"
  "k_status (closed_fields c k) = Track_CLOSED" "k_realized_r (closed_fields c k) = tc_result_r c"
  "k_current_stop (closed_fields c k) = k_current_stop k" "k_remaining_fraction (closed_fields c k) = k_remaining_fraction k"
  by (simp_all add: closed_fields_def)

lemma outcome_row_of_fields [simp]: "o_signal_id (outcome_row_of c) = tc_signal_id c" "o_variant (outcome_row_of c) = tc_variant c"
  "o_result (outcome_row_of c) = tc_result c" "o_result_r (outcome_row_of c) = tc_result_r c"
  "o_closed_at (outcome_row_of c) = whole_seconds (tc_occurred_at c)"
  by (simp_all add: outcome_row_of_def)

lemma find_track_key: "find_track db sid v = Some k \<Longrightarrow> k_signal_id k = sid \<and> k_variant k = v"
  by (auto simp: find_track_def dest!: find_SomeD)

lemma map_result_all: "map_result f xs = Inr ys \<Longrightarrow> x \<in> set xs \<Longrightarrow> \<exists>y. f x = Inr y"
  by (induction xs arbitrary: ys) (auto simp: bind_result_eq_Inr)

lemma sample_of_signs: "sample_of db r = Inr s \<Longrightarrow> outcome_signs r"
  by (auto simp: sample_of_def check_outcome_sample_def outcome_signs_def split: if_splits)

lemma snapshot_law:
  assumes "insert_statistics_snapshot sid v now db = Inr db'"
  shows "\<exists>p. db' = db\<lparr>snapshots := snapshots db @ [p]\<rparr> \<and> p_signal_id p = sid \<and> p_variant p = v"
    "r \<in> set (outcomes db) \<Longrightarrow> find_signal db (o_signal_id r) \<noteq> None \<Longrightarrow> outcome_signs r"
proof -
  obtain samples report where s: "map_result (sample_of db) (joined_outcomes db) = Inr samples"
    "insert_snapshot db \<lparr>p_signal_id = sid, p_variant = v, p_calculated_at = whole_seconds now,
          p_strategy_version = ''statistics-v0.9.0'', p_report = report, p_dedupe_key = snapshot_key sid v\<rparr> = Inr db'"
    using assms by (auto simp: insert_statistics_snapshot_def bind_result_eq_Inr)
  from insert_snapshot_law(1) [OF s(2)]
  show "\<exists>p. db' = db\<lparr>snapshots := snapshots db @ [p]\<rparr> \<and> p_signal_id p = sid \<and> p_variant p = v" by fastforce
  show "outcome_signs r" if "r \<in> set (outcomes db)" "find_signal db (o_signal_id r) \<noteq> None"
  proof -
    have "r \<in> set (joined_outcomes db)" using that by (simp add: joined_outcomes_def)
    from map_result_all [OF s(1) this] show ?thesis using sample_of_signs by blast
  qed
qed

definition closed_signal :: "track_close \<Rightarrow> signal_row \<Rightarrow> signal_row" where
  "closed_signal c r = (if tc_variant c = MANAGED then moved_row r CLOSED (tc_occurred_at c) else r)"

lemma close_effect:
  assumes "close_track c db = Inr db'" "db_ok db"
  obtains k where "find_track db (tc_signal_id c) (tc_variant c) = Some k" "k_status k = Track_ACTIVE"
    "keys_ok db'" "one_active (signals db')" "outcome_signs (outcome_row_of c)"
    "tc_variant c = MANAGED \<Longrightarrow> \<exists>r. find_signal db (tc_signal_id c) = Some r \<and> r_status r = ACTIVE"
    "\<And>x w. find_track db' x w = (if x = tc_signal_id c \<and> w = tc_variant c then Some (closed_fields c k) else find_track db x w)"
    "\<And>x w. find_outcome db' x w = (if x = tc_signal_id c \<and> w = tc_variant c then Some (outcome_row_of c) else find_outcome db x w)"
    "\<And>x. find_signal db' x = (if x = tc_signal_id c then map_option (closed_signal c) (find_signal db x) else find_signal db x)"
    "\<And>x. find_trade db' x = find_trade db x" "\<And>x. target_rows_at db' x = target_rows_at db x"
proof -
  define sid where "sid = tc_signal_id c"
  define v where "v = tc_variant c"
  obtain k db1 db2 db3 db4 db5 where s:
    "require_active_track db sid v = Inr k" "update_tracks db (track_matches sid v k) (closed_fields c) = (1, db1)"
    "insert_outcome db1 (outcome_row_of c) = Inr db2" "insert_event db2 (reason_event c) = Inr db3"
    "insert_event db3 (closed_event c) = Inr db4" "close_managed_signal c db4 = Inr db5"
    "insert_statistics_snapshot sid v (tc_occurred_at c) db5 = Inr db'"
    unfolding sid_def v_def by (rule close_track_steps [OF assms(1)]) blast
  have k: "find_track db sid v = Some k" "k_status k = Track_ACTIVE" using s(1) by (auto simp: require_active_track_Inr)
  have m: "track_matches sid v k k" using k find_track_key [OF k(1)] by (simp add: track_matches_def)
  note u = update_tracks_law [OF s(2) db_ok_keys(2) [OF assms(2)] k(1) m]
  have u2: "find_track db1 x w = (if x = sid \<and> w = v then Some (closed_fields c k) else find_track db x w)" for x w
    by (rule u(2)) (auto simp: track_matches_def)
  obtain rows where rows: "db1 = db\<lparr>tracks := rows\<rparr>" using u(3) by (auto simp: track_matches_def)
  have k1: "keys_ok db1"
    by (rule keys_ok_update_tracks [OF s(2)]) (use assms(2) in \<open>auto simp: db_ok_def\<close>)
  note o = insert_outcome_law [OF s(3)] and e1 = insert_event_law(1) [OF s(4)] and e2 = insert_event_law(1) [OF s(5)]
  have k4: "keys_ok db4"
    by (rule keys_ok_inserts(4) [OF s(5) keys_ok_inserts(4) [OF s(4) keys_ok_inserts(5) [OF s(3) k1]]])
  have S4: "signals db4 = signals db" by (simp add: e1 e2 o(3) rows)
  have f4: "find_signal db4 x = find_signal db x" "find_trade db4 x = find_trade db x"
    "find_track db4 x w = find_track db1 x w" "find_outcome db4 x w = find_outcome db2 x w" "target_rows_at db4 x = target_rows_at db x" for x w
    by (simp_all add: e1 e2 o(3) rows)
  have m5: "keys_ok db5 \<and> one_active (signals db5)
     \<and> (v = MANAGED \<longrightarrow> (\<exists>r. find_signal db sid = Some r \<and> r_status r = ACTIVE))
     \<and> (\<forall>x. find_signal db5 x = (if x = sid then map_option (closed_signal c) (find_signal db x) else find_signal db x))
     \<and> (\<forall>x w. find_trade db5 x = find_trade db4 x \<and> find_track db5 x w = find_track db4 x w
          \<and> find_outcome db5 x w = find_outcome db4 x w \<and> target_rows_at db5 x = target_rows_at db4 x)"
  proof (cases "v = MANAGED")
    case False
    then have "db5 = db4" using s(6) by (simp add: close_managed_signal_def v_def)
    moreover have "map_option (closed_signal c) q = q" for q using False by (cases q) (simp_all add: closed_signal_def v_def)
    ultimately show ?thesis using k4 S4 f4 False assms(2) by (simp add: db_ok_def)
  next
    case True
    then obtain row where r: "find_signal db4 sid = Some row" "r_status row = ACTIVE"
      "set_status db4 sid ACTIVE (r_row_version row) CLOSED (tc_occurred_at c) = Inr (1, db5)"
      using close_managed_steps [OF s(6)] by (auto simp: v_def sid_def)
    have d4: "distinct (map r_signal_id (signals db4))" using k4 by (simp add: keys_ok_def)
    note l = set_status_law [OF r(3) d4 r(1,2) refl]
    obtain rws where rws: "db5 = db4\<lparr>signals := rws\<rparr>" using l(4) by blast
    have "find_signal db sid = Some row" using r(1) f4(1) by simp
    moreover have "keys_ok db5" by (rule keys_ok_set_status [OF r(3) k4])
    moreover have "find_signal db5 x = (if x = sid then Some (moved_row row CLOSED (tc_occurred_at c)) else find_signal db x)" for x
      using l(2) [of x] f4(1) [of x] by (simp add: moved_row_def)
    ultimately show ?thesis using r(2) l(3) True by (auto simp: rws closed_signal_def v_def)
  qed
  obtain p where p: "db' = db5\<lparr>snapshots := snapshots db5 @ [p]\<rparr>" using snapshot_law(1) [OF s(7)] by blast
  have sg: "find_signal db5 sid \<noteq> None"
  proof -
    have "find_trade db sid \<noteq> None" using o(1) by (simp add: rows sid_def)
    then have "find_signal db sid \<noteq> None"
      using assms(2) by (auto simp: db_ok_def sid_ok_def untraded_def split: option.splits dest!: spec [of _ sid])
    then show ?thesis using m5 by auto
  qed
  have os: "outcome_signs (outcome_row_of c)"
  proof (rule snapshot_law(2) [OF s(7)])
    have "outcome_row_of c \<in> set (outcomes db4)" by (simp add: e1 e2 o(3))
    moreover have "outcomes db5 = outcomes db4"
      using s(6) by (auto simp: close_managed_signal_def bind_result_eq_Inr set_status_def update_signals_def Let_def split: if_splits)
    ultimately show "outcome_row_of c \<in> set (outcomes db5)" by simp
    show "find_signal db5 (o_signal_id (outcome_row_of c)) \<noteq> None" using sg by (simp add: sid_def)
  qed
  show thesis
  proof (rule that [of k])
    show "find_track db (tc_signal_id c) (tc_variant c) = Some k" using k(1) by (simp add: sid_def v_def)
    show "k_status k = Track_ACTIVE" by (rule k(2))
    show "keys_ok db'" "one_active (signals db')" using m5 by (simp_all add: p)
    show "outcome_signs (outcome_row_of c)" by (rule os)
    show "\<exists>r. find_signal db (tc_signal_id c) = Some r \<and> r_status r = ACTIVE" if "tc_variant c = MANAGED"
      using m5 that by (simp add: v_def sid_def)
    show "find_track db' x w = (if x = tc_signal_id c \<and> w = tc_variant c then Some (closed_fields c k) else find_track db x w)" for x w
      using m5 f4(3) [of x w] u2 [of x w] by (simp add: p sid_def v_def)
    show "find_outcome db' x w = (if x = tc_signal_id c \<and> w = tc_variant c then Some (outcome_row_of c) else find_outcome db x w)" for x w
      using m5 f4(4) [of x w] o(4) [of x w] by (simp add: p rows)
    show "find_signal db' x = (if x = tc_signal_id c then map_option (closed_signal c) (find_signal db x) else find_signal db x)" for x
      using m5 by (simp add: p sid_def)
    show "find_trade db' x = find_trade db x" "target_rows_at db' x = target_rows_at db x" for x using m5 f4 by (simp_all add: p)
  qed
qed

lemma close_ok:
  assumes "close_track c db = Inr db'" "db_ok db"
  shows "db_ok db'"
proof -
  obtain k where e: "find_track db (tc_signal_id c) (tc_variant c) = Some k" "k_status k = Track_ACTIVE"
    "keys_ok db'" "one_active (signals db')" "outcome_signs (outcome_row_of c)"
    "tc_variant c = MANAGED \<Longrightarrow> \<exists>r. find_signal db (tc_signal_id c) = Some r \<and> r_status r = ACTIVE"
    "\<And>x w. find_track db' x w = (if x = tc_signal_id c \<and> w = tc_variant c then Some (closed_fields c k) else find_track db x w)"
    "\<And>x w. find_outcome db' x w = (if x = tc_signal_id c \<and> w = tc_variant c then Some (outcome_row_of c) else find_outcome db x w)"
    "\<And>x. find_signal db' x = (if x = tc_signal_id c then map_option (closed_signal c) (find_signal db x) else find_signal db x)"
    "\<And>x. find_trade db' x = find_trade db x" "\<And>x. target_rows_at db' x = target_rows_at db x"
    by (rule close_effect [OF assms]) blast
  have "sid_ok db' x" for x
  proof (cases "x = tc_signal_id c")
    case False
    have "same_at db db' x" using e False by (simp add: same_at_def)
    then show ?thesis using same_at_ok assms(2) by (auto simp: db_ok_def)
  next
    case True
    have nu: "\<not> untraded db x" using e(1) True by (auto simp: untraded_def)
    then obtain r where r: "find_signal db x = Some r" "traded db x r" "r_status r \<in> {ACTIVE, CLOSED}"
      using assms(2) by (auto simp: db_ok_def sid_ok_def split: option.splits if_splits dest!: spec [of _ x])
    note o = sid_ok_Some [OF assms(2) r(1)]
    have st: "r_status (closed_signal c r) \<in> {ACTIVE, CLOSED}" using r(3) by (auto simp: closed_signal_def)
    have to: "trade_ok (closed_signal c r) d = trade_ok r d" for d by (simp add: closed_signal_def)
    have "\<exists>k'. find_track db' x w = Some k' \<and> track_ok k' \<and> track_outcome k' (find_outcome db' x w)
            \<and> (w = MANAGED \<longrightarrow> (k_status k' = Track_ACTIVE \<longleftrightarrow> r_status (closed_signal c r) = ACTIVE))" for w
    proof (cases "w = tc_variant c")
      case w: True
      obtain k2 where "find_track db x w = Some k2" "track_ok k2" using r(2) by (auto simp: traded_def)
      then have "track_ok k" using e(1) True w by simp
      then show ?thesis
        using e(5,7,8) True w by (auto simp: track_ok_def track_outcome_def closed_signal_def)
    next
      case False
      then show ?thesis using r(2) e(7,8) True by (auto simp: traded_def closed_signal_def)
    qed
    then have "traded db' x (closed_signal c r)" using r(2) e(10) to by (auto simp: traded_def)
    moreover have "row_ok db' (closed_signal c r)"
      using o(2) e(11) by (auto simp: closed_signal_def row_ok_def)
    moreover have "r_signal_id (closed_signal c r) = x" using o(1) by (simp add: closed_signal_def)
    ultimately show ?thesis using True e(9) [of x] r(1) st by (auto simp: sid_ok_def)
  qed
  then show ?thesis using e(3,4) by (simp add: db_ok_def)
qed

subsection \<open>Decisions and the remaining methods\<close>

lemma decided_fields_key [simp]:
  "k_signal_id (decided_fields d t k) = k_signal_id k" "k_variant (decided_fields d t k) = k_variant k"
  "k_status (decided_fields d t k) = k_status k"
  "k_current_stop (decided_fields d t k) = value_or (k_current_stop t) (md_updated_stop d)"
  "k_remaining_fraction (decided_fields d t k) = value_or (k_remaining_fraction t) (md_remaining_fraction_after d)"
  "k_realized_r (decided_fields d t k) = value_or (k_realized_r t) (md_realized_r_after d)"
  by (simp_all add: decided_fields_def)

definition decided_track :: "management_decision \<Rightarrow> track_row \<Rightarrow> track_row" where
  "decided_track d k = (if md_changes_managed_result d then decided_fields d k k else k)"

lemma decision_effect:
  assumes "apply_management_decision d db = Inr db'" "db_ok db"
  obtains k where "find_track db (md_signal_id d) MANAGED = Some k" "k_status k = Track_ACTIVE" "keys_ok db'"
    "one_active (signals db')" "\<not> management_decision_exists db (md_dedupe_key d)"
    "\<And>x w. find_track db' x w = (if x = md_signal_id d \<and> w = MANAGED then Some (decided_track d k) else find_track db x w)"
    "\<And>x w. find_outcome db' x w = find_outcome db x w" "\<And>x. find_signal db' x = find_signal db x"
    "\<And>x. find_trade db' x = find_trade db x" "\<And>x. target_rows_at db' x = target_rows_at db x"
    "decisions db' = decisions db @ [decision_row_of d]"
proof -
  obtain k db1 db2 where s: "require_active_track db (md_signal_id d) MANAGED = Inr k"
    "(if md_changes_managed_result d
      then update_tracks db (track_matches (md_signal_id d) MANAGED k) (decided_fields d k) else (1, db)) = (1, db1)"
    "insert_decision db1 (decision_row_of d) = Inr db2" "insert_event db2 (decision_event d) = Inr db'"
    by (rule decision_steps [OF assms(1)]) blast
  have k: "find_track db (md_signal_id d) MANAGED = Some k" "k_status k = Track_ACTIVE"
    using s(1) by (auto simp: require_active_track_Inr)
  have m: "track_matches (md_signal_id d) MANAGED k k" using k find_track_key [OF k(1)] by (simp add: track_matches_def)
  note i = insert_decision_law [OF s(3)] and e = insert_event_law(1) [OF s(4)]
  have u: "keys_ok db1 \<and> (\<exists>rows. db1 = db\<lparr>tracks := rows\<rparr>)
     \<and> (\<forall>x w. find_track db1 x w = (if x = md_signal_id d \<and> w = MANAGED then Some (decided_track d k) else find_track db x w))"
  proof (cases "md_changes_managed_result d")
    case False
    then have d: "db1 = db" using s(2) by simp
    have "\<exists>rows. db1 = db\<lparr>tracks := rows\<rparr>" unfolding d by (rule exI [of _ "tracks db"]) simp
    then show ?thesis using k(1) False assms(2) d by (simp add: decided_track_def db_ok_def)
  next
    case True
    then have up: "update_tracks db (track_matches (md_signal_id d) MANAGED k) (decided_fields d k) = (1, db1)"
      using s(2) by simp
    note l = update_tracks_law [OF up db_ok_keys(2) [OF assms(2)] k(1) m]
    have "find_track db1 x w = (if x = md_signal_id d \<and> w = MANAGED then Some (decided_fields d k k) else find_track db x w)" for x w
      by (rule l(2)) (auto simp: track_matches_def)
    moreover have "keys_ok db1"
      by (rule keys_ok_update_tracks [OF up]) (use assms(2) in \<open>auto simp: db_ok_def\<close>)
    moreover have "\<exists>rows. db1 = db\<lparr>tracks := rows\<rparr>" using l(3) by (auto simp: track_matches_def)
    ultimately show ?thesis using True by (simp add: decided_track_def)
  qed
  then obtain rows where rows: "db1 = db\<lparr>tracks := rows\<rparr>" by blast
  have k2: "keys_ok db2" using u by (simp add: i(1))
  show thesis
  proof (rule that [OF k keys_ok_inserts(4) [OF s(4) k2]])
    show "one_active (signals db')" using assms(2) by (simp add: e i(1) rows db_ok_def)
    show "\<not> management_decision_exists db (md_dedupe_key d)"
      using i(2) by (auto simp: rows management_decision_exists_def list_ex_iff decision_row_of_def) (metis imageI)
    show "find_track db' x w = (if x = md_signal_id d \<and> w = MANAGED then Some (decided_track d k) else find_track db x w)" for x w
      using u by (simp add: e i(1))
    show "find_outcome db' x w = find_outcome db x w" "find_signal db' x = find_signal db x"
      "find_trade db' x = find_trade db x" "target_rows_at db' x = target_rows_at db x" for x w
      by (simp_all add: e i(1) rows)
    show "decisions db' = decisions db @ [decision_row_of d]" by (simp add: e i(1) rows)
  qed
qed

lemma decision_ok:
  assumes "apply_management_decision d db = Inr db'" "db_ok db" "check_management_decision d = Inr d"
  shows "db_ok db'"
proof -
  obtain k where e: "find_track db (md_signal_id d) MANAGED = Some k" "k_status k = Track_ACTIVE" "keys_ok db'"
    "one_active (signals db')"
    "\<And>x w. find_track db' x w = (if x = md_signal_id d \<and> w = MANAGED then Some (decided_track d k) else find_track db x w)"
    "\<And>x w. find_outcome db' x w = find_outcome db x w" "\<And>x. find_signal db' x = find_signal db x"
    "\<And>x. find_trade db' x = find_trade db x" "\<And>x. target_rows_at db' x = target_rows_at db x"
    by (rule decision_effect [OF assms(1,2)]) blast
  have "sid_ok db' x" for x
  proof (cases "x = md_signal_id d")
    case False
    have "same_at db db' x" using e False by (simp add: same_at_def)
    then show ?thesis using same_at_ok assms(2) by (auto simp: db_ok_def)
  next
    case True
    have "\<not> untraded db x" using e(1) True by (auto simp: untraded_def)
    then obtain r where r: "find_signal db x = Some r" "traded db x r" "r_status r \<in> {ACTIVE, CLOSED}"
      using assms(2) by (auto simp: db_ok_def sid_ok_def split: option.splits if_splits dest!: spec [of _ x])
    note o = sid_ok_Some [OF assms(2) r(1)]
    obtain k2 where k2: "find_track db x MANAGED = Some k2" "track_ok k2" using r(2) by (auto simp: traded_def)
    then have ko: "track_ok k" using e(1) True by simp
    have st: "k_status (decided_track d k) = k_status k" by (simp add: decided_track_def)
    have "track_ok (decided_track d k)"
      using ko check_management_decision_Inr [OF assms(3)]
      by (auto simp: track_ok_def decided_track_def value_or_def split: option.splits)
    moreover have "track_outcome (decided_track d k) q = track_outcome k q" for q using e(2) st by (simp add: track_outcome_def)
    ultimately have "traded db' x r"
      using r(2) e(1,5,6,8) st True by (auto simp: traded_def)
    moreover have "row_ok db' r" using o(2) e(9) by (simp add: row_ok_def)
    ultimately show ?thesis using e(7) [of x] r o(1) by (auto simp: sid_ok_def)
  qed
  then show ?thesis using e(3,4) by (simp add: db_ok_def)
qed

lemma same_ok:
  assumes "db_ok db" "keys_ok db'" "one_active (signals db')" "\<And>x. same_at db db' x"
  shows "db_ok db'"
proof -
  have "sid_ok db' x" for x by (rule same_at_ok [OF assms(4)]) (use assms(1) in \<open>simp add: db_ok_def\<close>)
  then show ?thesis using assms(2,3) by (simp add: db_ok_def)
qed

lemma append_event_ok:
  assumes "append_trade_event sid v ty now p key body db = Inr db'" "db_ok db"
  shows "db_ok db'"
proof -
  obtain e where e: "insert_event db e = Inr db'"
    using assms(1) by (auto simp: append_trade_event_def bind_result_eq_Inr split: if_splits)
  note l = insert_event_law(1) [OF e]
  show ?thesis
  proof (rule same_ok [OF assms(2)])
    show "keys_ok db'" by (rule keys_ok_inserts(4) [OF e]) (use assms(2) in \<open>simp add: db_ok_def\<close>)
  qed (use assms(2) l in \<open>simp_all add: db_ok_def same_at_def\<close>)
qed

lemma other_tables_ok:
  assumes "db_ok db"
  shows "db_ok (db\<lparr>checkpoints := a\<rparr>)" "db_ok (db\<lparr>outbox := b\<rparr>)" "db_ok (db\<lparr>settings := c\<rparr>)" "db_ok (db\<lparr>counters := e\<rparr>)"
  by (rule same_ok [OF assms]; use assms in \<open>simp add: db_ok_def same_at_def\<close>)+

lemma other_methods_ok:
  assumes "db_ok db"
  shows "advance_checkpoint key now body db = Inr db' \<Longrightarrow> db_ok db'"
    "enqueue_alert ty body key now s db = Inr db' \<Longrightarrow> db_ok db'"
    "put_setting key val now db = Inr db' \<Longrightarrow> db_ok db'"
    "db_ok (snd (allocate_signal_id d db))"
  using other_tables_ok [OF assms]
  by (auto simp: advance_checkpoint_def enqueue_alert_def put_setting_def allocate_signal_id_def Let_def split: if_splits)

subsection \<open>Reachable databases\<close>

text \<open>One successful call of a writing method.\<close>

inductive repo_step :: "database \<Rightarrow> database \<Rightarrow> bool" where
  step_allocate: "repo_step db (snd (allocate_signal_id d db))"
| step_create: "valid_signal s \<Longrightarrow> create_signal s db = Inr db' \<Longrightarrow> repo_step db db'"
| step_activate: "activate_signal sid fill now key db = Inr db' \<Longrightarrow> repo_step db db'"
| step_expire: "expire_signal sid now key db = Inr db' \<Longrightarrow> repo_step db db'"
| step_cancel: "cancel_signal sid now key db = Inr db' \<Longrightarrow> repo_step db db'"
| step_event: "append_trade_event sid v ty now p key body db = Inr db' \<Longrightarrow> repo_step db db'"
| step_close: "close_track c db = Inr db' \<Longrightarrow> repo_step db db'"
| step_checkpoint: "advance_checkpoint key now body db = Inr db' \<Longrightarrow> repo_step db db'"
| step_decision: "check_management_decision d = Inr d \<Longrightarrow> apply_management_decision d db = Inr db' \<Longrightarrow> repo_step db db'"
| step_alert: "enqueue_alert ty body key now s db = Inr db' \<Longrightarrow> repo_step db db'"
| step_setting: "put_setting key val now db = Inr db' \<Longrightarrow> repo_step db db'"

inductive repo_reachable :: "database \<Rightarrow> bool" where
  reach_empty: "repo_reachable empty_database"
| reach_step: "repo_reachable db \<Longrightarrow> repo_step db db' \<Longrightarrow> repo_reachable db'"

inductive_cases repo_stepE: "repo_step db db'"

lemma repo_step_ok: "repo_step db db' \<Longrightarrow> db_ok db \<Longrightarrow> db_ok db'"
  by (erule repo_stepE)
    (auto simp: expire_signal_def cancel_signal_def
      intro: create_ok activate_ok transition_ok append_event_ok close_ok decision_ok other_methods_ok)

lemma repo_step_extends: "repo_step db db' \<Longrightarrow> extends db db'"
  by (erule repo_stepE)
    (auto simp: expire_signal_def cancel_signal_def
      intro: extends_create extends_activate extends_transition_pending extends_append_event extends_close
        extends_decision extends_others)

lemma reachable_ok: "repo_reachable db \<Longrightarrow> db_ok db"
  by (induction rule: repo_reachable.induct) (auto intro: empty_ok repo_step_ok)

end
