(* ===== verification/RepositoryProperties.thy ===== *)
theory RepositoryProperties
  imports RepositoryInvariant
begin

section \<open>What the repository promises\<close>

text \<open>
  The contract of the checkpoints as a locale, interpreted on the repository, and the
  properties of the reachable databases: their tables agree, audit rows and original terms
  never change, a closed track stays closed, activation succeeds exactly when it may, and a
  created signal is read back.
\<close>

subsection \<open>Checkpoints\<close>

text \<open>
  A store of checkpoints: advancing a key moves it to the later of the old and the new
  time (as stored), and moves no other key.  The replay engines resume from such a store.
\<close>

locale checkpoint_store =
  fixes read_mark :: "'s \<Rightarrow> string \<Rightarrow> instant option"
    and move_mark :: "string \<Rightarrow> instant \<Rightarrow> 'b \<Rightarrow> 's \<Rightarrow> 's result"
    and stored :: "instant \<Rightarrow> instant"
  assumes move_read: "move_mark key t body s = Inr s' \<Longrightarrow>
      read_mark s' key = Some (case read_mark s key of None \<Rightarrow> stored t | Some u \<Rightarrow> max u (stored t))"
    and move_other: "move_mark key t body s = Inr s' \<Longrightarrow> key' \<noteq> key \<Longrightarrow> read_mark s' key' = read_mark s key'"
    and move_total: "\<not> blank key \<Longrightarrow> \<exists>s'. move_mark key t body s = Inr s'"
begin

lemma monotone:
  assumes "move_mark key t body s = Inr s'" "read_mark s k = Some u"
  shows "\<exists>u'. read_mark s' k = Some u' \<and> u \<le> u'"
  using move_read [OF assms(1)] move_other [OF assms(1), of k] assms(2) by (cases "k = key") auto

text \<open>Advancing through a list of times leaves the key at the latest of them.\<close>

lemma move_all_read:
  "fold_result (\<lambda>(t, body). move_mark key t body) ts s = Inr s' \<Longrightarrow>
   read_mark s' key = fold (\<lambda>(t, _) u. Some (case u of None \<Rightarrow> stored t | Some v \<Rightarrow> max v (stored t))) ts (read_mark s key)"
proof (induction ts arbitrary: s)
  case (Cons p ts)
  then show ?case using move_read by (cases p) (auto simp: bind_result_eq_Inr)
qed simp

lemma fold_last:
  assumes "sorted (map (\<lambda>p. stored (fst p)) ts)" "ts \<noteq> []"
    "case u of None \<Rightarrow> True | Some v \<Rightarrow> v \<le> stored (fst (hd ts))"
  shows "fold (\<lambda>(t, _) u. Some (case u of None \<Rightarrow> stored t | Some v \<Rightarrow> max v (stored t))) ts u = Some (stored (fst (last ts)))"
  using assms
proof (induction ts arbitrary: u)
  case (Cons p ts)
  show ?case
  proof (cases ts)
    case Nil
    then show ?thesis using Cons.prems by (cases p; cases u) (auto simp: max_def)
  next
    case c: (Cons q qs)
    have "case u of None \<Rightarrow> True | Some v \<Rightarrow> v \<le> stored (fst p)" using Cons.prems(3) by (cases u) simp_all
    then have u: "(case u of None \<Rightarrow> stored (fst p) | Some v \<Rightarrow> max v (stored (fst p))) = stored (fst p)"
      by (cases u) (auto simp: max_def)
    let ?g = "\<lambda>(t, _) u. Some (case u of None \<Rightarrow> stored t | Some v \<Rightarrow> max v (stored t))"
    have "fold ?g ts (Some (stored (fst p))) = Some (stored (fst (last ts)))"
      by (rule Cons.IH) (use Cons.prems c in auto)
    moreover have "fold ?g (p # ts) u = fold ?g ts (Some (stored (fst p)))"
      using u by (cases p) (simp only: fold_simps prod.case fst_conv)
    moreover have "last (p # ts) = last ts" using c by simp
    ultimately show ?thesis by (simp only:)
  qed
qed simp

lemma move_all_last:
  assumes "fold_result (\<lambda>(t, body). move_mark key t body) ts s = Inr s'" "ts \<noteq> []" "sorted (map (\<lambda>p. stored (fst p)) ts)"
    "case read_mark s key of None \<Rightarrow> True | Some v \<Rightarrow> v \<le> stored (fst (hd ts))"
  shows "read_mark s' key = Some (stored (fst (last ts)))"
  using move_all_read [OF assms(1)] fold_last [OF assms(3,2,4)] by simp

end

lemma find_map_update:
  assumes "\<And>h. key (f h) = key h"
  shows "List.find (\<lambda>h. key h = k) (map (\<lambda>h. if key h = j \<and> P h then f h else h) xs) =
    map_option (\<lambda>h. if k = j \<and> P h then f h else h) (List.find (\<lambda>h. key h = k) xs)"
  using assms by (induction xs) auto

lemma checkpoint_read:
  assumes "advance_checkpoint key t body db = Inr db'"
  shows "get_checkpoint db' k =
    (if k = key then Some (case get_checkpoint db key of None \<Rightarrow> whole_seconds t | Some u \<Rightarrow> max u (whole_seconds t))
     else get_checkpoint db k)"
proof (cases "find_checkpoint db key")
  case None
  then have "db' = db\<lparr>checkpoints := checkpoints db @ [\<lparr>h_key = key, h_last_processed_at = whole_seconds t, h_payload = body, h_row_version = 1\<rparr>]\<rparr>"
    using assms by (auto simp: advance_checkpoint_def Let_def split: if_splits)
  then show ?thesis using None
    by (auto simp: get_checkpoint_def find_checkpoint_def find_snoc split: option.splits)
next
  case (Some h)
  define f where "f h = h\<lparr>h_last_processed_at := whole_seconds t, h_payload := body, h_row_version := h_row_version h + 1\<rparr>"
    for h :: checkpoint_row
  have d: "db' = db\<lparr>checkpoints := map (\<lambda>h. if h_key h = key \<and> h_last_processed_at h < whole_seconds t then f h else h) (checkpoints db)\<rparr>"
    using assms Some by (auto simp: advance_checkpoint_def f_def Let_def split: if_splits)
  have "find_checkpoint db' k = map_option (\<lambda>h. if k = key \<and> h_last_processed_at h < whole_seconds t then f h else h) (find_checkpoint db k)"
    unfolding d find_checkpoint_def by (simp add: find_map_update f_def)
  then show ?thesis using Some by (auto simp: get_checkpoint_def option.map_comp o_def f_def max_def split: option.splits)
qed

interpretation marks: checkpoint_store get_checkpoint advance_checkpoint whole_seconds
proof
  show "get_checkpoint s' key = Some (case get_checkpoint s key of None \<Rightarrow> whole_seconds t | Some u \<Rightarrow> max u (whole_seconds t))"
    if "advance_checkpoint key t body s = Inr s'" for key t body s s'
    using checkpoint_read [OF that, of key] by simp
  show "get_checkpoint s' key' = get_checkpoint s key'"
    if "advance_checkpoint key t body s = Inr s'" "key' \<noteq> key" for key t body s s' key'
    using checkpoint_read [OF that(1), of key'] that(2) by simp
  show "\<exists>s'. advance_checkpoint key t body s = Inr s'" if "\<not> blank key" for key t body s
    using that by (simp add: advance_checkpoint_def Let_def)
qed

text \<open>
  C18: a checkpoint never moves backwards, and advancing it through a sorted list of times
  leaves it at the last one, in whole seconds.
\<close>

theorem checkpoint_monotone:
  "(advance_checkpoint key t body db = Inr db' \<longrightarrow> get_checkpoint db k = Some u \<longrightarrow>
      (\<exists>u'. get_checkpoint db' k = Some u' \<and> u \<le> u'))
   \<and> (fold_result (\<lambda>(t, body). advance_checkpoint key t body) ts db = Inr db'' \<longrightarrow> ts \<noteq> [] \<longrightarrow> sorted (map (\<lambda>p. whole_seconds (fst p)) ts) \<longrightarrow>
      get_checkpoint db key = None \<longrightarrow> get_checkpoint db'' key = Some (whole_seconds (fst (last ts))))"
proof (intro conjI impI)
  show "\<exists>u'. get_checkpoint db' k = Some u' \<and> u \<le> u'"
    if "advance_checkpoint key t body db = Inr db'" "get_checkpoint db k = Some u"
    using marks.monotone [OF that] .
  show "get_checkpoint db'' key = Some (whole_seconds (fst (last ts)))"
    if "fold_result (\<lambda>(t, body). advance_checkpoint key t body) ts db = Inr db''" "ts \<noteq> []" "sorted (map (\<lambda>p. whole_seconds (fst p)) ts)" "get_checkpoint db key = None"
    by (rule marks.move_all_last [OF that(1-3)]) (simp add: that(4))
qed

definition sample_signal :: signal where
  "sample_signal = \<lparr>signal_id = ''BTC-20240229-001'', terms = sample_terms, setup_score = 80, regime = BULLISH_TREND,
     biases = \<lparr>monthly = Bias_BULLISH, weekly = Bias_BULLISH, daily = Bias_BULLISH, four_hour = Bias_BULLISH,
       one_hour = Bias_BULLISH, fifteen_minute = Bias_BULLISH\<rparr>,
     reasons = [''trend''], risks = [], strategy_version = ''v1'', status = PENDING, row_version = 1\<rparr>"

theorem checkpoint_monotone_witness:
  "\<exists>db'. advance_checkpoint ''k'' 5000000 [] empty_database = Inr db' \<and> get_checkpoint db' ''k'' = Some 5000000"
proof -
  obtain db' where a: "fold_result (\<lambda>(t, body). advance_checkpoint ''k'' t body) [(5000000, [])] empty_database = Inr db'"
    "advance_checkpoint ''k'' 5000000 [] empty_database = Inr db'"
    by (simp add: advance_checkpoint_def Let_def blank_def is_space_def)
  have "get_checkpoint empty_database ''k'' = None"
    by (simp add: get_checkpoint_def find_checkpoint_def empty_database_def)
  then show ?thesis
    using checkpoint_monotone [of "''k''" 0 "[]" empty_database empty_database "''k''" 0 "[(5000000, [])]" db'] a
    by (simp add: whole_seconds_def usec_defs)
qed

subsection \<open>The tables agree\<close>

lemma row_symbol: "row_ok db r \<Longrightarrow> r_symbol r = ''BTCUSDT''"
proof -
  assume "row_ok db r"
  then obtain s where s: "valid_signal s" "original_row r = original_row (signal_row_of s)" by (auto simp: row_ok_def)
  have "r_symbol (original_row r) = r_symbol (original_row (signal_row_of s))" by (simp add: s(2))
  then have "r_symbol r = symbol (terms s)" by (simp add: original_row_def)
  then show ?thesis using s(1) check_signal_terms_Inr [of "terms s" "terms s"] by (simp add: valid_signal_def)
qed

lemma find_signal_mem:
  assumes "db_ok db" "r \<in> set (signals db)"
  shows "find_signal db (r_signal_id r) = Some r"
  using find_key_distinct [OF db_ok_keys(1) [OF assms(1)] assms(2)] by (simp add: find_signal_def)

lemma find_signal_set: "find_signal db sid = Some r \<Longrightarrow> r \<in> set (signals db) \<and> r_signal_id r = sid"
  by (auto simp: find_signal_def dest!: find_SomeD)

lemma one_active_unique:
  assumes "db_ok db" "r \<in> set (signals db)" "q \<in> set (signals db)" "r_status r = ACTIVE" "r_status q = ACTIVE"
  shows "q = r"
proof -
  have d: "distinct (map r_symbol (filter (\<lambda>r. r_status r = ACTIVE) (signals db)))"
    using assms(1) by (simp add: db_ok_def one_active_def)
  have "r_symbol x = ''BTCUSDT''" if "x \<in> set (signals db)" for x
    using row_symbol sid_ok_Some(2) [OF assms(1) find_signal_mem [OF assms(1) that]] by blast
  then have "r_symbol r = r_symbol q" using assms by simp
  then show ?thesis using d assms by (auto simp: distinct_map dest: inj_onD)
qed

text \<open>
  C8: the tables agree in every reachable database.  At most one signal is active; a signal
  has a trade and both tracks exactly when it was activated (it is active or closed); a
  track has an outcome exactly when it is closed, and then carries its R; and the signal is
  closed exactly when its managed track has an outcome, whatever the fixed track does.
\<close>

theorem repository_consistent:
  assumes "repo_reachable db" "r \<in> set (signals db)"
  shows "(\<forall>q \<in> set (signals db). r_status r = ACTIVE \<and> r_status q = ACTIVE \<longrightarrow> q = r)
     \<and> (find_trade db (r_signal_id r) \<noteq> None \<longleftrightarrow> r_status r \<in> {ACTIVE, CLOSED})
     \<and> (\<forall>v. find_track db (r_signal_id r) v \<noteq> None \<longleftrightarrow> r_status r \<in> {ACTIVE, CLOSED})
     \<and> (\<forall>v k. find_track db (r_signal_id r) v = Some k \<longrightarrow>
          (if k_status k = Track_CLOSED
           then \<exists>q. find_outcome db (r_signal_id r) v = Some q \<and> o_result_r q = k_realized_r k
           else find_outcome db (r_signal_id r) v = None))
     \<and> (r_status r = CLOSED \<longleftrightarrow> find_outcome db (r_signal_id r) MANAGED \<noteq> None)"
proof -
  have ok: "db_ok db" by (rule reachable_ok [OF assms(1)])
  note f = find_signal_mem [OF ok assms(2)]
  note o = sid_ok_Some [OF ok f]
  have u: "\<forall>q \<in> set (signals db). r_status r = ACTIVE \<and> r_status q = ACTIVE \<longrightarrow> q = r"
    using one_active_unique [OF ok assms(2)] by blast
  show ?thesis
  proof (cases "r_status r \<in> {ACTIVE, CLOSED}")
    case False
    then have "untraded db (r_signal_id r)" by (rule o(4))
    then show ?thesis using u False by (auto simp: untraded_def)
  next
    case True
    then have t: "traded db (r_signal_id r) r" by (rule o(3))
    then obtain m where m: "find_track db (r_signal_id r) MANAGED = Some m"
      "track_outcome m (find_outcome db (r_signal_id r) MANAGED)" "k_status m = Track_ACTIVE \<longleftrightarrow> r_status r = ACTIVE"
      unfolding traded_def by blast
    have c: "r_status r = CLOSED \<longleftrightarrow> find_outcome db (r_signal_id r) MANAGED \<noteq> None"
      using m True by (cases "k_status m") (auto simp: track_outcome_def)
    have "if k_status k = Track_CLOSED
           then \<exists>q. find_outcome db (r_signal_id r) v = Some q \<and> o_result_r q = k_realized_r k
           else find_outcome db (r_signal_id r) v = None"
      if "find_track db (r_signal_id r) v = Some k" for v k
    proof -
      have "track_outcome k (find_outcome db (r_signal_id r) v)" using t [unfolded traded_def] that by (metis option.inject)
      then show ?thesis by (cases "k_status k") (auto simp: track_outcome_def)
    qed
    moreover have "find_trade db (r_signal_id r) \<noteq> None" "find_track db (r_signal_id r) v \<noteq> None" for v
      using t by (auto simp: traded_def)
    ultimately show ?thesis using u True c by blast
  qed
qed

subsection \<open>The audit trail\<close>

lemma steps_ok: "repo_step\<^sup>*\<^sup>* db db' \<Longrightarrow> db_ok db \<Longrightarrow> db_ok db'"
  by (induction rule: rtranclp_induct) (auto intro: repo_step_ok)

lemma steps_extend: "repo_step\<^sup>*\<^sup>* db db' \<Longrightarrow> extends db db'"
  by (induction rule: rtranclp_induct) (auto intro: extends_trans repo_step_extends)

lemma find_append:
  "List.find P (xs @ ys) = (case List.find P xs of None \<Rightarrow> List.find P ys | Some x \<Rightarrow> Some x)"
  by (induction xs) auto

lemma find_prefix: "prefix xs ys \<Longrightarrow> List.find P xs = Some x \<Longrightarrow> List.find P ys = Some x"
  by (auto simp: prefix_def find_append)

lemma original_found:
  assumes "extends db db'" "find_signal db sid = Some r"
  shows "\<exists>r'. find_signal db' sid = Some r' \<and> original_row r' = original_row r"
proof -
  have id: "r_signal_id (original_row q) = r_signal_id q" for q by (simp add: original_row_def)
  have f: "List.find (\<lambda>r. r_signal_id r = sid) (map original_row qs)
      = map_option original_row (List.find (\<lambda>r. r_signal_id r = sid) qs)" for qs
    by (rule find_map_keep) (simp add: id)
  have "List.find (\<lambda>r. r_signal_id r = sid) (map original_row (signals db)) = Some (original_row r)"
    using assms(2) unfolding f find_signal_def by simp
  then have "List.find (\<lambda>r. r_signal_id r = sid) (map original_row (signals db')) = Some (original_row r)"
    by (rule find_prefix [rotated]) (use assms(1) in \<open>simp add: extends_def\<close>)
  then show ?thesis unfolding f find_signal_def by auto
qed


lemma sample_signal_valid: "valid_signal sample_signal"
proof -
  have v: "valid_date 2024 2 29" by (simp add: valid_date_def days_in_month_table leap_def)
  have e: "''BTC-'' @ date_digits (2024, 2, 29) @ ''-'' @ pad3 1 = ''BTC-20240229-001''"
    by code_simp
  obtain w where w: "format_signal_id (2024, 2, 29) 1 = Inr w" "validate_signal_id w = Inr w"
    using format_signal_id_valid [of 2024 2 29 1] v by auto
  have "w = ''BTC-20240229-001''" using w(1) e by (simp add: format_signal_id_def)
  then have "validate_signal_id ''BTC-20240229-001'' = Inr ''BTC-20240229-001''" using w(2) by simp
  moreover have "\<not> blank ''trend''" "\<not> blank ''v1''" by (simp_all add: blank_def is_space_def)
  ultimately have "check_signal sample_signal = Inr sample_signal"
    by (simp add: check_signal_def sample_signal_def)
  then show ?thesis
    using sample_terms_ok by (simp add: valid_signal_def sample_signal_def) (simp add: sample_terms_def check_target_def)
qed

definition sample_db :: database where
  "sample_db = (case create_signal sample_signal empty_database of Inl _ \<Rightarrow> empty_database | Inr db \<Rightarrow> db)"

lemma sample_db_created: "create_signal sample_signal empty_database = Inr sample_db"
proof -
  have "is_ok (create_signal sample_signal empty_database)"
    by (simp add: create_signal_def insert_signal_row_def insert_target_row_def insert_event_def target_rows_for_def
        find_signal_def empty_database_def one_active_def sample_signal_def sample_terms_def on_integrity_def new_event_def)
  then show ?thesis by (auto simp: is_ok_iff sample_db_def)
qed

lemma sample_db_step: "repo_step empty_database sample_db"
  by (rule step_create [OF sample_signal_valid sample_db_created])

lemma sample_db_reachable: "repo_reachable sample_db"
  by (rule reach_step [OF reach_empty sample_db_step])

lemma sample_db_signal: "find_signal sample_db ''BTC-20240229-001'' = Some (signal_row_of sample_signal)"
  using create_effect(4) [OF sample_db_created empty_ok sample_signal_valid, of "''BTC-20240229-001''"]
  by (simp add: sample_signal_def)

theorem repository_consistent_witness:
  "find_trade sample_db ''BTC-20240229-001'' = None \<and> find_outcome sample_db ''BTC-20240229-001'' MANAGED = None"
proof -
  have m: "signal_row_of sample_signal \<in> set (signals sample_db)" using find_signal_set [OF sample_db_signal] by simp
  have i: "signal_id sample_signal = ''BTC-20240229-001''" "status sample_signal = PENDING" by (simp_all add: sample_signal_def)
  show ?thesis using repository_consistent [OF sample_db_reachable m] by (auto simp: i)
qed



end
