(* ===== verification/RepositorySuccess.thy ===== *)
theory RepositorySuccess
  imports RepositoryProperties
begin

section \<open>When the writing methods succeed\<close>

text \<open>
  The other direction of the laws: in a well-formed database with a fresh deduplication key
  each method succeeds, so the only ways a call fails are the ones its guards name.  This
  needs one more invariant: a statistics snapshot exists only for a recorded outcome.
\<close>

subsection \<open>Snapshots belong to outcomes\<close>

definition snapshots_ok :: "database \<Rightarrow> bool" where
  "snapshots_ok db \<longleftrightarrow> (\<forall>p \<in> set (snapshots db). p_dedupe_key p = snapshot_key (p_signal_id p) (p_variant p)
     \<and> find_outcome db (p_signal_id p) (p_variant p) \<noteq> None)"

lemma keep_snapshots:
  "insert_signal_row db r = Inr db1 \<Longrightarrow> snapshots db1 = snapshots db"
  "insert_all insert_target_row db gs = Inr db1 \<Longrightarrow> snapshots db1 = snapshots db"
  "insert_trade db d = Inr db1 \<Longrightarrow> snapshots db1 = snapshots db"
  "insert_track db k = Inr db1 \<Longrightarrow> snapshots db1 = snapshots db"
  "insert_event db e = Inr db1 \<Longrightarrow> snapshots db1 = snapshots db"
  "insert_decision db m = Inr db1 \<Longrightarrow> snapshots db1 = snapshots db"
  "insert_outcome db q = Inr db1 \<Longrightarrow> snapshots db1 = snapshots db"
  "set_status db sid x ver new now = Inr (n, db1) \<Longrightarrow> snapshots db1 = snapshots db"
  "update_tracks db P f = (n, db1) \<Longrightarrow> snapshots db1 = snapshots db"
  using insert_signal_row_law(3) [of db r db1] insert_targets_law [of db gs db1] insert_trade_law(3) [of db d db1]
    insert_track_law(3) [of db k db1] insert_event_law(1) [of db e db1] insert_decision_law(1) [of db m db1]
    insert_outcome_law(3) [of db q db1]
  by (auto simp: set_status_def update_signals_def update_tracks_def Let_def split: if_splits)

lemma keep_snapshots_tracks: "insert_all insert_track db ks = Inr db1 \<Longrightarrow> snapshots db1 = snapshots db"
  by (induction ks arbitrary: db) (auto simp: bind_result_eq_Inr dest!: keep_snapshots)

lemma outcomes_grow: "extends db db' \<Longrightarrow> find_outcome db sid v \<noteq> None \<Longrightarrow> find_outcome db' sid v \<noteq> None"
  unfolding find_outcome_def extends_def by (metis find_prefix option.exhaust option.distinct(1))

lemma close_snapshots:
  assumes "close_track c db = Inr db'"
  obtains p where "snapshots db' = snapshots db @ [p]" "p_signal_id p = tc_signal_id c" "p_variant p = tc_variant c"
    "p_dedupe_key p = snapshot_key (tc_signal_id c) (tc_variant c)"
proof -
  obtain k db1 db2 db3 db4 db5 where s:
    "update_tracks db (track_matches (tc_signal_id c) (tc_variant c) k) (closed_fields c) = (1, db1)"
    "insert_outcome db1 (outcome_row_of c) = Inr db2" "insert_event db2 (reason_event c) = Inr db3"
    "insert_event db3 (closed_event c) = Inr db4" "close_managed_signal c db4 = Inr db5"
    "insert_statistics_snapshot (tc_signal_id c) (tc_variant c) (tc_occurred_at c) db5 = Inr db'"
    by (rule close_track_steps [OF assms]) blast
  have "snapshots db5 = snapshots db"
    using s by (auto simp: close_managed_signal_def bind_result_eq_Inr dest!: keep_snapshots split: if_splits)
  moreover obtain report where "insert_snapshot db5 \<lparr>p_signal_id = tc_signal_id c, p_variant = tc_variant c,
      p_calculated_at = whole_seconds (tc_occurred_at c), p_strategy_version = ''statistics-v0.9.0'', p_report = report,
      p_dedupe_key = snapshot_key (tc_signal_id c) (tc_variant c)\<rparr> = Inr db'"
    using s(6) by (auto simp: insert_statistics_snapshot_def bind_result_eq_Inr)
  ultimately show thesis using insert_snapshot_law(1) that by fastforce
qed

lemma repo_step_snapshots:
  assumes "repo_step db db'" "db_ok db" "snapshots_ok db"
  shows "snapshots_ok db'"
proof -
  note x = repo_step_extends [OF assms(1)]
  have same: "snapshots_ok db'" if "snapshots db' = snapshots db"
    using assms(3) outcomes_grow [OF x] that by (auto simp: snapshots_ok_def)
  from assms(1) show ?thesis
  proof (cases rule: repo_step.cases)
    case (step_close c)
    obtain p where p: "snapshots db' = snapshots db @ [p]" "p_signal_id p = tc_signal_id c" "p_variant p = tc_variant c"
      "p_dedupe_key p = snapshot_key (tc_signal_id c) (tc_variant c)"
      by (rule close_snapshots [OF step_close])
    have "find_outcome db' (tc_signal_id c) (tc_variant c) \<noteq> None"
      by (rule close_effect [OF step_close assms(2)]) auto
    then show ?thesis
      using assms(3) outcomes_grow [OF x] p by (auto simp: snapshots_ok_def)
  next
    case (step_allocate d)
    then show ?thesis by (intro same) (simp add: allocate_signal_id_def Let_def)
  next
    case (step_create s)
    then show ?thesis by (intro same) (auto simp: create_signal_def bind_result_eq_Inr dest!: keep_snapshots)
  next
    case (step_activate sid fill now key)
    then show ?thesis
      by (intro same, elim activate_steps) (auto dest!: keep_snapshots keep_snapshots_tracks simp del: insert_all.simps)
  next
    case (step_expire sid now key)
    then show ?thesis
      by (intro same) (auto simp: expire_signal_def transition_pending_def bind_result_eq_Inr split: if_splits dest!: keep_snapshots)
  next
    case (step_cancel sid now key)
    then show ?thesis
      by (intro same) (auto simp: cancel_signal_def transition_pending_def bind_result_eq_Inr split: if_splits dest!: keep_snapshots)
  next
    case (step_event sid v ty now p key body)
    then show ?thesis
      by (intro same) (auto simp: append_trade_event_def bind_result_eq_Inr split: if_splits dest!: keep_snapshots)
  next
    case (step_checkpoint key now body)
    then show ?thesis by (intro same) (auto simp: advance_checkpoint_def Let_def split: if_splits)
  next
    case (step_decision d)
    then show ?thesis by (intro same, elim decision_steps) (auto dest!: keep_snapshots split: if_splits)
  next
    case (step_alert ty body key now s)
    then show ?thesis by (intro same) (auto simp: enqueue_alert_def Let_def split: if_splits)
  next
    case (step_setting key val now)
    then show ?thesis by (intro same) (auto simp: put_setting_def Let_def split: if_splits)
  qed
qed

definition store_ok :: "database \<Rightarrow> bool" where
  "store_ok db \<longleftrightarrow> db_ok db \<and> snapshots_ok db"

lemma store_ok_empty: "store_ok empty_database"
  using empty_ok by (simp add: store_ok_def snapshots_ok_def empty_database_def)

lemma store_ok_step: "repo_step db db' \<Longrightarrow> store_ok db \<Longrightarrow> store_ok db'"
  using repo_step_ok repo_step_snapshots by (simp add: store_ok_def)

lemma store_ok_steps: "repo_step\<^sup>*\<^sup>* db db' \<Longrightarrow> store_ok db \<Longrightarrow> store_ok db'"
  by (induction rule: rtranclp_induct) (auto intro: store_ok_step)

lemma store_ok_reachable: "repo_reachable db \<Longrightarrow> store_ok db"
  by (induction rule: repo_reachable.induct) (auto intro: store_ok_empty store_ok_step)

text \<open>The keys of two snapshots differ when their signals or variants do.\<close>

lemma snapshot_key_inj: "snapshot_key a v = snapshot_key b w \<longleftrightarrow> a = b \<and> v = w"
  by (cases v; cases w) (auto simp: snapshot_key_def append_eq_append_conv2 Cons_eq_append_conv append_eq_Cons_conv)

subsection \<open>Success\<close>

lemma one_active_single:
  assumes "distinct (map r_signal_id rows)" "\<And>r. r \<in> set rows \<Longrightarrow> r_status r = ACTIVE \<Longrightarrow> r_signal_id r = sid"
  shows "one_active rows"
proof -
  let ?xs = "filter (\<lambda>r. r_status r = ACTIVE) rows"
  have d: "distinct (map r_signal_id ?xs)" using assms(1) by (rule distinct_map_filter)
  have "set (map r_signal_id ?xs) \<subseteq> {sid}" using assms(2) by auto
  then have "card (set (map r_signal_id ?xs)) \<le> 1" using card_mono [of "{sid}"] by fastforce
  then have "length ?xs \<le> 1" using distinct_card [OF d] by simp
  then show ?thesis unfolding one_active_def by (cases ?xs) auto
qed

lemma one_active_drop:
  assumes "one_active rows" "\<And>r. r_status (f r) \<noteq> ACTIVE"
  shows "one_active (map (\<lambda>r. if P r then f r else r) rows)"
proof -
  have e: "filter (\<lambda>r. r_status r = ACTIVE) (map (\<lambda>r. if P r then f r else r) rows)
      = filter (\<lambda>r. \<not> P r) (filter (\<lambda>r. r_status r = ACTIVE) rows)"
    using assms(2) by (induction rows) auto
  show ?thesis using assms(1) unfolding one_active_def e by (rule distinct_map_filter)
qed

lemma set_status_succeeds:
  assumes "keys_ok db" "one_active (signals db)" "find_signal db sid = Some row" "r_status row = expected"
    "new = ACTIVE \<Longrightarrow> \<forall>q \<in> set (signals db). r_status q \<noteq> ACTIVE"
  shows "\<exists>db1. set_status db sid expected (r_row_version row) new now = Inr (1, db1)"
proof -
  define P where "P r \<longleftrightarrow> r_signal_id r = sid \<and> r_status r = expected \<and> r_row_version r = r_row_version row" for r :: signal_row
  define f where "f r = r\<lparr>r_status := new, r_updated_at := whole_seconds now, r_row_version := r_row_version r + 1\<rparr>" for r :: signal_row
  have e0: "set_status db sid expected (r_row_version row) new now = update_signals db P f"
    by (simp add: set_status_def P_def [abs_def] f_def [abs_def])
  have d: "distinct (map r_signal_id (signals db))" using assms(1) by (simp add: keys_ok_def)
  have ids: "map r_signal_id (map (\<lambda>r. if P r then f r else r) (signals db)) = map r_signal_id (signals db)"
    by (simp add: f_def)
  have one: "one_active (map (\<lambda>r. if P r then f r else r) (signals db))"
  proof (cases "new = ACTIVE")
    case True
    show ?thesis
    proof (rule one_active_single [where sid = sid])
      show "distinct (map r_signal_id (map (\<lambda>r. if P r then f r else r) (signals db)))" unfolding ids by (rule d)
      show "r_signal_id r = sid" if "r \<in> set (map (\<lambda>r. if P r then f r else r) (signals db))" "r_status r = ACTIVE" for r
        using that assms(5) [OF True] by (auto simp: P_def f_def split: if_splits)
    qed
  next
    case False
    show ?thesis by (rule one_active_drop [OF assms(2)]) (simp add: f_def False)
  qed
  then obtain n db1 where n: "set_status db sid expected (r_row_version row) new now = Inr (n, db1)"
    unfolding e0 by (simp add: update_signals_def Let_def)
  then have "n = 1" using set_status_law(1) [OF n d assms(3,4) refl] by simp
  then show ?thesis using n by blast
qed

lemma insert_event_succeeds:
  "find_signal db (e_signal_id e) \<noteq> None \<Longrightarrow> e_dedupe_key e \<notin> e_dedupe_key ` set (events db) \<Longrightarrow>
   insert_event db e = Inr (db\<lparr>events := events db @ [e]\<rparr>)"
  by (auto simp: insert_event_def list_ex_iff) (metis imageI)

lemma new_event_fields [simp]: "e_signal_id (new_event sid v ty now p body key) = sid"
  "e_dedupe_key (new_event sid v ty now p body key) = key" "e_type (new_event sid v ty now p body key) = ty"
  "e_occurred_at (new_event sid v ty now p body key) = whole_seconds now" "e_variant (new_event sid v ty now p body key) = v"
  "e_price (new_event sid v ty now p body key) = p"
  by (simp_all add: new_event_def)

lemma keep_events:
  "set_status db sid x ver new now = Inr (n, db1) \<Longrightarrow> events db1 = events db \<and> trades db1 = trades db \<and> tracks db1 = tracks db
     \<and> outcomes db1 = outcomes db \<and> decisions db1 = decisions db"
  by (auto simp: set_status_def update_signals_def Let_def split: if_splits)

lemma transition_succeeds:
  assumes "db_ok db" "find_signal db sid = Some row" "r_status row = PENDING" "new \<in> {EXPIRED, CANCELLED}"
    "key \<notin> e_dedupe_key ` set (events db)"
  shows "\<exists>db'. transition_pending sid new now key db = Inr db'"
proof -
  obtain db1 where s: "set_status db sid PENDING (r_row_version row) new now = Inr (1, db1)"
    using set_status_succeeds [of db sid row PENDING new now] assms by (auto simp: db_ok_def)
  note e = set_status_effect [OF s [folded assms(3)] assms(1,2)]
  obtain ev where ev: "transition_event PENDING new = Inr ev"
    using assms(4) by (auto simp: transition_event_def assert_transition_def transitions_def)
  have a: "assert_transition PENDING new = Inr ()"
    using assms(4) by (auto simp: assert_transition_def transitions_def)
  have "insert_event db1 (new_event sid None ev now None [] key) = Inr (db1\<lparr>events := events db1 @ [new_event sid None ev now None [] key]\<rparr>)"
    using e(3) [of sid] keep_events [OF s] assms(5) by (intro insert_event_succeeds) simp_all
  then show ?thesis
    using s ev a assms(2,3) by (simp add: transition_pending_def get_signal_row_def)
qed

lemma activate_succeeds:
  assumes "db_ok db" "0 < fill" "find_signal db sid = Some row" "r_status row = PENDING"
    "\<forall>q \<in> set (signals db). r_status q \<noteq> ACTIVE" "key \<notin> e_dedupe_key ` set (events db)" "key \<notin> d_activation_key ` set (trades db)"
  shows "\<exists>db'. activate_signal sid fill now key db = Inr db'"
proof -
  obtain db1 where s: "set_status db sid PENDING (r_row_version row) ACTIVE now = Inr (1, db1)"
    using set_status_succeeds [of db sid row PENDING ACTIVE now] assms by (auto simp: db_ok_def)
  note e = set_status_effect [OF s [folded assms(4)] assms(1,3)]
  note o = sid_ok_Some [OF assms(1,3)]
  have u: "untraded db sid" using o(4) assms(4) by simp
  define d where "d = trade_row_of row (target_rows_of db1 sid) fill now key"
  define db2 where "db2 = db1\<lparr>trades := trades db1 @ [d]\<rparr>"
  have ids: "d_signal_id d = sid" "d_activation_key d = key" using o(1) by (simp_all add: d_def trade_row_of_def)
  have t: "insert_trade db1 d = Inr db2"
    using e(3,4) [of sid] u keep_events [OF s] assms(7)
    by (auto simp: insert_trade_def ids db2_def untraded_def list_ex_iff)
  note tl = insert_trade_law [OF t]
  define k where "k = track_row_of row now"
  have kid: "k_signal_id (k v) = sid" "k_variant (k v) = v" for v using o(1) by (simp_all add: k_def track_row_of_def)
  have no: "find_track db2 sid v = None" for v using e(5) [of sid v] u by (simp add: db2_def untraded_def)
  define db3 where "db3 = db2\<lparr>tracks := tracks db2 @ [k FIXED]\<rparr>"
  have k1: "insert_track db2 (k FIXED) = Inr db3"
    using tl(4) [of sid] no by (simp add: insert_track_def kid ids db3_def)
  define db4 where "db4 = db3\<lparr>tracks := tracks db3 @ [k MANAGED]\<rparr>"
  have k2: "insert_track db3 (k MANAGED) = Inr db4"
    using tl(4) [of sid] insert_track_law(4) [OF k1, of sid MANAGED] no
    by (simp add: insert_track_def kid ids db4_def) (simp add: db3_def)
  define ev where "ev = new_event sid None Ev_ENTRY_ACTIVATED now (Some fill) [(''fill_policy'', PV_text ''conservative-v1'')] key"
  have i: "insert_event db4 ev = Inr (db4\<lparr>events := events db4 @ [ev]\<rparr>)"
    using e(3) [of sid] keep_events [OF s] assms(6)
    by (intro insert_event_succeeds) (simp_all add: ev_def db4_def db3_def db2_def)
  have "transition_event PENDING ACTIVE = Inr Ev_ENTRY_ACTIVATED" "assert_transition PENDING ACTIVE = Inr ()"
    by (simp_all add: transition_event_def assert_transition_def transitions_def)
  then have "activate_signal sid fill now key db = Inr (db4\<lparr>events := events db4 @ [ev]\<rparr>)"
    using assms(2-4) s t k1 k2 i unfolding activate_signal_def get_signal_row_def
    by (simp add: d_def k_def ev_def)
  then show ?thesis by blast
qed

lemma outcome_sample_ok:
  assumes "db_ok db" "r \<in> set (outcomes db)"
  shows "\<exists>x. sample_of db r = Inr x"
proof -
  have d: "distinct (map (\<lambda>r. (o_signal_id r, o_variant r)) (outcomes db))" using assms(1) by (simp add: db_ok_def keys_ok_def)
  have f: "find_outcome db (o_signal_id r) (o_variant r) = Some r"
    using find_key_distinct [OF d assms(2)] by (simp add: find_outcome_def)
  then have nu: "\<not> untraded db (o_signal_id r)" by (auto simp: untraded_def)
  then obtain s where s: "find_signal db (o_signal_id r) = Some s" "traded db (o_signal_id r) s"
    using assms(1) by (auto simp: db_ok_def sid_ok_def split: option.splits if_splits dest!: spec [of _ "o_signal_id r"])
  obtain k where "find_track db (o_signal_id r) (o_variant r) = Some k" "track_outcome k (find_outcome db (o_signal_id r) (o_variant r))"
    using s(2) unfolding traded_def by blast
  then have signs: "outcome_signs r" using f by (cases "k_status k") (auto simp: track_outcome_def)
  obtain g where g: "valid_signal g" "r_signal_id s = signal_id g" "r_strategy_version s = strategy_version g"
    by (rule row_ok_terms [OF sid_ok_Some(2) [OF assms(1) s(1)]]) blast
  have "check_signal g = Inr g" using g(1) by (simp add: valid_signal_def)
  then have "\<not> blank (strategy_version g)" "validate_signal_id (signal_id g) = Inr (signal_id g)"
    by (auto simp: check_signal_def bind_result_eq_Inr validate_signal_id_def split: if_splits option.splits prod.splits)
  moreover have "validate_signal_id [] \<noteq> Inr []" by (simp add: validate_signal_id_def match_signal_id_def)
  ultimately have "r_strategy_version s = strategy_version g \<and> \<not> blank (r_strategy_version s) \<and> o_signal_id r \<noteq> []"
    using g sid_ok_Some(1) [OF assms(1) s(1)] by auto
  then show ?thesis using signs s(1) by (auto simp: sample_of_def check_outcome_sample_def outcome_signs_def)
qed

text \<open>The sample of an outcome depends on the strategy version of its signal only.\<close>

lemma sample_of_strategy:
  assumes "map_option r_strategy_version (find_signal db (o_signal_id r)) = map_option r_strategy_version (find_signal db' (o_signal_id r))"
  shows "sample_of db r = sample_of db' r"
  using assms by (auto simp: sample_of_def split: option.splits)

lemma map_result_succeeds: "(\<And>x. x \<in> set xs \<Longrightarrow> \<exists>y. f x = Inr y) \<Longrightarrow> \<exists>ys. map_result f xs = Inr ys"
proof (induction xs)
  case (Cons x xs)
  then obtain y ys where "f x = Inr y" "map_result f xs = Inr ys" by (meson list.set_intros)
  then show ?case by simp
qed simp

lemma signal_of_track:
  assumes "db_ok db" "find_track db sid v = Some k"
  obtains r where "find_signal db sid = Some r" "traded db sid r" "r_status r \<in> {ACTIVE, CLOSED}"
proof -
  have "\<not> untraded db sid" using assms(2) by (auto simp: untraded_def)
  then show thesis
    using assms(1) that by (auto simp: db_ok_def sid_ok_def split: option.splits if_splits dest!: spec [of _ sid])
qed

lemma active_track_facts:
  assumes "db_ok db" "find_track db sid v = Some k" "k_status k = Track_ACTIVE"
  shows "find_outcome db sid v = None" "find_trade db sid \<noteq> None" "track_ok k"
    "v = MANAGED \<Longrightarrow> \<exists>r. find_signal db sid = Some r \<and> r_status r = ACTIVE"
proof -
  obtain r where r: "find_signal db sid = Some r" "traded db sid r" by (rule signal_of_track [OF assms(1,2)])
  obtain k' where "find_track db sid v = Some k'" "track_ok k'" "track_outcome k' (find_outcome db sid v)"
    "v = MANAGED \<longrightarrow> (k_status k' = Track_ACTIVE \<longleftrightarrow> r_status r = ACTIVE)"
    using r(2) unfolding traded_def by blast
  then show "find_outcome db sid v = None" "track_ok k" "v = MANAGED \<Longrightarrow> \<exists>r. find_signal db sid = Some r \<and> r_status r = ACTIVE"
    using assms(2,3) r(1) by (auto simp: track_outcome_def)
  show "find_trade db sid \<noteq> None" using r(2) by (auto simp: traded_def)
qed

lemma close_succeeds:
  assumes ok: "store_ok db" and k: "find_track db (tc_signal_id c) (tc_variant c) = Some k" "k_status k = Track_ACTIVE"
    and c: "tc_close_event c \<in> close_events" "\<not> blank (tc_close_reason c)" "outcome_signs (outcome_row_of c)"
    and fresh: "(tc_dedupe_key c @ '':reason'') \<notin> e_dedupe_key ` set (events db)"
      "(tc_dedupe_key c @ '':closed'') \<notin> e_dedupe_key ` set (events db)"
  shows "\<exists>db'. close_track c db = Inr db'"
proof -
  define sid where "sid = tc_signal_id c"
  define v where "v = tc_variant c"
  have db: "db_ok db" "snapshots_ok db" using ok by (auto simp: store_ok_def)
  have k1: "find_track db sid v = Some k" using k(1) by (simp add: sid_def v_def)
  note a = active_track_facts [OF db(1) k1 k(2)]
  obtain r where r: "find_signal db sid = Some r" by (rule signal_of_track [OF db(1) k1])
  have m: "track_matches sid v k k" using k(2) find_track_key [OF k1] by (simp add: track_matches_def)
  obtain n db1 where u: "update_tracks db (track_matches sid v k) (closed_fields c) = (n, db1)" by fastforce
  have n: "n = 1" by (rule update_tracks_law(1) [OF u db_ok_keys(2) [OF db(1)] k1 m]) (auto simp: track_matches_def)
  obtain rows where rows: "db1 = db\<lparr>tracks := rows\<rparr>"
    using u by (auto simp: update_tracks_def)
  define db2 where "db2 = db1\<lparr>outcomes := outcomes db1 @ [outcome_row_of c]\<rparr>"
  have i2: "insert_outcome db1 (outcome_row_of c) = Inr db2"
    using a(1,2) by (auto simp: insert_outcome_def rows db2_def list_ex_iff find_outcome_def find_None_iff sid_def v_def)
  define db3 where "db3 = db2\<lparr>events := events db2 @ [reason_event c]\<rparr>"
  have i3: "insert_event db2 (reason_event c) = Inr db3"
    unfolding db3_def using r fresh(1) by (intro insert_event_succeeds) (simp_all add: reason_event_def db2_def rows sid_def)
  define db4 where "db4 = db3\<lparr>events := events db3 @ [closed_event c]\<rparr>"
  have i4: "insert_event db3 (closed_event c) = Inr db4"
    unfolding db4_def using r fresh(2)
    by (intro insert_event_succeeds) (simp_all add: closed_event_def reason_event_def db3_def db2_def rows sid_def)
  have f4: "find_signal db4 x = find_signal db x" "signals db4 = signals db" for x
    by (simp_all add: db4_def db3_def db2_def rows)
  have dk: "keys_ok db" "one_active (signals db)" using db(1) by (auto simp: db_ok_def)
  have k5: "\<exists>db5. close_managed_signal c db4 = Inr db5 \<and> outcomes db5 = outcomes db4 \<and> snapshots db5 = snapshots db4
      \<and> (\<forall>x. map_option r_strategy_version (find_signal db5 x) = map_option r_strategy_version (find_signal db x))"
  proof (cases "v = MANAGED")
    case False
    then show ?thesis using f4 by (simp add: close_managed_signal_def v_def)
  next
    case True
    then have st: "r_status r = ACTIVE" using a(4) r by auto
    have k4: "keys_ok db4"
      by (rule keys_ok_inserts(4) [OF i4 keys_ok_inserts(4) [OF i3 keys_ok_inserts(5) [OF i2 keys_ok_update_tracks [OF u dk(1)]]]]) simp
    have r4: "find_signal db4 sid = Some r" "one_active (signals db4)" using r f4 dk(2) by simp_all
    obtain db5 where s: "set_status db4 sid ACTIVE (r_row_version r) CLOSED (tc_occurred_at c) = Inr (1, db5)"
      using set_status_succeeds [OF k4 r4(2,1) st, of CLOSED "tc_occurred_at c"] by auto
    have d4: "distinct (map r_signal_id (signals db4))" using k4 by (simp add: keys_ok_def)
    have "find_signal db5 x = (if x = sid then Some (moved_row r CLOSED (tc_occurred_at c)) else find_signal db4 x)" for x
      using set_status_law(2) [OF s d4 r4(1) st refl, of x] by (simp add: moved_row_def)
    then have "map_option r_strategy_version (find_signal db5 x) = map_option r_strategy_version (find_signal db x)" for x
      using f4(1) [of x] r by simp
    moreover have "close_managed_signal c db4 = Inr db5"
      using s r4(1) st True by (simp add: close_managed_signal_def v_def sid_def get_signal_row_def assert_transition_def transitions_def)
    ultimately show ?thesis using keep_events [OF s] keep_snapshots(8) [OF s] by blast
  qed
  then obtain db5 where s5: "close_managed_signal c db4 = Inr db5" "outcomes db5 = outcomes db4" "snapshots db5 = snapshots db4"
    "\<And>x. map_option r_strategy_version (find_signal db5 x) = map_option r_strategy_version (find_signal db x)" by blast
  have "\<exists>xs. map_result (sample_of db5) (joined_outcomes db5) = Inr xs"
  proof (rule map_result_succeeds)
    fix q assume "q \<in> set (joined_outcomes db5)"
    then have "q \<in> set (outcomes db) \<or> q = outcome_row_of c"
      by (auto simp: joined_outcomes_def s5(2) db4_def db3_def db2_def rows split: if_splits)
    moreover have "sample_of db5 q = sample_of db q" by (rule sample_of_strategy) (rule s5(4))
    moreover have "\<exists>x. sample_of db (outcome_row_of c) = Inr x"
    proof -
      obtain g where g: "valid_signal g" "r_signal_id r = signal_id g" "r_strategy_version r = strategy_version g"
        by (rule row_ok_terms [OF sid_ok_Some(2) [OF db(1) r]]) blast
      have "check_signal g = Inr g" using g(1) by (simp add: valid_signal_def)
      then have "\<not> blank (strategy_version g)" "validate_signal_id (signal_id g) = Inr (signal_id g)"
        by (auto simp: check_signal_def bind_result_eq_Inr validate_signal_id_def split: if_splits option.splits prod.splits)
      moreover have "validate_signal_id [] \<noteq> Inr []" by (simp add: validate_signal_id_def match_signal_id_def)
      ultimately have "\<not> blank (r_strategy_version r)" "sid \<noteq> []"
        using g sid_ok_Some(1) [OF db(1) r] by auto
      then show ?thesis using c(3) r by (auto simp: sample_of_def check_outcome_sample_def outcome_signs_def sid_def)
    qed
    ultimately show "\<exists>x. sample_of db5 q = Inr x" using outcome_sample_ok [OF db(1)] by auto
  qed
  then obtain xs where xs: "map_result (sample_of db5) (joined_outcomes db5) = Inr xs" by blast
  obtain report where rep: "calculate_statistics xs (tc_occurred_at c) = Inr report" using calculate_statistics_total by blast
  have "p_dedupe_key p \<noteq> snapshot_key sid v" if "p \<in> set (snapshots db)" for p
  proof
    assume e: "p_dedupe_key p = snapshot_key sid v"
    have "p_dedupe_key p = snapshot_key (p_signal_id p) (p_variant p)" "find_outcome db (p_signal_id p) (p_variant p) \<noteq> None"
      using db(2) that by (auto simp: snapshots_ok_def)
    then show False using e a(1) by (simp add: snapshot_key_inj)
  qed
  moreover have "snapshots db5 = snapshots db" by (simp add: s5(3) db4_def db3_def db2_def rows)
  moreover have "find_signal db5 sid \<noteq> None" using s5(4) [of sid] r by (cases "find_signal db5 sid") simp_all
  ultimately have "\<exists>db'. insert_statistics_snapshot sid v (tc_occurred_at c) db5 = Inr db'"
    using xs rep by (simp add: insert_statistics_snapshot_def insert_snapshot_def list_ex_iff)
  then obtain db' where fin: "insert_statistics_snapshot sid v (tc_occurred_at c) db5 = Inr db'" by blast
  have "require_active_track db sid v = Inr k" using k1 k(2) by (simp add: require_active_track_Inr)
  then have "close_track c db = Inr db'"
    using c(1,2) u n i2 i3 i4 s5(1) fin
    unfolding close_track_def Let_def sid_def v_def reason_event_def closed_event_def by simp
  then show ?thesis by blast
qed

lemma decision_succeeds:
  assumes "db_ok db" "find_track db (md_signal_id d) MANAGED = Some k" "k_status k = Track_ACTIVE"
    "\<not> management_decision_exists db (md_dedupe_key d)" "(md_dedupe_key d @ '':event'') \<notin> e_dedupe_key ` set (events db)"
  shows "\<exists>db'. apply_management_decision d db = Inr db'"
proof -
  note a = active_track_facts [OF assms(1-3)]
  obtain r where r: "find_signal db (md_signal_id d) = Some r" using a(4) by auto
  have m: "track_matches (md_signal_id d) MANAGED k k" using assms(3) find_track_key [OF assms(2)] by (simp add: track_matches_def)
  obtain n db1 where u: "(if md_changes_managed_result d
      then update_tracks db (track_matches (md_signal_id d) MANAGED k) (decided_fields d k) else (1, db)) = (n, db1)" by fastforce
  have n: "n = 1"
  proof (cases "md_changes_managed_result d")
    case True
    then have up: "update_tracks db (track_matches (md_signal_id d) MANAGED k) (decided_fields d k) = (n, db1)" using u by simp
    show ?thesis by (rule update_tracks_law(1) [OF up db_ok_keys(2) [OF assms(1)] assms(2) m]) (auto simp: track_matches_def)
  qed (use u in simp)
  obtain rows where rows: "db1 = db\<lparr>tracks := rows\<rparr>"
    using u by (cases "md_changes_managed_result d") (auto simp: update_tracks_def intro: that [of "tracks db"])
  define db2 where "db2 = db1\<lparr>decisions := decisions db1 @ [decision_row_of d]\<rparr>"
  have i2: "insert_decision db1 (decision_row_of d) = Inr db2"
    using a(2) assms(4) by (auto simp: insert_decision_def rows db2_def management_decision_exists_def decision_row_of_def)
  have i3: "insert_event db2 (decision_event d) = Inr (db2\<lparr>events := events db2 @ [decision_event d]\<rparr>)"
    using r assms(5) by (intro insert_event_succeeds) (simp_all add: decision_event_def db2_def rows)
  have "require_active_track db (md_signal_id d) MANAGED = Inr k" using assms(2,3) by (simp add: require_active_track_Inr)
  then have "apply_management_decision d db = Inr (db2\<lparr>events := events db2 @ [decision_event d]\<rparr>)"
    using u n i2 i3 unfolding apply_management_decision_def Let_def decision_event_def by simp
  then show ?thesis by blast
qed

subsection \<open>Activation\<close>

lemma activate_requires:
  assumes "db_ok db" and a: "activate_signal sid fill now key db = Inr db'"
  shows "0 < fill \<and> (\<exists>r. find_signal db sid = Some r \<and> r_status r = PENDING) \<and> (\<forall>q \<in> set (signals db). r_status q \<noteq> ACTIVE)
      \<and> key \<notin> e_dedupe_key ` set (events db) \<and> key \<notin> d_activation_key ` set (trades db)"
proof -
  obtain row db1 db2 db3 where s: "0 < fill" "find_signal db sid = Some row" "r_status row = PENDING"
    "set_status db sid PENDING (r_row_version row) ACTIVE now = Inr (1, db1)"
    "insert_trade db1 (trade_row_of row (target_rows_of db1 sid) fill now key) = Inr db2"
    "insert_all insert_track db2 (map (track_row_of row now) [FIXED, MANAGED]) = Inr db3"
    "insert_event db3 (new_event sid None Ev_ENTRY_ACTIVATED now (Some fill) [(''fill_policy'', PV_text ''conservative-v1'')] key) = Inr db'"
    by (rule activate_steps [OF a])
  have ok': "db_ok db'" by (rule activate_ok [OF a assms(1)])
  obtain row' where e: "find_signal db sid = Some row'"
    "\<And>x. find_signal db' x = (if x = sid then Some (moved_row row' ACTIVE now) else find_signal db x)"
    by (rule activate_effect [OF a assms(1)]) blast
  have na: "r_status q \<noteq> ACTIVE" if q: "q \<in> set (signals db)" for q
  proof
    assume st: "r_status q = ACTIVE"
    have fq: "find_signal db (r_signal_id q) = Some q" by (rule find_signal_mem [OF assms(1) q])
    then have ne: "r_signal_id q \<noteq> sid" using s(2,3) st by auto
    have "find_signal db' (r_signal_id q) = Some q" "find_signal db' sid = Some (moved_row row' ACTIVE now)"
      using e(2) fq ne by auto
    then have "q \<in> set (signals db')" "moved_row row' ACTIVE now \<in> set (signals db')"
      using find_signal_set by blast+
    then have "q = moved_row row' ACTIVE now" using st by (intro one_active_unique [OF ok']) simp_all
    then show False using ne find_signal_set [OF e(1)] by simp
  qed
  have "key \<notin> e_dedupe_key ` set (events db3)" using insert_event_law(2) [OF s(7)] by simp
  moreover have "prefix (events db) (events db3)"
    using extends_set_status [OF s(4)] extends_inserts(3) [OF s(5)] extends_insert_tracks [OF s(6)]
    unfolding extends_def by (meson prefix_order.trans)
  ultimately have k: "key \<notin> e_dedupe_key ` set (events db)" by (meson image_mono set_mono_prefix subsetD)
  have "key \<notin> d_activation_key ` set (trades db1)"
    using s(5) by (auto simp: insert_trade_def list_ex_iff trade_row_of_def split: if_splits)
  then have "key \<notin> d_activation_key ` set (trades db)" using keep_events [OF s(4)] by simp
  with s(1-3) na k show ?thesis by blast
qed

lemma activate_refused:
  assumes ok: "db_ok db" and "0 < fill" and r: "find_signal db sid = Some r" "r_status r = PENDING"
    and q: "q \<in> set (signals db)" "r_status q = ACTIVE"
  shows "activate_signal sid fill now key db =
          Inl (DuplicateRecordError ''Activation was duplicated or another BTC signal is already active'')"
proof -
  define g where "g q = (if r_signal_id q = sid \<and> r_status q = PENDING \<and> r_row_version q = r_row_version r
    then q\<lparr>r_status := ACTIVE, r_updated_at := whole_seconds now, r_row_version := r_row_version q + 1\<rparr> else q)" for q :: signal_row
  have sy: "r_symbol x = ''BTCUSDT''" if "x \<in> set (signals db)" for x
    using row_symbol sid_ok_Some(2) [OF ok find_signal_mem [OF ok that]] by blast
  have rm: "r \<in> set (signals db)" "r_signal_id r = sid" using find_signal_set [OF r(1)] by auto
  have ga: "r_status (g q) = ACTIVE" "r_status (g r) = ACTIVE" using q(2) rm r(2) by (simp_all add: g_def)
  have gs: "r_symbol (g x) = r_symbol x" "r_signal_id (g x) = r_signal_id x" for x by (simp_all add: g_def)
  have "\<not> one_active (map g (signals db))"
  proof
    assume "one_active (map g (signals db))"
    then have inj: "inj_on r_symbol (set (filter (\<lambda>r. r_status r = ACTIVE) (map g (signals db))))"
      unfolding one_active_def by (simp only: distinct_map)
    have "g q = g r"
      by (rule inj_onD [OF inj]) (use q(1) rm(1) ga sy gs in auto)
    then have "r_signal_id q = r_signal_id r" using gs(2) by metis
    then have "Some q = Some r" using find_signal_mem [OF ok q(1)] find_signal_mem [OF ok rm(1)] by metis
    then show False using q(2) r(2) by simp
  qed
  then have "set_status db sid PENDING (r_row_version r) ACTIVE now = Inl (IntegrityError ''UNIQUE constraint failed: signals.symbol'')"
    by (simp add: set_status_def update_signals_def g_def [abs_def])
  moreover have "transition_event PENDING ACTIVE = Inr Ev_ENTRY_ACTIVATED" "assert_transition PENDING ACTIVE = Inr ()"
    by (simp_all add: transition_event_def assert_transition_def transitions_def)
  ultimately show ?thesis using assms(2) r by (simp add: activate_signal_def get_signal_row_def on_integrity_def)
qed

text \<open>
  C15: activation succeeds exactly when it may.  In a reachable database a call succeeds if
  and only if the price is positive, the signal is pending, no signal is active and the key
  is fresh; a pending signal is refused as a duplicate while another signal is active, and
  after success the fill, both open tracks at the original stop and the new status are
  what the lifecycle reads back.
\<close>

theorem activation_exact:
  assumes "repo_reachable db"
  shows "((\<exists>db'. activate_signal sid fill now key db = Inr db') \<longleftrightarrow>
           0 < fill \<and> (\<exists>r. find_signal db sid = Some r \<and> r_status r = PENDING)
           \<and> (\<forall>q \<in> set (signals db). r_status q \<noteq> ACTIVE)
           \<and> key \<notin> e_dedupe_key ` set (events db) \<and> key \<notin> d_activation_key ` set (trades db))
     \<and> (\<forall>db'. activate_signal sid fill now key db = Inr db' \<longrightarrow>
           (\<exists>r d. find_signal db' sid = Some r \<and> r_status r = ACTIVE \<and> find_trade db' sid = Some d \<and> d_fill_price d = fill
              \<and> (\<forall>v. \<exists>k. find_track db' sid v = Some k \<and> k_status k = Track_ACTIVE \<and> k_current_stop k = r_original_stop r
                    \<and> k_remaining_fraction k = 1 \<and> k_realized_r k = 0)))
     \<and> (0 < fill \<longrightarrow> (\<exists>r. find_signal db sid = Some r \<and> r_status r = PENDING) \<longrightarrow>
        (\<exists>q \<in> set (signals db). r_status q = ACTIVE) \<longrightarrow>
        activate_signal sid fill now key db =
          Inl (DuplicateRecordError ''Activation was duplicated or another BTC signal is already active''))"
    (is "?succ \<and> ?post \<and> ?dup")
proof (intro conjI)
  have ok: "db_ok db" by (rule reachable_ok [OF assms])
  show ?succ using activate_requires [OF ok] activate_succeeds [OF ok] by blast
  show ?post
  proof (intro allI impI)
    fix db' assume a: "activate_signal sid fill now key db = Inr db'"
    show "\<exists>r d. find_signal db' sid = Some r \<and> r_status r = ACTIVE \<and> find_trade db' sid = Some d \<and> d_fill_price d = fill
              \<and> (\<forall>v. \<exists>k. find_track db' sid v = Some k \<and> k_status k = Track_ACTIVE \<and> k_current_stop k = r_original_stop r
                    \<and> k_remaining_fraction k = 1 \<and> k_realized_r k = 0)"
      by (rule activate_effect [OF a ok]) (simp add: trade_row_of_def track_row_of_def)
  qed
  show ?dup using activate_refused [OF ok] by blast
qed

definition sample_id :: string where "sample_id = ''BTC-20240229-001''"

lemma sample_db_facts:
  "signals sample_db = [signal_row_of sample_signal]" "trades sample_db = []"
  "map e_dedupe_key (events sample_db) = [''signal:BTC-20240229-001:created'']"
proof -
  obtain db1 db2 where s: "insert_signal_row empty_database (signal_row_of sample_signal) = Inr db1"
    "insert_all insert_target_row db1 (target_rows_for sample_signal) = Inr db2"
    "insert_event db2 (new_event (signal_id sample_signal) None Ev_SIGNAL_CREATED (created_at (terms sample_signal)) None
       [(''strategy_version'', PV_text (strategy_version sample_signal))] (''signal:'' @ signal_id sample_signal @ '':created'')) = Inr sample_db"
    using sample_db_created by (auto simp: create_signal_def bind_result_eq_Inr)
  note l = insert_signal_row_law(3) [OF s(1)] insert_targets_law [OF s(2)] insert_event_law(1) [OF s(3)]
  show "signals sample_db = [signal_row_of sample_signal]" "trades sample_db = []"
    "map e_dedupe_key (events sample_db) = [''signal:BTC-20240229-001:created'']"
    by (simp_all add: l empty_database_def sample_signal_def)
qed

theorem activation_exact_witness:
  "\<exists>db'. activate_signal ''BTC-20240229-001'' 100 0 ''k'' sample_db = Inr db'"
proof -
  have "find_signal sample_db ''BTC-20240229-001'' = Some (signal_row_of sample_signal)" by (rule sample_db_signal)
  moreover have p: "r_status (signal_row_of sample_signal) = PENDING" by (simp add: sample_signal_def)
  moreover have "\<forall>q \<in> set (signals sample_db). r_status q \<noteq> ACTIVE" by (simp add: sample_db_facts(1)) (simp add: sample_signal_def)
  moreover have "e_dedupe_key ` set (events sample_db) = {''signal:BTC-20240229-001:created''}"
    using arg_cong [OF sample_db_facts(3), of set] by (simp only: set_map list.set)
  then have "''k'' \<notin> e_dedupe_key ` set (events sample_db)" by simp
  moreover have "''k'' \<notin> d_activation_key ` set (trades sample_db)" by (simp add: sample_db_facts(2))
  moreover have "0 < (100 :: rat)" by simp
  ultimately show ?thesis
    by (intro conjunct1 [OF activation_exact [OF sample_db_reachable], THEN iffD2]) (intro conjI exI; assumption)
qed

text \<open>An activated signal and a losing close of its fixed track, on which closing is evaluated.\<close>

definition sample_close :: track_close where
  "sample_close = \<lparr>tc_signal_id = ''BTC-20240229-001'', tc_variant = FIXED, tc_result = LOSS, tc_result_r = - 1,
     tc_result_percent = - 1, tc_close_reason = ''stop'', tc_close_event = Ev_STOP_LOSS_HIT, tc_price = 98,
     tc_occurred_at = 60000000, tc_dedupe_key = ''c'', tc_details = []\<rparr>"

lemma sample_active_exists:
  obtains db where "repo_reachable db" "store_ok db"
    "find_track db ''BTC-20240229-001'' FIXED = Some (track_row_of (signal_row_of sample_signal) 0 FIXED)"
    "e_dedupe_key ` set (events db) = {''signal:BTC-20240229-001:created'', ''k''}"
proof -
  have r: "find_signal sample_db ''BTC-20240229-001'' = Some (signal_row_of sample_signal)" by (rule sample_db_signal)
  have p: "r_status (signal_row_of sample_signal) = PENDING" by (simp add: sample_signal_def)
  have ev: "e_dedupe_key ` set (events sample_db) = {''signal:BTC-20240229-001:created''}"
    using arg_cong [OF sample_db_facts(3), of set] by (simp only: set_map list.set)
  have ok: "db_ok sample_db" by (rule reachable_ok [OF sample_db_reachable])
  have na: "\<forall>q \<in> set (signals sample_db). r_status q \<noteq> ACTIVE"
    by (simp add: sample_db_facts(1)) (simp add: sample_signal_def)
  have f: "''k'' \<notin> e_dedupe_key ` set (events sample_db)" "''k'' \<notin> d_activation_key ` set (trades sample_db)" "0 < (100 :: rat)"
    by (simp_all add: ev sample_db_facts(2))
  obtain db where a: "activate_signal ''BTC-20240229-001'' 100 0 ''k'' sample_db = Inr db"
    using activate_succeeds [OF ok f(3) r p na f(1,2)] by (rule exE)
  have reach: "repo_reachable db" by (rule reach_step [OF sample_db_reachable step_activate [OF a]])
  have t: "find_track db ''BTC-20240229-001'' FIXED = Some (track_row_of (signal_row_of sample_signal) 0 FIXED)"
  proof -
    obtain row where "find_signal sample_db ''BTC-20240229-001'' = Some row"
      "\<And>x v. find_track db x v = (if x = ''BTC-20240229-001'' then Some (track_row_of row 0 v) else find_track sample_db x v)"
      by (rule activate_effect [OF a ok]) blast
    then show ?thesis using r by simp
  qed
  obtain row db1 db2 db3 where s:
    "set_status sample_db ''BTC-20240229-001'' PENDING (r_row_version row) ACTIVE 0 = Inr (1, db1)"
    "insert_trade db1 (trade_row_of row (target_rows_of db1 ''BTC-20240229-001'') 100 0 ''k'') = Inr db2"
    "insert_all insert_track db2 (map (track_row_of row 0) [FIXED, MANAGED]) = Inr db3"
    "insert_event db3 (new_event ''BTC-20240229-001'' None Ev_ENTRY_ACTIVATED 0 (Some 100) [(''fill_policy'', PV_text ''conservative-v1'')] ''k'') = Inr db"
    by (rule activate_steps [OF a]) blast
  obtain db4 where k: "insert_track db2 (track_row_of row 0 FIXED) = Inr db4" "insert_track db4 (track_row_of row 0 MANAGED) = Inr db3"
    using s(3) by (auto simp: bind_result_eq_Inr)
  have "events db3 = events sample_db"
    using keep_events [OF s(1)] insert_trade_law(3) [OF s(2)] insert_track_law(3) [OF k(1)] insert_track_law(3) [OF k(2)] by simp
  then have "e_dedupe_key ` set (events db) = {''signal:BTC-20240229-001:created'', ''k''}"
    using insert_event_law(1) [OF s(4)] ev by auto
  then show thesis by (rule that [OF reach store_ok_reachable [OF reach] t])
qed


end
