(* ===== verification/SignalStore.thy ===== *)
theory SignalStore
  imports RepositorySuccess
begin

section \<open>The repository port and the lifecycle signal it presents\<close>

text \<open>
  \<^verbatim>\<open>persistence/repository.py\<close>: the protocol the engines are written against, as a record of
  operations over the state of a store, and its implementation by the SQLite repository.  The
  locale \<open>signal_store\<close> states what the engines rely on: how each write changes the lifecycle
  signal that a later read presents.  It is interpreted on the SQLite repository.
\<close>

subsection \<open>The port\<close>

record 's repository_port =
  rp_allocate_signal_id :: "date \<Rightarrow> ('s, string) program"
  rp_create_signal :: "signal \<Rightarrow> ('s, unit) program"
  rp_get_signal_status :: "string \<Rightarrow> ('s, signal_status) program"
  rp_get_lifecycle_signal :: "string \<Rightarrow> ('s, lifecycle_signal) program"
  rp_activate_signal :: "string \<Rightarrow> decimal \<Rightarrow> instant \<Rightarrow> string \<Rightarrow> ('s, unit) program"
  rp_expire_signal :: "string \<Rightarrow> instant \<Rightarrow> string \<Rightarrow> ('s, unit) program"
  rp_cancel_signal :: "string \<Rightarrow> instant \<Rightarrow> string \<Rightarrow> ('s, unit) program"
  rp_close_track :: "track_close \<Rightarrow> ('s, unit) program"
  rp_get_track_status :: "string \<Rightarrow> outcome_variant \<Rightarrow> ('s, track_status) program"
  rp_get_checkpoint :: "string \<Rightarrow> ('s, instant option) program"
  rp_advance_checkpoint :: "string \<Rightarrow> instant \<Rightarrow> payload \<Rightarrow> ('s, unit) program"
  rp_apply_management_decision :: "management_decision \<Rightarrow> ('s, unit) program"
  rp_management_decision_exists :: "string \<Rightarrow> ('s, bool) program"
  rp_latest_statistics_snapshot :: "('s, snapshot_row option) program"
  rp_list_outcome_samples :: "instant option \<Rightarrow> instant option \<Rightarrow> ('s, outcome_sample list) program"
  rp_list_report_signals :: "signal_status \<Rightarrow> ('s, report_signal list) program"

definition sqlite_port :: "database repository_port" where
  "sqlite_port =
     \<lparr>rp_allocate_signal_id = allocate_signal_id,
      rp_create_signal = (\<lambda>s. transact_p (create_signal s)),
      rp_get_signal_status = (\<lambda>sid. query_p (\<lambda>db. get_signal_status db sid)),
      rp_get_lifecycle_signal = (\<lambda>sid. query_p (\<lambda>db. get_lifecycle_signal db sid)),
      rp_activate_signal = (\<lambda>sid fill t key. transact_p (activate_signal sid fill t key)),
      rp_expire_signal = (\<lambda>sid t key. transact_p (expire_signal sid t key)),
      rp_cancel_signal = (\<lambda>sid t key. transact_p (cancel_signal sid t key)),
      rp_close_track = (\<lambda>c. transact_p (close_track c)),
      rp_get_track_status = (\<lambda>sid v. query_p (\<lambda>db. get_track_status db sid v)),
      rp_get_checkpoint = (\<lambda>key. query_p (\<lambda>db. Inr (get_checkpoint db key))),
      rp_advance_checkpoint = (\<lambda>key t body. transact_p (advance_checkpoint key t body)),
      rp_apply_management_decision = (\<lambda>d. transact_p (apply_management_decision d)),
      rp_management_decision_exists = (\<lambda>key. query_p (\<lambda>db. Inr (management_decision_exists db key))),
      rp_latest_statistics_snapshot = query_p (\<lambda>db. Inr (latest_statistics_snapshot db)),
      rp_list_outcome_samples = (\<lambda>a b. query_p (\<lambda>db. list_outcome_samples db a b)),
      rp_list_report_signals = (\<lambda>st. query_p (\<lambda>db. list_report_signals db st))\<rparr>"

lemma sqlite_port_ops [simp]:
  "rp_get_lifecycle_signal sqlite_port sid = query_p (\<lambda>db. get_lifecycle_signal db sid)"
  "rp_activate_signal sqlite_port sid fill t key = transact_p (activate_signal sid fill t key)"
  "rp_expire_signal sqlite_port sid t key = transact_p (expire_signal sid t key)"
  "rp_close_track sqlite_port c = transact_p (close_track c)"
  "rp_get_checkpoint sqlite_port key = query_p (\<lambda>db. Inr (get_checkpoint db key))"
  "rp_advance_checkpoint sqlite_port key t body = transact_p (advance_checkpoint key t body)"
  "rp_apply_management_decision sqlite_port d = transact_p (apply_management_decision d)"
  "rp_management_decision_exists sqlite_port key = query_p (\<lambda>db. Inr (management_decision_exists db key))"
  "rp_list_outcome_samples sqlite_port a b = query_p (\<lambda>db. list_outcome_samples db a b)"
  "rp_list_report_signals sqlite_port st = query_p (\<lambda>db. list_report_signals db st)"
  by (simp_all add: sqlite_port_def)

lemma transact_p_eq_Inr: "transact_p f s = (Inr (), t) \<longleftrightarrow> f s = Inr t"
  by (auto simp: transact_p_def split: sum.splits)

subsection \<open>What a write does to the signal that is read back\<close>

definition fresh_track :: "lifecycle_signal \<Rightarrow> outcome_variant \<Rightarrow> track_state" where
  "fresh_track s v = \<lparr>ts_variant = v, ts_current_stop = ls_original_stop s, ts_remaining_fraction = 1, ts_realized_r = 0\<rparr>"

definition moved_signal :: "signal_status \<Rightarrow> lifecycle_signal \<Rightarrow> lifecycle_signal" where
  "moved_signal st s = s\<lparr>ls_status := st\<rparr>"

definition opened_signal :: "decimal \<Rightarrow> instant \<Rightarrow> lifecycle_signal \<Rightarrow> lifecycle_signal" where
  "opened_signal fill t s =
     s\<lparr>ls_status := ACTIVE, ls_fill_price := Some fill, ls_activated_at := Some (whole_seconds t),
       ls_active_tracks := map (fresh_track s) [FIXED, MANAGED]\<rparr>"

definition shut_signal :: "outcome_variant \<Rightarrow> lifecycle_signal \<Rightarrow> lifecycle_signal" where
  "shut_signal v s =
     s\<lparr>ls_status := (if v = MANAGED then CLOSED else ls_status s),
       ls_active_tracks := filter (\<lambda>t. ts_variant t \<noteq> v) (ls_active_tracks s)\<rparr>"

definition decided_state :: "management_decision \<Rightarrow> track_state \<Rightarrow> track_state" where
  "decided_state d t =
     (if md_changes_managed_result d \<and> ts_variant t = MANAGED then
        t\<lparr>ts_current_stop := value_or (ts_current_stop t) (md_updated_stop d),
          ts_remaining_fraction := value_or (ts_remaining_fraction t) (md_remaining_fraction_after d),
          ts_realized_r := value_or (ts_realized_r t) (md_realized_r_after d)\<rparr>
      else t)"

definition decided_signal :: "management_decision \<Rightarrow> lifecycle_signal \<Rightarrow> lifecycle_signal" where
  "decided_signal d s = s\<lparr>ls_active_tracks := map (decided_state d) (ls_active_tracks s)\<rparr>"

text \<open>
  What every signal read from the store satisfies: it carries validated terms, and its tracks
  are ordered, distinct and fit the status.
\<close>

definition terms_of :: "lifecycle_signal \<Rightarrow> signal_terms \<Rightarrow> bool" where
  "terms_of s t \<longleftrightarrow> check_signal_terms t = Inr t \<and> side t = ls_side s \<and> entry_low t = ls_entry_low s
     \<and> entry_high t = ls_entry_high s \<and> original_stop t = ls_original_stop s \<and> targets t = ls_targets s
     \<and> estimated_round_trip_cost_rate t = ls_cost_rate s \<and> recommended_risk_percent t = ls_risk_percent s"

definition tracks_fit :: "lifecycle_signal \<Rightarrow> bool" where
  "tracks_fit s \<longleftrightarrow>
     (case ls_status s of
        ACTIVE \<Rightarrow> ls_fill_price s \<noteq> None \<and> ls_activated_at s \<noteq> None \<and> MANAGED \<in> set (active_variants s)
      | CLOSED \<Rightarrow> ls_fill_price s \<noteq> None \<and> ls_activated_at s \<noteq> None \<and> MANAGED \<notin> set (active_variants s)
      | _ \<Rightarrow> ls_fill_price s = None \<and> ls_activated_at s = None \<and> ls_active_tracks s = [])"

definition signal_shape :: "lifecycle_signal \<Rightarrow> bool" where
  "signal_shape s \<longleftrightarrow> (\<exists>t. terms_of s t) \<and> tracks_fit s
     \<and> sorted_wrt (<) (active_variants s)
     \<and> (\<forall>t \<in> set (ls_active_tracks s). 0 < ts_current_stop t \<and> 0 < ts_remaining_fraction t \<and> ts_remaining_fraction t \<le> 1)
     \<and> (\<forall>fill. ls_fill_price s = Some fill \<longrightarrow> 0 < fill)"

subsection \<open>The view of a signal in the tables\<close>

definition track_state_of :: "track_row \<Rightarrow> track_state" where
  "track_state_of k = \<lparr>ts_variant = k_variant k, ts_current_stop = k_current_stop k,
     ts_remaining_fraction = k_remaining_fraction k, ts_realized_r = k_realized_r k\<rparr>"

definition open_tracks :: "(outcome_variant \<Rightarrow> track_row option) \<Rightarrow> track_row list" where
  "open_tracks f = concat (map (\<lambda>v. case f v of None \<Rightarrow> [] | Some k \<Rightarrow> if k_status k = Track_ACTIVE then [k] else []) [FIXED, MANAGED])"

definition signal_view :: "database \<Rightarrow> string \<Rightarrow> signal_row \<Rightarrow> lifecycle_signal" where
  "signal_view db sid r =
     lifecycle_signal_of r (find_trade db sid) (map (\<lambda>g. \<lparr>t_ordinal = g_ordinal g, t_price = g_price g\<rparr>) (target_rows_at db sid))
       (map track_state_of (open_tracks (find_track db sid)))"

lemma map_result_Inr_map: "(\<And>x. x \<in> set xs \<Longrightarrow> f x = Inr (g x)) \<Longrightarrow> map_result f xs = Inr (map g xs)"
  by (induction xs) simp_all

lemma open_tracks_set:
  "k \<in> set (open_tracks f) \<longleftrightarrow> (\<exists>v. f v = Some k \<and> k_status k = Track_ACTIVE)"
proof -
  have "v = FIXED \<or> v = MANAGED" for v by (cases v) auto
  then show ?thesis by (auto simp: open_tracks_def split: option.splits if_splits) metis+
qed

lemma variant_less [simp]: "(a :: outcome_variant) < b \<longleftrightarrow> a = FIXED \<and> b = MANAGED"
  by (cases a; cases b) (simp_all add: less_outcome_variant_def)

lemma open_tracks_sorted:
  "(\<And>v k. f v = Some k \<Longrightarrow> k_variant k = v) \<Longrightarrow> sorted_wrt (<) (map k_variant (open_tracks f))"
  by (auto simp: open_tracks_def split: option.splits)

lemma active_track_rows_view:
  assumes "db_ok db"
  shows "active_track_rows db sid = open_tracks (find_track db sid)"
proof -
  let ?rows = "filter (\<lambda>k. k_signal_id k = sid \<and> k_status k = Track_ACTIVE) (tracks db)"
  have d: "distinct (map (\<lambda>k. (k_signal_id k, k_variant k)) (tracks db))" by (rule db_ok_keys(2) [OF assms])
  have m: "k \<in> set ?rows \<longleftrightarrow> k \<in> set (open_tracks (find_track db sid))" for k
  proof
    assume "k \<in> set ?rows"
    then have k: "k \<in> set (tracks db)" "k_signal_id k = sid" "k_status k = Track_ACTIVE" by auto
    have "find_track db sid (k_variant k) = Some k"
      using find_key_distinct [OF d k(1)] k(2) by (simp add: find_track_def)
    then show "k \<in> set (open_tracks (find_track db sid))" using k(3) by (auto simp: open_tracks_set)
  next
    assume "k \<in> set (open_tracks (find_track db sid))"
    then obtain v where v: "find_track db sid v = Some k" "k_status k = Track_ACTIVE" by (auto simp: open_tracks_set)
    then show "k \<in> set ?rows" by (auto simp: find_track_def dest!: find_SomeD)
  qed
  have fd: "distinct (map (\<lambda>k. (k_signal_id k, k_variant k)) ?rows)" by (rule distinct_map_filter [OF d])
  have "map (\<lambda>k. (k_signal_id k, k_variant k)) ?rows = map (Pair sid) (map k_variant ?rows)" by (simp add: o_def)
  then have dv: "distinct (map k_variant ?rows)" using fd by (metis distinct_map)
  have s1: "sorted_wrt (<) (map k_variant (open_tracks (find_track db sid)))"
    by (rule open_tracks_sorted) (auto dest: find_track_key)
  have s2: "sorted_wrt (\<lambda>a b. k_variant a \<le> k_variant b) (active_track_rows db sid)"
    unfolding active_track_rows_def by (rule sorted_wrt_sort_by) auto
  have "distinct (map k_variant (active_track_rows db sid))"
    using dv by (simp add: active_track_rows_def distinct_map inj_on_def)
  then have s3: "sorted_wrt (<) (map k_variant (active_track_rows db sid))"
    using s2 by (simp add: strict_sorted_iff sorted_map)
  have "map k_variant (active_track_rows db sid) = map k_variant (open_tracks (find_track db sid))"
    by (rule strict_sorted_equal [OF s1 s3]) (use m in \<open>auto simp: active_track_rows_def\<close>)
  moreover have "inj_on k_variant (set (active_track_rows db sid) \<union> set (open_tracks (find_track db sid)))"
  proof -
    have "set (active_track_rows db sid) \<union> set (open_tracks (find_track db sid)) = set ?rows"
      using m by (auto simp: active_track_rows_def)
    then show ?thesis using dv by (simp add: distinct_map)
  qed
  ultimately show ?thesis by (rule map_inj_on)
qed

lemma signal_view_read:
  assumes ok: "db_ok db" and r: "find_signal db sid = Some r"
  shows "get_lifecycle_signal db sid =
    (if r_expires_at r \<le> r_created_at r
     then Inl (DomainValidationError ''Lifecycle signal identity or time range is invalid'')
     else Inr (signal_view db sid r))" (is ?read)
    and "signal_shape (signal_view db sid r)" (is ?shape)
proof -
  note o = sid_ok_Some [OF ok r]
  obtain g where g: "valid_signal g" "r_signal_id r = signal_id g" "r_side r = side (terms g)"
    "r_entry_low r = entry_low (terms g)" "r_entry_high r = entry_high (terms g)"
    "r_original_stop r = original_stop (terms g)" "r_cost_rate r = estimated_round_trip_cost_rate (terms g)"
    "r_risk_percent r = recommended_risk_percent (terms g)" "target_rows_at db sid = target_rows_for g"
    "check_signal_terms (terms g) = Inr (terms g)"
    by (rule row_ok_terms [OF o(2)]) (use o(1) in auto)
  let ?rows = "target_rows_at db sid"
  let ?tg = "\<lambda>g. \<lparr>t_ordinal = g_ordinal g, t_price = g_price g\<rparr>"
  have ords: "map t_ordinal (targets (terms g)) = map int [1..<Suc (length (targets (terms g)))]"
    and len: "2 \<le> length (targets (terms g))"
    and pos: "0 < entry_low (terms g)" "entry_low (terms g) \<le> entry_high (terms g)" "0 < original_stop (terms g)"
    using g(10) by (auto simp: check_signal_terms_def split: if_splits)
  have "map ?tg ?rows = map (\<lambda>x. \<lparr>t_ordinal = t_ordinal x, t_price = t_price x\<rparr>) (targets (terms g))"
    by (simp add: g(9) target_rows_for_def o_def)
  also have "\<dots> = targets (terms g)" by (rule map_idI) simp
  finally have tr: "map ?tg ?rows = targets (terms g)" .
  have "map g_ordinal ?rows = map int [1..<Suc (length (targets (terms g)))]"
    unfolding ords [symmetric] by (simp add: g(9) target_rows_for_def o_def)
  then have "sorted_wrt (\<le>) (map g_ordinal ?rows)" by (simp add: sorted_map del: upt_Suc)
  then have "sorted_wrt (\<lambda>a b. g_ordinal a \<le> g_ordinal b) ?rows" by (simp only: sorted_wrt_map)
  then have "target_rows_of db sid = ?rows"
    unfolding target_rows_of_def target_rows_at_def by (rule sort_by_id)
  moreover have "read_target x = Inr (?tg x)" if "x \<in> set ?rows" for x
  proof -
    have "?tg x \<in> set (map ?tg ?rows)" unfolding set_map using that by (rule imageI)
    then have "?tg x \<in> set (targets (terms g))" unfolding tr .
    then show ?thesis using g(1) by (auto simp: valid_signal_def list_all_iff read_target_def)
  qed
  ultimately have t: "map_result read_target (target_rows_of db sid) = Inr (map ?tg ?rows)"
    by (simp add: map_result_Inr_map)
  have sane: "track_ok k \<and> k_signal_id k = sid" if m: "k \<in> set (open_tracks (find_track db sid))" for k
  proof -
    obtain v where v: "find_track db sid v = Some k" "k_status k = Track_ACTIVE" using m by (auto simp: open_tracks_set)
    show ?thesis using active_track_facts(3) [OF ok v] find_track_key [OF v(1)] by simp
  qed
  then have k: "map_result read_track (active_track_rows db sid) = Inr (map track_state_of (open_tracks (find_track db sid)))"
    unfolding active_track_rows_view [OF ok]
    by (intro map_result_Inr_map) (auto simp: read_track_def check_track_state_def track_state_of_def track_ok_def dest!: sane)
  have "validate_signal_id [] \<noteq> Inr []" by (simp add: validate_signal_id_def match_signal_id_def)
  then have ne: "r_signal_id r \<noteq> []"
    using g(1,2) by (auto simp: valid_signal_def check_signal_def bind_result_eq_Inr validate_signal_id_def split: if_splits option.splits prod.splits)
  have v: "find_track db sid v = Some k \<Longrightarrow> k_variant k = v" for v k by (auto dest: find_track_key)
  have act: "active_variants (signal_view db sid r) = map k_variant (open_tracks (find_track db sid))"
    by (simp add: active_variants_def signal_view_def lifecycle_signal_of_def track_state_of_def o_def)
  have mem: "w \<in> set (active_variants (signal_view db sid r)) \<longleftrightarrow> (\<exists>k. find_track db sid w = Some k \<and> k_status k = Track_ACTIVE)" for w
    unfolding act set_map image_iff Bex_def open_tracks_set using v by blast
  have fit: "tracks_fit (signal_view db sid r)"
  proof (cases "r_status r \<in> {ACTIVE, CLOSED}")
    case True
    then obtain d k where d: "find_trade db sid = Some d" and k: "find_track db sid MANAGED = Some k"
      "k_status k = Track_ACTIVE \<longleftrightarrow> r_status r = ACTIVE"
      using o(3) unfolding traded_def by blast
    then show ?thesis using True mem [of MANAGED]
      by (auto simp: tracks_fit_def) (auto simp: signal_view_def lifecycle_signal_of_def)
  next
    case False
    then have u: "untraded db sid" by (rule o(4))
    then show ?thesis using False
      by (cases "r_status r") (auto simp: tracks_fit_def signal_view_def lifecycle_signal_of_def untraded_def open_tracks_def)
  qed
  have fill: "0 < fill" if f: "ls_fill_price (signal_view db sid r) = Some fill" for fill
  proof -
    obtain d where d: "find_trade db sid = Some d" "fill = d_fill_price d"
      using f by (auto simp: signal_view_def lifecycle_signal_of_def)
    then have "traded db sid r" using o(3,4) by (auto simp: untraded_def)
    then show ?thesis using d by (auto simp: traded_def trade_ok_def)
  qed
  have chk: "check_lifecycle_signal (signal_view db sid r) = (if r_expires_at r \<le> r_created_at r
     then Inl (DomainValidationError ''Lifecycle signal identity or time range is invalid'')
     else Inr (signal_view db sid r))"
    using fit ne pos len g(4-6) tr
    by (auto simp: check_lifecycle_signal_def tracks_fit_def signal_view_def lifecycle_signal_of_def split: signal_status.splits)
  show ?read using t k chk unfolding get_lifecycle_signal_def signal_view_def by (simp add: r)
  have "terms_of (signal_view db sid r) (terms g)"
    using g tr by (simp add: terms_of_def signal_view_def lifecycle_signal_of_def)
  moreover have "sorted_wrt (<) (active_variants (signal_view db sid r))"
    unfolding act by (rule open_tracks_sorted) (rule v)
  moreover have "\<forall>t \<in> set (ls_active_tracks (signal_view db sid r)). 0 < ts_current_stop t \<and> 0 < ts_remaining_fraction t \<and> ts_remaining_fraction t \<le> 1"
    by (auto simp: signal_view_def lifecycle_signal_of_def track_state_of_def track_ok_def dest!: sane)
  ultimately show ?shape using fit fill by (auto simp: signal_shape_def)
qed

lemma signal_read_Inr:
  assumes "db_ok db"
  shows "get_lifecycle_signal db sid = Inr s \<longleftrightarrow>
    (\<exists>r. find_signal db sid = Some r \<and> r_created_at r < r_expires_at r \<and> s = signal_view db sid r)"
proof (cases "find_signal db sid")
  case None
  then show ?thesis by (simp add: get_lifecycle_signal_def)
next
  case (Some r)
  then show ?thesis using signal_view_read(1) [OF assms Some] by auto
qed

lemma signal_view_fields [simp]:
  "ls_status (signal_view db sid r) = r_status r" "ls_signal_id (signal_view db sid r) = r_signal_id r"
  "ls_created_at (signal_view db sid r) = r_created_at r" "ls_expires_at (signal_view db sid r) = r_expires_at r"
  "ls_entry_low (signal_view db sid r) = r_entry_low r" "ls_entry_high (signal_view db sid r) = r_entry_high r"
  "ls_side (signal_view db sid r) = r_side r" "ls_original_stop (signal_view db sid r) = r_original_stop r"
  by (simp_all add: signal_view_def lifecycle_signal_of_def)

subsection \<open>The contract of the store\<close>

text \<open>
  \<open>good\<close> is the invariant of the store.  Reads have no effect; a write that fails leaves the
  state as it was; a write that succeeds changes the signal read back, its outcomes and the
  checkpoints as stated.
\<close>

locale signal_store =
  fixes port :: "'s repository_port"
    and good :: "'s \<Rightarrow> bool"
    and signal_at :: "'s \<Rightarrow> string \<Rightarrow> lifecycle_signal result"
    and mark_at :: "'s \<Rightarrow> string \<Rightarrow> instant option"
    and outcome_at :: "'s \<Rightarrow> string \<times> outcome_variant \<Rightarrow> outcome_row option"
  assumes read_signal: "rp_get_lifecycle_signal port sid s = (signal_at s sid, s)"
    and read_mark: "rp_get_checkpoint port key s = (Inr (mark_at s key), s)"
    and shape: "good s \<Longrightarrow> signal_at s sid = Inr x \<Longrightarrow> ls_signal_id x = sid \<and> signal_shape x"
    and expire_done: "good s \<Longrightarrow> signal_at s sid = Inr x \<Longrightarrow> rp_expire_signal port sid t key s = (Inr (), s') \<Longrightarrow>
      ls_status x = PENDING \<and> good s' \<and> signal_at s' sid = Inr (moved_signal EXPIRED x) \<and> mark_at s' = mark_at s \<and> outcome_at s' = outcome_at s"
    and activate_done: "good s \<Longrightarrow> signal_at s sid = Inr x \<Longrightarrow> rp_activate_signal port sid fill t key s = (Inr (), s') \<Longrightarrow>
      ls_status x = PENDING \<and> good s' \<and> signal_at s' sid = Inr (opened_signal fill t x) \<and> mark_at s' = mark_at s \<and> outcome_at s' = outcome_at s"
    and close_done: "good s \<Longrightarrow> signal_at s (tc_signal_id c) = Inr x \<Longrightarrow> rp_close_track port c s = (Inr (), s') \<Longrightarrow>
      tc_variant c \<in> set (active_variants x) \<and> good s'
      \<and> signal_at s' (tc_signal_id c) = Inr (shut_signal (tc_variant c) x) \<and> mark_at s' = mark_at s
      \<and> outcome_at s' = (outcome_at s)((tc_signal_id c, tc_variant c) \<mapsto> outcome_row_of c)"
    and decide_done: "good s \<Longrightarrow> signal_at s (md_signal_id d) = Inr x \<Longrightarrow> check_management_decision d = Inr d \<Longrightarrow>
      rp_apply_management_decision port d s = (Inr (), s') \<Longrightarrow>
      MANAGED \<in> set (active_variants x) \<and> good s'
      \<and> signal_at s' (md_signal_id d) = Inr (decided_signal d x) \<and> mark_at s' = mark_at s \<and> outcome_at s' = outcome_at s"
    and mark_done: "good s \<Longrightarrow> rp_advance_checkpoint port key t body s = (Inr (), s') \<Longrightarrow>
      good s' \<and> signal_at s' = signal_at s \<and> outcome_at s' = outcome_at s
      \<and> mark_at s' = (mark_at s)(key \<mapsto> case mark_at s key of None \<Rightarrow> whole_seconds t | Some u \<Rightarrow> max u (whole_seconds t))"
    and failed: "rp_expire_signal port sid t key s = (Inl e, s') \<Longrightarrow> s' = s"
      "rp_activate_signal port sid fill t key s = (Inl e, s') \<Longrightarrow> s' = s"
      "rp_close_track port c s = (Inl e, s') \<Longrightarrow> s' = s"
      "rp_advance_checkpoint port key t body s = (Inl e, s') \<Longrightarrow> s' = s"
      "rp_apply_management_decision port d s = (Inl e, s') \<Longrightarrow> s' = s"

subsection \<open>The SQLite repository keeps the contract\<close>

lemma checkpoint_frame:
  "insert_event db e = Inr db1 \<Longrightarrow> checkpoints db1 = checkpoints db"
  "set_status db sid x ver new now = Inr (n, db1) \<Longrightarrow> checkpoints db1 = checkpoints db"
  "insert_trade db d = Inr db1 \<Longrightarrow> checkpoints db1 = checkpoints db"
  "insert_track db k = Inr db1 \<Longrightarrow> checkpoints db1 = checkpoints db"
  "insert_outcome db q = Inr db1 \<Longrightarrow> checkpoints db1 = checkpoints db"
  "insert_decision db m = Inr db1 \<Longrightarrow> checkpoints db1 = checkpoints db"
  "insert_snapshot db p = Inr db1 \<Longrightarrow> checkpoints db1 = checkpoints db"
  "update_tracks db P f = (n, db1) \<Longrightarrow> checkpoints db1 = checkpoints db"
  by (auto simp: insert_event_def set_status_def update_signals_def insert_trade_def insert_track_def insert_outcome_def
      insert_decision_def insert_snapshot_def update_tracks_def Let_def split: if_splits)

lemma get_checkpoint_frame: "checkpoints db' = checkpoints db \<Longrightarrow> get_checkpoint db' = get_checkpoint db"
  by (simp add: get_checkpoint_def find_checkpoint_def fun_eq_iff)

lemma checkpoint_frame_methods:
  "transition_pending sid new now key db = Inr db' \<Longrightarrow> checkpoints db' = checkpoints db"
  "activate_signal sid fill now key db = Inr db' \<Longrightarrow> checkpoints db' = checkpoints db"
  "close_track c db = Inr db' \<Longrightarrow> checkpoints db' = checkpoints db"
  "apply_management_decision d db = Inr db' \<Longrightarrow> checkpoints db' = checkpoints db"
proof -
  show "checkpoints db' = checkpoints db" if "transition_pending sid new now key db = Inr db'"
    using that by (auto simp: transition_pending_def bind_result_eq_Inr split: if_splits dest!: checkpoint_frame)
  show "checkpoints db' = checkpoints db" if "activate_signal sid fill now key db = Inr db'"
    by (rule activate_steps [OF that]) (auto simp: bind_result_eq_Inr dest!: checkpoint_frame)
  show "checkpoints db' = checkpoints db" if "close_track c db = Inr db'"
    by (rule close_track_steps [OF that])
      (auto simp: close_managed_signal_def insert_statistics_snapshot_def bind_result_eq_Inr
        split: if_splits dest!: checkpoint_frame)
  show "checkpoints db' = checkpoints db" if "apply_management_decision d db = Inr db'"
    by (rule decision_steps [OF that]) (auto split: if_splits dest!: checkpoint_frame)
qed

lemma open_tracks_cong: "(\<And>v. f v = g v) \<Longrightarrow> open_tracks f = open_tracks g"
  by (simp add: open_tracks_def)

lemma signal_view_cong:
  assumes "find_trade db' sid = find_trade db sid" "\<And>v. find_track db' sid v = find_track db sid v"
    "target_rows_at db' sid = target_rows_at db sid"
  shows "signal_view db' sid r = signal_view db sid r"
  unfolding signal_view_def assms open_tracks_cong [OF assms(2)] ..

lemma track_state_of_fresh:
  "track_state_of (track_row_of r now v) = fresh_track (signal_view db sid r) v"
  by (simp add: track_state_of_def track_row_of_def fresh_track_def)

lemma open_tracks_shut:
  assumes "f v = Some k" "k_status k' \<noteq> Track_ACTIVE" "\<And>w. g w = (if w = v then Some k' else f w)"
    "\<And>w x. f w = Some x \<Longrightarrow> k_variant x = w"
  shows "open_tracks g = filter (\<lambda>x. k_variant x \<noteq> v) (open_tracks f)"
  using assms by (cases v) (auto simp: open_tracks_def split: option.splits)

lemma open_tracks_changed:
  assumes "f v = Some k" "k_status (h k) = k_status k" "\<And>w. g w = (if w = v then Some (h k) else f w)"
    "\<And>w x. f w = Some x \<Longrightarrow> k_variant x = w"
  shows "open_tracks g = map (\<lambda>x. if k_variant x = v then h x else x) (open_tracks f)"
  using assms by (cases v) (auto simp: open_tracks_def split: option.splits)

definition outcome_view :: "database \<Rightarrow> string \<times> outcome_variant \<Rightarrow> outcome_row option" where
  "outcome_view db = (\<lambda>(sid, v). find_outcome db sid v)"

lemma view_expire:
  assumes ok: "db_ok db" and g: "get_lifecycle_signal db sid = Inr x" and e: "expire_signal sid t key db = Inr db'"
  shows "ls_status x = PENDING \<and> db_ok db' \<and> get_lifecycle_signal db' sid = Inr (moved_signal EXPIRED x)
    \<and> get_checkpoint db' = get_checkpoint db \<and> outcome_view db' = outcome_view db"
proof -
  have tr: "transition_pending sid EXPIRED t key db = Inr db'" using e by (simp add: expire_signal_def)
  have ok': "db_ok db'" by (rule transition_ok [OF tr _ ok]) simp
  obtain r where r: "find_signal db sid = Some r" "r_created_at r < r_expires_at r" "x = signal_view db sid r"
    using g by (auto simp: signal_read_Inr [OF ok])
  obtain row where row: "find_signal db sid = Some row" "r_status row = PENDING"
    "\<And>x. find_signal db' x = (if x = sid then Some (moved_row row EXPIRED t) else find_signal db x)"
    "\<And>x. find_trade db' x = find_trade db x" "\<And>x v. find_track db' x v = find_track db x v"
    "\<And>x. target_rows_at db' x = target_rows_at db x" "\<And>x v. find_outcome db' x v = find_outcome db x v"
    by (rule transition_effect [OF tr _ ok]) auto
  have "signal_view db' sid (moved_row r EXPIRED t) = moved_signal EXPIRED x"
    unfolding r(3) signal_view_cong [OF row(4-6)]
    by (simp add: signal_view_def lifecycle_signal_of_def moved_signal_def)
  then have "get_lifecycle_signal db' sid = Inr (moved_signal EXPIRED x)"
    using r row by (simp add: signal_read_Inr [OF ok'])
  then show ?thesis
    using r row ok' get_checkpoint_frame [OF checkpoint_frame_methods(1) [OF tr]] by (simp add: outcome_view_def)
qed

lemma view_activate:
  assumes ok: "db_ok db" and g: "get_lifecycle_signal db sid = Inr x" and e: "activate_signal sid fill t key db = Inr db'"
  shows "ls_status x = PENDING \<and> db_ok db' \<and> get_lifecycle_signal db' sid = Inr (opened_signal fill t x)
    \<and> get_checkpoint db' = get_checkpoint db \<and> outcome_view db' = outcome_view db"
proof -
  have ok': "db_ok db'" by (rule activate_ok [OF e ok])
  obtain r where r: "find_signal db sid = Some r" "r_created_at r < r_expires_at r" "x = signal_view db sid r"
    using g by (auto simp: signal_read_Inr [OF ok])
  obtain row where row: "find_signal db sid = Some row" "r_status row = PENDING"
    "\<And>x. find_signal db' x = (if x = sid then Some (moved_row row ACTIVE t) else find_signal db x)"
    "\<And>x. find_trade db' x = (if x = sid then Some (trade_row_of row (target_rows_of db sid) fill t key) else find_trade db x)"
    "\<And>x v. find_track db' x v = (if x = sid then Some (track_row_of row t v) else find_track db x v)"
    "\<And>x. target_rows_at db' x = target_rows_at db x" "\<And>x v. find_outcome db' x v = find_outcome db x v"
    by (rule activate_effect [OF e ok]) blast
  have rr: "row = r" using r row by simp
  have k: "find_track db' sid = (\<lambda>v. Some (track_row_of r t v))" using row(5) rr by auto
  have "open_tracks (find_track db' sid) = map (track_row_of r t) [FIXED, MANAGED]"
    unfolding k by (simp add: open_tracks_def track_row_of_def)
  then have "map track_state_of (open_tracks (find_track db' sid)) = map (fresh_track x) [FIXED, MANAGED]"
    by (simp add: track_state_of_fresh [of r t _ db sid] r(3))
  then have "signal_view db' sid (moved_row r ACTIVE t) = opened_signal fill t x"
    using row(4) [of sid] row(6) [of sid] rr
    unfolding signal_view_def by (simp add: r(3) signal_view_def lifecycle_signal_of_def opened_signal_def trade_row_of_def)
  then have "get_lifecycle_signal db' sid = Inr (opened_signal fill t x)"
    using r row by (simp add: signal_read_Inr [OF ok'])
  then show ?thesis
    using r row ok' get_checkpoint_frame [OF checkpoint_frame_methods(2) [OF e]] by (simp add: outcome_view_def)
qed

lemma view_close:
  assumes ok: "db_ok db" and g: "get_lifecycle_signal db (tc_signal_id c) = Inr x" and e: "close_track c db = Inr db'"
  shows "tc_variant c \<in> set (active_variants x) \<and> db_ok db'
    \<and> get_lifecycle_signal db' (tc_signal_id c) = Inr (shut_signal (tc_variant c) x) \<and> get_checkpoint db' = get_checkpoint db \<and> outcome_view db' = (outcome_view db)((tc_signal_id c, tc_variant c) \<mapsto> outcome_row_of c)"
proof -
  define sid where "sid = tc_signal_id c"
  define v where "v = tc_variant c"
  have ok': "db_ok db'" by (rule close_ok [OF e ok])
  obtain r where r: "find_signal db sid = Some r" "r_created_at r < r_expires_at r" "x = signal_view db sid r"
    using g by (auto simp: signal_read_Inr [OF ok] sid_def)
  obtain k where k: "find_track db sid v = Some k" "k_status k = Track_ACTIVE"
    "\<And>x w. find_track db' x w = (if x = sid \<and> w = v then Some (closed_fields c k) else find_track db x w)"
    "\<And>x. find_signal db' x = (if x = sid then map_option (closed_signal c) (find_signal db x) else find_signal db x)"
    "\<And>x. find_trade db' x = find_trade db x" "\<And>x. target_rows_at db' x = target_rows_at db x"
    "\<And>x w. find_outcome db' x w = (if x = sid \<and> w = v then Some (outcome_row_of c) else find_outcome db x w)"
    unfolding sid_def v_def by (rule close_effect [OF e ok]) blast
  have key: "find_track db sid w = Some q \<Longrightarrow> k_variant q = w" for w q by (auto dest: find_track_key)
  have "open_tracks (find_track db' sid) = filter (\<lambda>x. k_variant x \<noteq> v) (open_tracks (find_track db sid))"
    by (rule open_tracks_shut [where f = "find_track db sid" and g = "find_track db' sid", OF k(1) _ _ key]) (simp_all add: k(3))
  then have t: "map track_state_of (open_tracks (find_track db' sid))
      = filter (\<lambda>t. ts_variant t \<noteq> v) (map track_state_of (open_tracks (find_track db sid)))"
    by (simp add: filter_map o_def track_state_of_def)
  have "signal_view db' sid (closed_signal c r) = shut_signal v x"
    unfolding signal_view_def [of db'] t k(5,6)
    by (simp add: r(3) signal_view_def lifecycle_signal_of_def shut_signal_def closed_signal_def v_def)
  moreover have "r_created_at (closed_signal c r) < r_expires_at (closed_signal c r)"
    using r(2) by (simp add: closed_signal_def)
  ultimately have "get_lifecycle_signal db' sid = Inr (shut_signal v x)"
    using r k(4) [of sid] by (simp add: signal_read_Inr [OF ok'])
  moreover have "v \<in> set (active_variants x)"
  proof -
    have "k \<in> set (open_tracks (find_track db sid))" using k(1,2) by (auto simp: open_tracks_set)
    then show ?thesis using key [OF k(1)]
      by (auto simp: r(3) active_variants_def signal_view_def lifecycle_signal_of_def track_state_of_def image_iff)
  qed
  ultimately show ?thesis
    using ok' get_checkpoint_frame [OF checkpoint_frame_methods(3) [OF e]] k(7)
    by (auto simp: sid_def v_def outcome_view_def)
qed

lemma view_decide:
  assumes ok: "db_ok db" and g: "get_lifecycle_signal db (md_signal_id d) = Inr x"
    and d: "check_management_decision d = Inr d" and e: "apply_management_decision d db = Inr db'"
  shows "MANAGED \<in> set (active_variants x) \<and> db_ok db'
    \<and> get_lifecycle_signal db' (md_signal_id d) = Inr (decided_signal d x) \<and> get_checkpoint db' = get_checkpoint db \<and> outcome_view db' = outcome_view db"
proof -
  define sid where "sid = md_signal_id d"
  have ok': "db_ok db'" by (rule decision_ok [OF e ok d])
  obtain r where r: "find_signal db sid = Some r" "r_created_at r < r_expires_at r" "x = signal_view db sid r"
    using g by (auto simp: signal_read_Inr [OF ok] sid_def)
  obtain k where k: "find_track db sid MANAGED = Some k" "k_status k = Track_ACTIVE"
    "\<And>x w. find_track db' x w = (if x = sid \<and> w = MANAGED then Some (decided_track d k) else find_track db x w)"
    "\<And>x. find_signal db' x = find_signal db x"
    "\<And>x. find_trade db' x = find_trade db x" "\<And>x. target_rows_at db' x = target_rows_at db x"
    "\<And>x v. find_outcome db' x v = find_outcome db x v"
    unfolding sid_def by (rule decision_effect [OF e ok]) blast
  have key: "find_track db sid w = Some q \<Longrightarrow> k_variant q = w" for w q by (auto dest: find_track_key)
  have st: "k_status (decided_track d k) = k_status k" by (simp add: decided_track_def)
  have "open_tracks (find_track db' sid) = map (\<lambda>x. if k_variant x = MANAGED then decided_track d x else x) (open_tracks (find_track db sid))"
    by (rule open_tracks_changed [where f = "find_track db sid" and g = "find_track db' sid" and h = "decided_track d", OF k(1) st _ key])
      (simp_all add: k(3))
  moreover have "track_state_of (if k_variant q = MANAGED then decided_track d q else q) = decided_state d (track_state_of q)" for q
    by (simp add: track_state_of_def decided_state_def decided_track_def)
  ultimately have t: "map track_state_of (open_tracks (find_track db' sid))
      = map (decided_state d) (map track_state_of (open_tracks (find_track db sid)))"
    by (simp add: o_def)
  have "signal_view db' sid r = decided_signal d x"
    unfolding signal_view_def [of db'] t k(5,6)
    by (simp add: r(3) signal_view_def lifecycle_signal_of_def decided_signal_def)
  then have "get_lifecycle_signal db' sid = Inr (decided_signal d x)"
    using r k(4) [of sid] by (simp add: signal_read_Inr [OF ok'])
  moreover have "MANAGED \<in> set (active_variants x)"
  proof -
    have "k \<in> set (open_tracks (find_track db sid))" using k(1,2) by (auto simp: open_tracks_set)
    then have "MANAGED \<in> k_variant ` set (open_tracks (find_track db sid))" using key [OF k(1)] by (metis imageI)
    then show ?thesis
      by (simp add: r(3) active_variants_def signal_view_def lifecycle_signal_of_def track_state_of_def image_image)
  qed
  ultimately show ?thesis
    using ok' get_checkpoint_frame [OF checkpoint_frame_methods(4) [OF e]] k(7) by (simp add: sid_def outcome_view_def)
qed

lemma view_mark:
  assumes "db_ok db" and e: "advance_checkpoint key t body db = Inr db'"
  shows "db_ok db' \<and> get_lifecycle_signal db' = get_lifecycle_signal db \<and> outcome_view db' = outcome_view db
    \<and> get_checkpoint db' = (get_checkpoint db)(key \<mapsto> case get_checkpoint db key of None \<Rightarrow> whole_seconds t | Some u \<Rightarrow> max u (whole_seconds t))"
proof -
  obtain rows where rows: "db' = db\<lparr>checkpoints := rows\<rparr>"
    using e by (auto simp: advance_checkpoint_def Let_def split: if_splits)
  have same: "find_signal db' sid = find_signal db sid" "find_trade db' sid = find_trade db sid"
    "target_rows_of db' sid = target_rows_of db sid" "active_track_rows db' sid = active_track_rows db sid" for sid
    by (simp_all add: rows find_signal_def find_trade_def target_rows_of_def active_track_rows_def)
  have "get_lifecycle_signal db' sid = get_lifecycle_signal db sid" for sid
    unfolding get_lifecycle_signal_def same ..
  moreover have "get_checkpoint db' k = ((get_checkpoint db)(key \<mapsto> case get_checkpoint db key of None \<Rightarrow> whole_seconds t | Some u \<Rightarrow> max u (whole_seconds t))) k" for k
    using checkpoint_read [OF e, of k] by simp
  moreover have "outcome_view db' = outcome_view db" by (simp add: outcome_view_def find_outcome_def rows)
  ultimately show ?thesis using other_methods_ok(1) [OF assms] by auto
qed

lemma sqlite_shape: "db_ok db \<Longrightarrow> get_lifecycle_signal db sid = Inr x \<Longrightarrow> ls_signal_id x = sid \<and> signal_shape x"
  using signal_view_read(2) sid_ok_Some(1) by (auto simp: signal_read_Inr)

lemma transact_p_eq_Inl: "transact_p f s = (Inl e, t) \<Longrightarrow> t = s"
  by (auto simp: transact_p_def split: sum.splits)

interpretation sqlite: signal_store sqlite_port db_ok get_lifecycle_signal get_checkpoint outcome_view
  by (unfold_locales; (simp only: sqlite_port_ops query_p_apply transact_p_eq_Inr)?;
      (erule (1) sqlite_shape | erule (2) view_expire | erule (2) view_activate | erule (2) view_close
        | erule (3) view_decide | erule (1) view_mark | erule transact_p_eq_Inl)?)

end
