(* ===== verification/Lifecycle.thy ===== *)
theory Lifecycle
  imports SignalStore MarketData
begin

section \<open>The lifecycle replay engine\<close>

text \<open>
  \<^verbatim>\<open>lifecycle/engine.py\<close> and the replay records of \<^verbatim>\<open>lifecycle/models.py\<close>.  The engine is a program
  over a repository port: completed one-minute candles are applied in order, each to the
  signal as it is read back, and the checkpoint moves after each candle.  An exception ends
  the run and keeps what was written before it.

  \<open>signal_step\<close> is the specification of one candle as a function of the signal alone; the
  engine refines it on every store that keeps the contract of \<open>signal_store\<close>, and recovers
  from an interruption at any write.
\<close>

subsection \<open>Records\<close>

datatype lifecycle_action =
  Act_ACTIVATED | Act_EXPIRED | Act_TARGET_CLOSED | Act_STOP_CLOSED | Act_AMBIGUOUS_STOP_FIRST
  | Act_ACTIVATION_TARGET_DEFERRED

record replay_result =
  rr_signal_id :: string
  rr_processed :: int
  rr_checkpoint :: "instant option"
  rr_final_status :: signal_status
  rr_actions :: "lifecycle_action list"

definition check_replay_result :: "replay_result \<Rightarrow> replay_result result" where
  "check_replay_result r =
     (if rr_signal_id r = [] \<or> rr_processed r < 0 then Inl (DomainValidationError ''Replay result is invalid'') else Inr r)"

subsection \<open>Candle tests\<close>

definition validate_replay_series :: "string \<Rightarrow> candle_series \<Rightarrow> instant \<Rightarrow> unit result" where
  "validate_replay_series engine series now =
     (if series_venue series \<noteq> SPOT \<or> series_interval series \<noteq> ONE_MINUTE
      then Inl (DomainValidationError (engine @ '' replay requires Spot BTCUSDT one-minute candles''))
      else if list_ex (\<lambda>c. \<not> is_closed_at c now) series
      then Inl (DomainValidationError (engine @ '' replay received an incomplete candle''))
      else Inr ())"

definition first_safe_open :: "instant \<Rightarrow> instant" where
  "first_safe_open t = (let aligned = floor_minute t in if t = aligned then aligned else aligned + usec_minute)"

definition must_expire :: "lifecycle_signal \<Rightarrow> candle \<Rightarrow> bool" where
  "must_expire s c \<longleftrightarrow> ls_expires_at s \<le> open_time c
     \<or> open_time c < ls_expires_at s \<and> ls_expires_at s \<le> close_time c"

definition touches_entry :: "lifecycle_signal \<Rightarrow> candle \<Rightarrow> bool" where
  "touches_entry s c \<longleftrightarrow> c_low c \<le> ls_entry_high s \<and> ls_entry_low s \<le> c_high c"

definition touches_stop :: "lifecycle_signal \<Rightarrow> track_state \<Rightarrow> candle \<Rightarrow> bool" where
  "touches_stop s t c = (case ls_side s of LONG \<Rightarrow> c_low c \<le> ts_current_stop t | SHORT \<Rightarrow> ts_current_stop t \<le> c_high c)"

definition touches_tp1 :: "lifecycle_signal \<Rightarrow> candle \<Rightarrow> bool" where
  "touches_tp1 s c = (let target = t_price (hd (ls_targets s)) in
     case ls_side s of LONG \<Rightarrow> target \<le> c_high c | SHORT \<Rightarrow> c_low c \<le> target)"

definition stop_fill :: "lifecycle_signal \<Rightarrow> track_state \<Rightarrow> candle \<Rightarrow> bool \<Rightarrow> decimal" where
  "stop_fill s t c activation =
     (if activation then ts_current_stop t
      else case ls_side s of LONG \<Rightarrow> min (ts_current_stop t) (c_open c) | SHORT \<Rightarrow> max (ts_current_stop t) (c_open c))"

definition lifecycle_key :: "string \<Rightarrow> candle \<Rightarrow> string \<Rightarrow> string" where
  "lifecycle_key sid c action = ''lifecycle:'' @ sid @ '':'' @ iso_utc (open_time c) @ '':'' @ action"

subsection \<open>Closing a track\<close>

text \<open>The verdict of \<^verbatim>\<open>_close_track\<close>: result, terminal event and reason.\<close>

definition close_verdict :: "lifecycle_signal \<Rightarrow> track_state \<Rightarrow> decimal \<Rightarrow> bool \<Rightarrow> bool \<Rightarrow> outcome_result \<times> trade_event_type \<times> string" where
  "close_verdict s t r ambiguous target =
     (let protected_stop = ts_current_stop t \<noteq> ls_original_stop s in
      if target then (WIN, Ev_TP1_HIT, ''Original TP1 reached.'')
      else if protected_stop \<and> r = 0 then (BREAK_EVEN, Ev_BREAK_EVEN, ''Cost-adjusted break-even stop reached.'')
      else if protected_stop \<and> 0 < r
      then (EARLY_EXIT, Ev_EARLY_EXIT, ''Protected managed stop preserved a positive partial result.'')
      else (LOSS, Ev_STOP_LOSS_HIT,
            if ambiguous then ''Stop counted first because TP1 and SL were both inside one completed candle.''
            else ''Active track stop reached.''))"

definition close_request :: "lifecycle_signal \<Rightarrow> track_state \<Rightarrow> decimal \<Rightarrow> candle \<Rightarrow> bool \<Rightarrow> bool \<Rightarrow> track_close result" where
  "close_request s t price c ambiguous target =
     bind_result (track_result_r s t price) (\<lambda>r.
       let (res, event, reason) = close_verdict s t r ambiguous target in
       Inr \<lparr>tc_signal_id = ls_signal_id s, tc_variant = ts_variant t, tc_result = res, tc_result_r = r,
            tc_result_percent = dmul r (ls_risk_percent s), tc_close_reason = reason, tc_close_event = event,
            tc_price = price, tc_occurred_at = close_time c,
            tc_dedupe_key = lifecycle_key (ls_signal_id s) c (variant_value (ts_variant t) @ '':'' @ event_value event),
            tc_details = [(''policy'', PV_text ''conservative-one-minute-v2''), (''ambiguous_same_candle'', PV_bool ambiguous),
              (''candle_open'', PV_text (iso_utc (open_time c))), (''remaining_fraction'', PV_decimal (ts_remaining_fraction t)),
              (''realized_r_before_close'', PV_decimal (ts_realized_r t))]\<rparr>)"

definition lifecycle_close_track ::
  "'s repository_port \<Rightarrow> lifecycle_signal \<Rightarrow> track_state \<Rightarrow> decimal \<Rightarrow> candle \<Rightarrow> bool \<Rightarrow> bool \<Rightarrow> ('s, unit) program" where
  "lifecycle_close_track port s t price c ambiguous target =
     bind_p (query_p (\<lambda>_. close_request s t price c ambiguous target)) (rp_close_track port)"

subsection \<open>One candle\<close>

definition add_action :: "lifecycle_action \<Rightarrow> lifecycle_action list \<Rightarrow> lifecycle_action list" where
  "add_action a acts = (if a \<in> set acts then acts else acts @ [a])"

fun process_tracks ::
  "'s repository_port \<Rightarrow> lifecycle_signal \<Rightarrow> candle \<Rightarrow> bool \<Rightarrow> bool \<Rightarrow> track_state list \<Rightarrow> lifecycle_action list
    \<Rightarrow> ('s, lifecycle_action list) program" where
  "process_tracks port s c target activation [] acts = return_p acts"
| "process_tracks port s c target activation (t # ts) acts =
     (if touches_stop s t c then
        bind_p (lifecycle_close_track port s t (stop_fill s t c activation) c target False) (\<lambda>_.
          process_tracks port s c target activation ts
            (add_action (if target then Act_AMBIGUOUS_STOP_FIRST else Act_STOP_CLOSED) acts))
      else if target \<and> \<not> activation then
        bind_p (lifecycle_close_track port s t (t_price (hd (ls_targets s))) c False True) (\<lambda>_.
          process_tracks port s c target activation ts (add_action Act_TARGET_CLOSED acts))
      else process_tracks port s c target activation ts acts)"

definition process_active ::
  "'s repository_port \<Rightarrow> lifecycle_signal \<Rightarrow> candle \<Rightarrow> bool \<Rightarrow> ('s, lifecycle_action list) program" where
  "process_active port s c activated_now =
     (let target = touches_tp1 s c;
          activation = activated_now \<or> ls_activated_at s = Some (open_time c)
      in if target \<and> activation \<and> \<not> list_ex (\<lambda>t. touches_stop s t c) (ls_active_tracks s)
         then return_p [Act_ACTIVATION_TARGET_DEFERRED]
         else process_tracks port s c target activation (sort_key (\<lambda>t. ts_variant t = MANAGED) (ls_active_tracks s)) [])"

definition replay_entry ::
  "'s repository_port \<Rightarrow> string \<Rightarrow> lifecycle_signal \<Rightarrow> candle \<Rightarrow> ('s, lifecycle_action list \<times> bool) program" where
  "replay_entry port sid s c =
     (if ls_status s = PENDING then
        if must_expire s c then
          bind_p (rp_expire_signal port sid (ls_expires_at s) (lifecycle_key sid c ''expire'')) (\<lambda>_.
            return_p ([Act_EXPIRED], False))
        else if touches_entry s c then
          bind_p (rp_activate_signal port sid (ls_conservative_entry s) (open_time c) (lifecycle_key sid c ''activate'')) (\<lambda>_.
            return_p ([Act_ACTIVATED], True))
        else return_p ([], False)
      else return_p ([], False))"

definition lifecycle_mark :: "string \<Rightarrow> string" where
  "lifecycle_mark sid = ''lifecycle:'' @ sid"

definition replay_candle :: "'s repository_port \<Rightarrow> string \<Rightarrow> candle \<Rightarrow> ('s, lifecycle_action list) program" where
  "replay_candle port sid c =
     bind_p (rp_get_lifecycle_signal port sid) (\<lambda>s.
     bind_p (replay_entry port sid s c) (\<lambda>(acts, activated_now).
     bind_p (rp_get_lifecycle_signal port sid) (\<lambda>s.
     bind_p (if ls_active_tracks s \<noteq> [] then process_active port s c activated_now else return_p []) (\<lambda>more.
     bind_p (rp_advance_checkpoint port (lifecycle_mark sid) (open_time c)
               [(''signal_id'', PV_text sid), (''source'', PV_text ''SPOT_1m'')]) (\<lambda>_.
       return_p (acts @ more))))))"

fun replay_candles ::
  "'s repository_port \<Rightarrow> string \<Rightarrow> candle list \<Rightarrow> int \<Rightarrow> instant option \<Rightarrow> lifecycle_action list
    \<Rightarrow> ('s, int \<times> instant option \<times> lifecycle_action list) program" where
  "replay_candles port sid [] processed checkpoint acts = return_p (processed, checkpoint, acts)"
| "replay_candles port sid (c # cs) processed checkpoint acts =
     bind_p (replay_candle port sid c) (\<lambda>more.
       replay_candles port sid cs (processed + 1) (Some (open_time c)) (acts @ more))"

definition gap_error :: "string \<Rightarrow> instant \<Rightarrow> instant \<Rightarrow> exn" where
  "gap_error engine expected received =
     DomainValidationError (engine @ '' replay gap: expected '' @ iso_utc expected @ '', received '' @ iso_utc received)"

definition lifecycle_replay ::
  "'s repository_port \<Rightarrow> string \<Rightarrow> candle_series \<Rightarrow> instant \<Rightarrow> ('s, replay_result) program" where
  "lifecycle_replay port sid series now =
     bind_p (query_p (\<lambda>_. validate_replay_series ''Lifecycle'' series now)) (\<lambda>_.
     bind_p (rp_get_checkpoint port (lifecycle_mark sid)) (\<lambda>checkpoint.
     bind_p (rp_get_lifecycle_signal port sid) (\<lambda>s.
       let expected = (case checkpoint of Some t \<Rightarrow> t + usec_minute | None \<Rightarrow> first_safe_open (ls_created_at s));
           candidates = filter (\<lambda>c. expected \<le> open_time c) series
       in if candidates \<noteq> [] \<and> open_time (hd candidates) \<noteq> expected
          then raise_p (gap_error ''Lifecycle'' expected (open_time (hd candidates)))
          else
            bind_p (replay_candles port sid candidates 0 checkpoint []) (\<lambda>(processed, mark, acts).
            bind_p (rp_get_lifecycle_signal port sid) (\<lambda>final.
              query_p (\<lambda>_. check_replay_result \<lparr>rr_signal_id = sid, rr_processed = processed, rr_checkpoint = mark,
                rr_final_status = ls_status final, rr_actions = acts\<rparr>))))))"

subsection \<open>The specification of a candle\<close>

text \<open>
  What one candle does to a signal, without a store.  A pending signal expires, or opens at
  the conservative entry; then every open track whose stop the candle touches exits at the
  stop (or at a worse open), and otherwise, after the activation candle, at TP1 if touched.
\<close>

definition activation_candle :: "lifecycle_signal \<Rightarrow> candle \<Rightarrow> bool" where
  "activation_candle s c \<longleftrightarrow> ls_activated_at s = Some (open_time c)"

text \<open>The exit of a track: its price, whether TP1 was touched as well, and whether it is the target.\<close>

definition candle_exit :: "lifecycle_signal \<Rightarrow> candle \<Rightarrow> track_state \<Rightarrow> (decimal \<times> bool \<times> bool) option" where
  "candle_exit s c t =
     (if touches_stop s t c then Some (stop_fill s t c (activation_candle s c), touches_tp1 s c, False)
      else if touches_tp1 s c \<and> \<not> activation_candle s c then Some (t_price (hd (ls_targets s)), False, True)
      else None)"

definition exits :: "lifecycle_signal \<Rightarrow> candle \<Rightarrow> track_state list \<Rightarrow> track_state list" where
  "exits s c ts = filter (\<lambda>t. candle_exit s c t \<noteq> None) ts"

definition exit_request :: "lifecycle_signal \<Rightarrow> candle \<Rightarrow> track_state \<Rightarrow> track_close result" where
  "exit_request s c t = (case candle_exit s c t of
     None \<Rightarrow> Inl (ValueError []) | Some (price, ambiguous, target) \<Rightarrow> close_request s t price c ambiguous target)"

definition shut_all :: "track_state list \<Rightarrow> lifecycle_signal \<Rightarrow> lifecycle_signal" where
  "shut_all ts = fold (\<lambda>t. shut_signal (ts_variant t)) ts"

definition entry_step :: "lifecycle_signal \<Rightarrow> candle \<Rightarrow> lifecycle_signal" where
  "entry_step s c =
     (if ls_status s = PENDING then
        if must_expire s c then moved_signal EXPIRED s
        else if touches_entry s c then opened_signal (ls_conservative_entry s) (open_time c) s
        else s
      else s)"

definition signal_step :: "candle \<Rightarrow> lifecycle_signal \<Rightarrow> lifecycle_signal" where
  "signal_step c s = (let s1 = entry_step s c in shut_all (exits s1 c (ls_active_tracks s1)) s1)"

lemma shut_all_simps [simp]: "shut_all [] s = s" "shut_all (t # ts) s = shut_all ts (shut_signal (ts_variant t) s)"
  by (simp_all add: shut_all_def)

lemma shut_signal_fields [simp]:
  "ls_signal_id (shut_signal v s) = ls_signal_id s" "ls_side (shut_signal v s) = ls_side s"
  "ls_original_stop (shut_signal v s) = ls_original_stop s" "ls_targets (shut_signal v s) = ls_targets s"
  "ls_cost_rate (shut_signal v s) = ls_cost_rate s" "ls_risk_percent (shut_signal v s) = ls_risk_percent s"
  "ls_fill_price (shut_signal v s) = ls_fill_price s" "ls_activated_at (shut_signal v s) = ls_activated_at s"
  "ls_created_at (shut_signal v s) = ls_created_at s" "ls_expires_at (shut_signal v s) = ls_expires_at s"
  "ls_entry_low (shut_signal v s) = ls_entry_low s" "ls_entry_high (shut_signal v s) = ls_entry_high s"
  "ls_active_tracks (shut_signal v s) = filter (\<lambda>t. ts_variant t \<noteq> v) (ls_active_tracks s)"
  "ls_status (shut_signal v s) = (if v = MANAGED then CLOSED else ls_status s)"
  by (simp_all add: shut_signal_def)

text \<open>What a candle does to a track does not depend on the other tracks.\<close>

lemma shut_signal_tests [simp]:
  "touches_stop (shut_signal v s) = touches_stop s" "touches_tp1 (shut_signal v s) = touches_tp1 s"
  "stop_fill (shut_signal v s) = stop_fill s" "activation_candle (shut_signal v s) = activation_candle s"
  "close_request (shut_signal v s) = close_request s" "candle_exit (shut_signal v s) = candle_exit s"
  "exits (shut_signal v s) = exits s" "exit_request (shut_signal v s) = exit_request s"
proof -
  have r: "result_r (shut_signal v s) = result_r s" by (rule ext) (simp only: result_r_def shut_signal_fields)
  show t: "touches_stop (shut_signal v s) = touches_stop s" "touches_tp1 (shut_signal v s) = touches_tp1 s"
    "stop_fill (shut_signal v s) = stop_fill s" "activation_candle (shut_signal v s) = activation_candle s"
    by (intro ext; simp only: touches_stop_def touches_tp1_def stop_fill_def activation_candle_def shut_signal_fields)+
  show c: "close_request (shut_signal v s) = close_request s"
    by (intro ext; simp only: close_request_def track_result_r_def r close_verdict_def shut_signal_fields)
  show e: "candle_exit (shut_signal v s) = candle_exit s" by (intro ext; simp only: candle_exit_def t shut_signal_fields)
  show "exits (shut_signal v s) = exits s" "exit_request (shut_signal v s) = exit_request s"
    by (intro ext; simp only: exits_def exit_request_def c e)+
qed

lemma shut_all_tracks: "ls_active_tracks (shut_all ts s) = filter (\<lambda>t. ts_variant t \<notin> ts_variant ` set ts) (ls_active_tracks s)"
  by (induction ts arbitrary: s) (auto intro: filter_cong)

lemma shut_all_status: "ls_status (shut_all ts s) = (if MANAGED \<in> ts_variant ` set ts then CLOSED else ls_status s)"
  by (induction ts arbitrary: s) auto

lemma shut_all_fields [simp]:
  "ls_activated_at (shut_all ts s) = ls_activated_at s" "ls_signal_id (shut_all ts s) = ls_signal_id s"
  "ls_created_at (shut_all ts s) = ls_created_at s" "ls_fill_price (shut_all ts s) = ls_fill_price s"
  by (induction ts arbitrary: s) simp_all

lemma sort_tracks:
  assumes "sorted_wrt (<) (map ts_variant ts)"
  shows "sort_key (\<lambda>t. ts_variant t = MANAGED) ts = ts"
proof (rule sort_key_id_if_sorted)
  have "sorted_wrt (\<lambda>a b. a < (b :: outcome_variant)) (map ts_variant ts)" using assms .
  then show "sorted (map (\<lambda>t. ts_variant t = MANAGED) ts)"
    by (simp add: sorted_wrt_map) (erule sorted_wrt_mono_rel [rotated], simp)
qed

lemma exits_none: "ls_active_tracks s = [] \<Longrightarrow> exits s c (ls_active_tracks s) = []"
  by (simp add: exits_def)

text \<open>The engine's deferral of a target on the activation candle is the case without exits.\<close>

lemma deferred_exits:
  assumes "activation_candle s c" "\<not> list_ex (\<lambda>t. touches_stop s t c) ts"
  shows "exits s c ts = []"
  using assms by (auto simp: exits_def candle_exit_def filter_empty_conv list_ex_iff)

subsection \<open>The engine refines the specification\<close>

lemma bind_p_query_Inr: "bind_p (query_p q) f s = (Inr y, u) \<longleftrightarrow> (\<exists>x. q s = Inr x \<and> f x s = (Inr y, u))"
  by (simp split: sum.splits)

lemma close_request_ids:
  "close_request s t price c a tg = Inr req \<Longrightarrow> tc_signal_id req = ls_signal_id s \<and> tc_variant req = ts_variant t
     \<and> tc_price req = price \<and> tc_occurred_at req = close_time c"
  by (auto simp: close_request_def bind_result_eq_Inr case_prod_unfold Let_def)

lemma exits_Nil [simp]: "exits s c [] = []"
  by (simp add: exits_def)

lemma exits_Cons: "exits s c (t # ts) = (if candle_exit s c t = None then exits s c ts else t # exits s c ts)"
  by (simp add: exits_def)

lemma process_tracks_step:
  "process_tracks port x c (touches_tp1 x c) (activation_candle x c) (t # ts) acts =
    (case candle_exit x c t of
       None \<Rightarrow> process_tracks port x c (touches_tp1 x c) (activation_candle x c) ts acts
     | Some (price, ambiguous, target) \<Rightarrow>
         bind_p (lifecycle_close_track port x t price c ambiguous target) (\<lambda>_.
           process_tracks port x c (touches_tp1 x c) (activation_candle x c) ts
             (add_action (if target then Act_TARGET_CLOSED else if ambiguous then Act_AMBIGUOUS_STOP_FIRST else Act_STOP_CLOSED) acts)))"
  by (auto simp: candle_exit_def)

context signal_store begin

lemma close_run:
  assumes "good s" "signal_at s (ls_signal_id x) = Inr y"
    and run: "lifecycle_close_track port x t price c a tg s = (Inr u, s')"
  obtains req where "close_request x t price c a tg = Inr req" "good s'"
    "signal_at s' (ls_signal_id x) = Inr (shut_signal (ts_variant t) y)" "mark_at s' = mark_at s"
    "outcome_at s' = (outcome_at s)((ls_signal_id x, ts_variant t) \<mapsto> outcome_row_of req)"
proof -
  obtain req where q: "close_request x t price c a tg = Inr req" and r: "rp_close_track port req s = (Inr (), s')"
    using run unfolding lifecycle_close_track_def bind_p_query_Inr by auto
  note ids = close_request_ids [OF q]
  show thesis
    by (rule that [OF q]) (use close_done [OF assms(1) _ r, of y] ids assms(2) in auto)
qed

lemma process_tracks_run:
  assumes "good s" "signal_at s (ls_signal_id x) = Inr y" "distinct (map ts_variant ts)"
    and "process_tracks port x c (touches_tp1 x c) (activation_candle x c) ts acts s = (Inr acts', s')"
  shows "good s' \<and> signal_at s' (ls_signal_id x) = Inr (shut_all (exits x c ts) y) \<and> mark_at s' = mark_at s
    \<and> (\<forall>t \<in> set (exits x c ts). \<exists>req. exit_request x c t = Inr req \<and> outcome_at s' (ls_signal_id x, ts_variant t) = Some (outcome_row_of req))
    \<and> (\<forall>q. q \<notin> (\<lambda>t. (ls_signal_id x, ts_variant t)) ` set (exits x c ts) \<longrightarrow> outcome_at s' q = outcome_at s q)"
  using assms
proof (induction ts arbitrary: s y acts)
  case (Cons t ts)
  show ?case
  proof (cases "candle_exit x c t")
    case None
    then show ?thesis using Cons.IH [OF Cons.prems(1,2)] Cons.prems(3,4)
      by (simp only: process_tracks_step exits_Cons) simp
  next
    case e: (Some p)
    obtain price a tg where p: "p = (price, a, tg)" by (cases p) auto
    obtain u s1 acts1 where s1: "lifecycle_close_track port x t price c a tg s = (Inr u, s1)"
      "process_tracks port x c (touches_tp1 x c) (activation_candle x c) ts acts1 s1 = (Inr acts', s')"
      using Cons.prems(4) unfolding process_tracks_step e p by (auto simp: bind_p_eq_Inr)
    obtain req where req: "close_request x t price c a tg = Inr req" "good s1"
      "signal_at s1 (ls_signal_id x) = Inr (shut_signal (ts_variant t) y)" "mark_at s1 = mark_at s"
      "outcome_at s1 = (outcome_at s)((ls_signal_id x, ts_variant t) \<mapsto> outcome_row_of req)"
      by (rule close_run [OF Cons.prems(1,2) s1(1)])
    have d: "distinct (map ts_variant ts)" "ts_variant t \<notin> ts_variant ` set ts" using Cons.prems(3) by auto
    note IH = Cons.IH [OF req(2,3) d(1) s1(2)]
    have ex: "exits x c (t # ts) = t # exits x c ts" by (simp add: exits_Cons e)
    have "exit_request x c t = Inr req" by (simp add: exit_request_def e p req(1))
    moreover have "(ls_signal_id x, ts_variant t) \<notin> (\<lambda>t. (ls_signal_id x, ts_variant t)) ` set (exits x c ts)"
      using d(2) by (auto simp: exits_def)
    ultimately show ?thesis using IH req(4,5) unfolding ex by auto
  qed
qed simp

lemma process_active_run:
  assumes "good s" "signal_at s (ls_signal_id x) = Inr x" "activated_now \<Longrightarrow> activation_candle x c"
    and run: "(if ls_active_tracks x \<noteq> [] then process_active port x c activated_now else return_p []) s = (Inr acts, s')"
  shows "good s' \<and> signal_at s' (ls_signal_id x) = Inr (shut_all (exits x c (ls_active_tracks x)) x) \<and> mark_at s' = mark_at s
    \<and> (\<forall>t \<in> set (exits x c (ls_active_tracks x)).
         \<exists>req. exit_request x c t = Inr req \<and> outcome_at s' (ls_signal_id x, ts_variant t) = Some (outcome_row_of req))
    \<and> (\<forall>q. q \<notin> (\<lambda>t. (ls_signal_id x, ts_variant t)) ` set (exits x c (ls_active_tracks x)) \<longrightarrow> outcome_at s' q = outcome_at s q)"
proof (cases "ls_active_tracks x = []")
  case True
  then show ?thesis using assms by (simp add: exits_none)
next
  case False
  have sorted: "sorted_wrt (<) (map ts_variant (ls_active_tracks x))"
    using shape [OF assms(1,2)] by (simp add: signal_shape_def active_variants_def)
  have act: "(activated_now \<or> ls_activated_at x = Some (open_time c)) = activation_candle x c"
    using assms(3) by (auto simp: activation_candle_def)
  show ?thesis
  proof (cases "touches_tp1 x c \<and> activation_candle x c \<and> \<not> list_ex (\<lambda>t. touches_stop x t c) (ls_active_tracks x)")
    case d: True
    then have "s' = s" using run False by (simp add: process_active_def act)
    then show ?thesis using assms(1,2) d by (simp add: deferred_exits)
  next
    case d: False
    have "process_tracks port x c (touches_tp1 x c) (activation_candle x c) (ls_active_tracks x) [] s = (Inr acts, s')"
      using run False d by (simp add: process_active_def act Let_def sort_tracks [OF sorted])
    moreover have "distinct (map ts_variant (ls_active_tracks x))" using sorted by (simp add: strict_sorted_iff)
    ultimately show ?thesis by (intro process_tracks_run [OF assms(1,2)])
  qed
qed

end

definition minute_ok :: "candle \<Rightarrow> bool" where
  "minute_ok c \<longleftrightarrow> candle_ok c \<and> c_interval c = ONE_MINUTE"

lemma minute_whole: "minute_ok c \<Longrightarrow> whole_seconds (open_time c) = open_time c"
proof -
  assume "minute_ok c"
  then have "open_time c mod usec_minute = 0" using candle_minute(2) by (simp add: minute_ok_def)
  then obtain k where "open_time c = usec_minute * k" by auto
  then show ?thesis by (simp add: whole_seconds_def usec_defs mult.commute)
qed

lemma entry_step_id [simp]: "ls_signal_id (entry_step x c) = ls_signal_id x"
  by (simp add: entry_step_def moved_signal_def opened_signal_def)

lemma signal_step_id [simp]: "ls_signal_id (signal_step c x) = ls_signal_id x"
  by (simp add: signal_step_def Let_def)

definition moved_mark :: "instant option \<Rightarrow> candle \<Rightarrow> instant option" where
  "moved_mark m c = Some (case m of None \<Rightarrow> open_time c | Some u \<Rightarrow> max u (open_time c))"

context signal_store begin

lemma entry_run:
  assumes "good s" "signal_at s sid = Inr x" "minute_ok c" "replay_entry port sid x c s = (Inr (acts, now), s')"
  shows "good s' \<and> signal_at s' sid = Inr (entry_step x c) \<and> mark_at s' = mark_at s \<and> outcome_at s' = outcome_at s
    \<and> (now \<longrightarrow> activation_candle (entry_step x c) c)"
proof (cases "ls_status x = PENDING")
  case False
  then show ?thesis using assms by (simp add: replay_entry_def entry_step_def)
next
  case p: True
  show ?thesis
  proof (cases "must_expire x c")
    case True
    then have "rp_expire_signal port sid (ls_expires_at x) (lifecycle_key sid c ''expire'') s = (Inr (), s')" "\<not> now"
      using assms(4) p by (auto simp: replay_entry_def bind_p_eq_Inr)
    then show ?thesis using expire_done [OF assms(1,2)] p True by (auto simp: entry_step_def)
  next
    case e: False
    show ?thesis
    proof (cases "touches_entry x c")
      case True
      then have "rp_activate_signal port sid (ls_conservative_entry x) (open_time c) (lifecycle_key sid c ''activate'') s = (Inr (), s')"
        using assms(4) p e by (auto simp: replay_entry_def bind_p_eq_Inr)
      then show ?thesis using activate_done [OF assms(1,2)] p e True minute_whole [OF assms(3)]
        by (auto simp: entry_step_def activation_candle_def opened_signal_def)
    qed (use assms p e in \<open>simp add: replay_entry_def entry_step_def\<close>)
  qed
qed

lemma candle_run:
  assumes "good s" "signal_at s sid = Inr x" "minute_ok c" "replay_candle port sid c s = (Inr acts, s')"
  shows "good s' \<and> signal_at s' sid = Inr (signal_step c x)
    \<and> mark_at s' = (mark_at s)(lifecycle_mark sid := moved_mark (mark_at s (lifecycle_mark sid)) c)
    \<and> (\<forall>t \<in> set (exits (entry_step x c) c (ls_active_tracks (entry_step x c))).
         \<exists>req. exit_request (entry_step x c) c t = Inr req \<and> outcome_at s' (sid, ts_variant t) = Some (outcome_row_of req))
    \<and> (\<forall>q. q \<notin> (\<lambda>t. (sid, ts_variant t)) ` set (exits (entry_step x c) c (ls_active_tracks (entry_step x c))) \<longrightarrow> outcome_at s' q = outcome_at s q)"
proof -
  have id: "ls_signal_id x = sid" using shape [OF assms(1,2)] by simp
  obtain acts1 now s1 more s2 where s1: "replay_entry port sid x c s = (Inr (acts1, now), s1)"
    and r: "\<And>y. signal_at s1 sid = Inr y \<Longrightarrow>
        (if ls_active_tracks y \<noteq> [] then process_active port y c now else return_p []) s1 = (Inr more, s2)"
    and m: "rp_advance_checkpoint port (lifecycle_mark sid) (open_time c)
               [(''signal_id'', PV_text sid), (''source'', PV_text ''SPOT_1m'')] s2 = (Inr (), s')"
    using assms(4) by (auto simp: replay_candle_def bind_p_eq_Inr read_signal assms(2))
  define y where "y = entry_step x c"
  note e = entry_run [OF assms(1-3) s1, folded y_def]
  have idy: "ls_signal_id y = sid" by (simp add: y_def id)
  have ey: "good s1" "signal_at s1 (ls_signal_id y) = Inr y" "now \<Longrightarrow> activation_candle y c" using e idy by auto
  have ry: "(if ls_active_tracks y \<noteq> [] then process_active port y c now else return_p []) s1 = (Inr more, s2)"
    by (rule r) (use ey idy in simp)
  note a = process_active_run [OF ey ry, unfolded idy]
  have g2: "good s2" using a by simp
  note m' = mark_done [OF g2 m]
  have "signal_step c x = shut_all (exits y c (ls_active_tracks y)) y" by (simp add: signal_step_def y_def Let_def)
  moreover have "mark_at s' = (mark_at s)(lifecycle_mark sid := moved_mark (mark_at s (lifecycle_mark sid)) c)"
    using e a m' unfolding moved_mark_def minute_whole [OF assms(3)] by metis
  ultimately show ?thesis unfolding y_def [symmetric] using e a m' by simp
qed

lemma candles_run:
  assumes "good s" "signal_at s sid = Inr x" "list_all minute_ok cs"
    "replay_candles port sid cs n m acts s = (Inr (n', m', acts'), s')"
  shows "good s' \<and> signal_at s' sid = Inr (fold signal_step cs x) \<and> n' = n + int (length cs)
    \<and> m' = (if cs = [] then m else Some (open_time (last cs)))
    \<and> mark_at s' = (mark_at s)(lifecycle_mark sid := fold (\<lambda>c m. moved_mark m c) cs (mark_at s (lifecycle_mark sid)))"
  using assms
proof (induction cs arbitrary: s x n m acts)
  case (Cons c cs)
  obtain more s1 where s1: "replay_candle port sid c s = (Inr more, s1)"
    "replay_candles port sid cs (n + 1) (Some (open_time c)) (acts @ more) s1 = (Inr (n', m', acts'), s')"
    using Cons.prems(4) by (auto simp: bind_p_eq_Inr)
  have ok: "minute_ok c" "list_all minute_ok cs" using Cons.prems(3) by simp_all
  note a = candle_run [OF Cons.prems(1,2) ok(1) s1(1)]
  then have g: "good s1" "signal_at s1 sid = Inr (signal_step c x)" by simp_all
  show ?case using Cons.IH [OF g ok(2) s1(2)] a by (auto simp: fun_eq_iff)
qed simp

end

lemma moved_marks_last:
  assumes "sorted_wrt (\<lambda>a b. open_time a < open_time b) cs" "cs \<noteq> []" "\<And>u. m = Some u \<Longrightarrow> u \<le> open_time (hd cs)"
  shows "fold (\<lambda>c m. moved_mark m c) cs m = Some (open_time (last cs))"
  using assms
proof (induction cs arbitrary: m)
  case (Cons c cs)
  have m: "moved_mark m c = Some (open_time c)" using Cons.prems(3) by (cases m) (auto simp: moved_mark_def max_def)
  show ?case
  proof (cases cs)
    case q: (Cons d ds)
    have "fold (\<lambda>c m. moved_mark m c) cs (Some (open_time c)) = Some (open_time (last cs))"
      by (rule Cons.IH) (use Cons.prems q in \<open>auto simp: less_imp_le\<close>)
    then show ?thesis using m q by simp
  qed (simp add: m)
qed simp

subsection \<open>The window of candles a run applies\<close>

definition expected_open :: "instant option \<Rightarrow> lifecycle_signal \<Rightarrow> instant" where
  "expected_open m x = (case m of Some t \<Rightarrow> t + usec_minute | None \<Rightarrow> first_safe_open (ls_created_at x))"

definition replay_window :: "instant option \<Rightarrow> lifecycle_signal \<Rightarrow> candle_series \<Rightarrow> candle list" where
  "replay_window m x series = filter (\<lambda>c. expected_open m x \<le> open_time c) series"

lemma series_minutes:
  assumes "series_ok series" "series_interval series = ONE_MINUTE"
  shows "list_all minute_ok series"
proof -
  have eq: "c_interval c = c_interval d" if "c \<in> set xs" "d \<in> set xs" "pairwise_all follows xs" for c d xs
    using that
  proof (induction xs arbitrary: c d)
    case (Cons a xs)
    have hd: "c_interval e = c_interval a" if e: "e \<in> set xs" for e
    proof (cases xs)
      case q: (Cons b bs)
      then have f: "follows a b" "pairwise_all follows xs" using Cons.prems(3) by simp_all
      have "c_interval e = c_interval b" by (rule Cons.IH [OF e _ f(2)]) (simp add: q)
      then show ?thesis using f(1) by (simp add: follows_def same_market_def)
    qed (use e in simp)
    then show ?case using Cons.prems(1,2) by auto
  qed simp
  have "c_interval c = ONE_MINUTE" if "c \<in> set series" for c
    using eq [OF that, of "hd series"] assms by (simp add: series_ok_def series_interval_def)
  then show ?thesis using assms(1) by (auto simp: series_ok_def list_all_iff minute_ok_def)
qed

lemma replay_window_ok:
  assumes "series_ok series" "series_interval series = ONE_MINUTE"
  shows "list_all minute_ok (replay_window m x series)"
    "sorted_wrt (\<lambda>a b. open_time a < open_time b) (replay_window m x series)"
    "\<And>u. m = Some u \<Longrightarrow> replay_window m x series \<noteq> [] \<Longrightarrow> u \<le> open_time (hd (replay_window m x series))"
proof -
  show "list_all minute_ok (replay_window m x series)"
    using series_minutes [OF assms] by (simp add: replay_window_def list_all_iff)
  show "sorted_wrt (\<lambda>a b. open_time a < open_time b) (replay_window m x series)"
    using assms(1) by (auto simp: replay_window_def series_ok_def intro!: sorted_wrt_filter series_open_distinct)
  show "u \<le> open_time (hd (replay_window m x series))" if "m = Some u" "replay_window m x series \<noteq> []" for u
    using hd_in_set [OF that(2)] that(1) by (auto simp: replay_window_def expected_open_def usec_defs)
qed

lemma replay_reads:
  assumes read_signal: "\<And>s. rp_get_lifecycle_signal port sid s = (signal_at s sid, s)"
    and read_mark: "\<And>key s. rp_get_checkpoint port key s = (Inr (mark_at s key), s)"
  shows "lifecycle_replay port sid series now s =
    (case validate_replay_series ''Lifecycle'' series now of
       Inl e \<Rightarrow> (Inl e, s)
     | Inr _ \<Rightarrow>
    (case signal_at s sid of
       Inl e \<Rightarrow> (Inl e, s)
     | Inr x \<Rightarrow>
        let m = mark_at s (lifecycle_mark sid); cs = replay_window m x series
        in if cs \<noteq> [] \<and> open_time (hd cs) \<noteq> expected_open m x
           then (Inl (gap_error ''Lifecycle'' (expected_open m x) (open_time (hd cs))), s)
           else
             bind_p (replay_candles port sid cs 0 m []) (\<lambda>(n, m', acts).
             bind_p (rp_get_lifecycle_signal port sid) (\<lambda>final.
               query_p (\<lambda>_. check_replay_result \<lparr>rr_signal_id = sid, rr_processed = n, rr_checkpoint = m',
                 rr_final_status = ls_status final, rr_actions = acts\<rparr>))) s))"
proof -
  have m: "bind_p (rp_get_checkpoint port k) f s = f (mark_at s k) s" for k f
    by (simp add: bind_p_def read_mark)
  have g: "bind_p (rp_get_lifecycle_signal port sid) f s = (case signal_at s sid of Inl e \<Rightarrow> (Inl e, s) | Inr x \<Rightarrow> f x s)" for f
    by (simp add: bind_p_def read_signal split: sum.splits)
  show ?thesis
    unfolding lifecycle_replay_def bind_p_query m g expected_open_def [symmetric] replay_window_def [symmetric] Let_def
    by (auto simp: replay_window_def split: sum.splits)
qed

context signal_store begin

lemmas replay_eq = replay_reads [of port _ signal_at mark_at, OF read_signal read_mark]

lemma replay_run:
  assumes "good s" "signal_at s sid = Inr x" "series_ok series"
    and run: "lifecycle_replay port sid series now s = (Inr res, s')"
  defines "m \<equiv> mark_at s (lifecycle_mark sid)"
  shows "good s' \<and> signal_at s' sid = Inr (fold signal_step (replay_window m x series) x)
    \<and> rr_final_status res = ls_status (fold signal_step (replay_window m x series) x)
    \<and> rr_processed res = int (length (replay_window m x series))
    \<and> rr_checkpoint res = mark_at s' (lifecycle_mark sid)
    \<and> mark_at s' (lifecycle_mark sid) =
        (if replay_window m x series = [] then m else Some (open_time (last (replay_window m x series))))"
proof -
  let ?cs = "replay_window m x series"
  have v: "validate_replay_series ''Lifecycle'' series now = Inr ()"
    using run by (auto simp: replay_eq split: sum.splits)
  then have iv: "series_interval series = ONE_MINUTE" by (auto simp: validate_replay_series_def split: if_splits)
  define finish where "finish = (\<lambda>(n, m', acts).
      bind_p (rp_get_lifecycle_signal port sid) (\<lambda>final.
        query_p (\<lambda>_. check_replay_result \<lparr>rr_signal_id = sid, rr_processed = n, rr_checkpoint = m',
                rr_final_status = ls_status final, rr_actions = acts\<rparr>)))"
  have "bind_p (replay_candles port sid ?cs 0 m []) finish s = (Inr res, s')"
    using run by (simp add: replay_eq v assms(2) m_def [symmetric] finish_def [symmetric] Let_def split: if_splits)
  then obtain n' m' acts s1 where s1: "replay_candles port sid ?cs 0 m [] s = (Inr (n', m', acts), s1)"
    and f: "finish (n', m', acts) s1 = (Inr res, s')"
    by (auto simp: bind_p_eq_Inr)
  obtain y where fin: "signal_at s1 sid = Inr y" "check_replay_result \<lparr>rr_signal_id = sid, rr_processed = n', rr_checkpoint = m',
                rr_final_status = ls_status y, rr_actions = acts\<rparr> = Inr res" "s' = s1"
    using f by (auto simp: finish_def bind_p_eq_Inr read_signal)
  note w = replay_window_ok [OF assms(3) iv]
  note c = candles_run [OF assms(1,2) w(1) s1]
  have r: "check_replay_result \<lparr>rr_signal_id = sid, rr_processed = n', rr_checkpoint = m',
                rr_final_status = ls_status (fold signal_step ?cs x), rr_actions = acts\<rparr> = Inr res" "s' = s1"
    using fin c by simp_all
  then have res: "rr_processed res = n'" "rr_checkpoint res = m'" "rr_final_status res = ls_status (fold signal_step ?cs x)"
    by (auto simp: check_replay_result_def split: if_splits)
  have m: "mark_at s1 (lifecycle_mark sid) = fold (\<lambda>c m. moved_mark m c) ?cs m" using c by (simp add: m_def)
  show ?thesis
  proof (cases "?cs = []")
    case False
    have "fold (\<lambda>c m. moved_mark m c) ?cs m = Some (open_time (last ?cs))"
      by (rule moved_marks_last [OF w(2) False]) (use w(3) False in blast)
    then show ?thesis using False c r res m by simp
  qed (use c r res m in simp)
qed

end

subsection \<open>Interruption\<close>

text \<open>
  A store that fails at some write: the first \<open>n\<close> writes go through, the next one raises
  \<open>e\<close> and leaves the state as it was (a killed process, a full disk, a lost connection).
\<close>

definition limited :: "exn \<Rightarrow> ('s, 'a) program \<Rightarrow> ('s \<times> nat, 'a) program" where
  "limited e m = (\<lambda>(s, n). case n of 0 \<Rightarrow> (Inl e, (s, 0)) | Suc k \<Rightarrow> (let (r, t) = m s in (r, (t, k))))"

definition lifted :: "('s, 'a) program \<Rightarrow> ('s \<times> nat, 'a) program" where
  "lifted m = (\<lambda>(s, n). let (r, t) = m s in (r, (t, n)))"

definition interrupted_port :: "exn \<Rightarrow> 's repository_port \<Rightarrow> ('s \<times> nat) repository_port" where
  "interrupted_port e p =
     \<lparr>rp_allocate_signal_id = (\<lambda>d. limited e (rp_allocate_signal_id p d)),
      rp_create_signal = (\<lambda>s. limited e (rp_create_signal p s)),
      rp_get_signal_status = (\<lambda>sid. lifted (rp_get_signal_status p sid)),
      rp_get_lifecycle_signal = (\<lambda>sid. lifted (rp_get_lifecycle_signal p sid)),
      rp_activate_signal = (\<lambda>sid fill t key. limited e (rp_activate_signal p sid fill t key)),
      rp_expire_signal = (\<lambda>sid t key. limited e (rp_expire_signal p sid t key)),
      rp_cancel_signal = (\<lambda>sid t key. limited e (rp_cancel_signal p sid t key)),
      rp_close_track = (\<lambda>c. limited e (rp_close_track p c)),
      rp_get_track_status = (\<lambda>sid v. lifted (rp_get_track_status p sid v)),
      rp_get_checkpoint = (\<lambda>key. lifted (rp_get_checkpoint p key)),
      rp_advance_checkpoint = (\<lambda>key t body. limited e (rp_advance_checkpoint p key t body)),
      rp_apply_management_decision = (\<lambda>d. limited e (rp_apply_management_decision p d)),
      rp_management_decision_exists = (\<lambda>key. lifted (rp_management_decision_exists p key)),
      rp_latest_statistics_snapshot = lifted (rp_latest_statistics_snapshot p),
      rp_list_outcome_samples = (\<lambda>a b. lifted (rp_list_outcome_samples p a b)),
      rp_list_report_signals = (\<lambda>st. lifted (rp_list_report_signals p st))\<rparr>"

lemma interrupted_port_ops [simp]:
  "rp_get_lifecycle_signal (interrupted_port e p) sid = lifted (rp_get_lifecycle_signal p sid)"
  "rp_activate_signal (interrupted_port e p) sid fill t key = limited e (rp_activate_signal p sid fill t key)"
  "rp_expire_signal (interrupted_port e p) sid t key = limited e (rp_expire_signal p sid t key)"
  "rp_close_track (interrupted_port e p) c = limited e (rp_close_track p c)"
  "rp_get_checkpoint (interrupted_port e p) key = lifted (rp_get_checkpoint p key)"
  "rp_advance_checkpoint (interrupted_port e p) key t body = limited e (rp_advance_checkpoint p key t body)"
  "rp_apply_management_decision (interrupted_port e p) d = limited e (rp_apply_management_decision p d)"
  "rp_management_decision_exists (interrupted_port e p) key = lifted (rp_management_decision_exists p key)"
  by (simp_all add: interrupted_port_def)

text \<open>The writes of \<open>process_active\<close>, without its list of actions.\<close>

fun close_all :: "'s repository_port \<Rightarrow> lifecycle_signal \<Rightarrow> candle \<Rightarrow> track_state list \<Rightarrow> ('s, unit) program" where
  "close_all port x c [] = return_p ()"
| "close_all port x c (t # ts) =
     bind_p (bind_p (query_p (\<lambda>_. exit_request x c t)) (rp_close_track port)) (\<lambda>_. close_all port x c ts)"

definition returning :: "'b \<Rightarrow> ('s, 'a) program \<Rightarrow> ('s, 'b) program" where
  "returning y m = bind_p m (\<lambda>_. return_p y)"

lemma bind_p_return_fun: "bind_p (return_p x) f = f x"
  by (rule ext) simp

lemma returning_eq: "returning y m s = (case m s of (Inl e, t) \<Rightarrow> (Inl e, t) | (Inr _, t) \<Rightarrow> (Inr y, t))"
  by (simp add: returning_def bind_p_def split: prod.splits sum.splits)

lemma process_tracks_effect:
  "\<exists>b. process_tracks port x c (touches_tp1 x c) (activation_candle x c) ts acts = returning b (close_all port x c (exits x c ts))"
proof (induction ts arbitrary: acts)
  case Nil
  show ?case by (rule exI [of _ acts]) (simp add: fun_eq_iff returning_eq)
next
  case (Cons t ts)
  show ?case
  proof (cases "candle_exit x c t")
    case None
    then show ?thesis using Cons.IH [of acts] by (simp only: process_tracks_step exits_Cons) simp
  next
    case (Some p)
    obtain price a tg where p: "p = (price, a, tg)" by (cases p) auto
    define acts1 where "acts1 = add_action (if tg then Act_TARGET_CLOSED else if a then Act_AMBIGUOUS_STOP_FIRST else Act_STOP_CLOSED) acts"
    obtain b where b: "process_tracks port x c (touches_tp1 x c) (activation_candle x c) ts acts1
        = returning b (close_all port x c (exits x c ts))" using Cons.IH [of acts1] by blast
    have q: "lifecycle_close_track port x t price c a tg = bind_p (query_p (\<lambda>_. exit_request x c t)) (rp_close_track port)"
      by (simp add: lifecycle_close_track_def exit_request_def Some p)
    have "process_tracks port x c (touches_tp1 x c) (activation_candle x c) (t # ts) acts = returning b (close_all port x c (exits x c (t # ts)))"
      unfolding process_tracks_step exits_Cons Some p option.case prod.case acts1_def [symmetric] b q
      by (rule ext) (simp add: returning_def bind_p_assoc)
    then show ?thesis by blast
  qed
qed

lemma process_active_effect:
  assumes "sorted_wrt (<) (active_variants x)" "now \<Longrightarrow> activation_candle x c"
  shows "\<exists>b. (if ls_active_tracks x \<noteq> [] then process_active port x c now else return_p [])
    = returning b (close_all port x c (exits x c (ls_active_tracks x)))"
proof (cases "ls_active_tracks x = [] \<or> touches_tp1 x c \<and> activation_candle x c \<and> \<not> list_ex (\<lambda>t. touches_stop x t c) (ls_active_tracks x)")
  case True
  have act: "(now \<or> ls_activated_at x = Some (open_time c)) = activation_candle x c"
    using assms(2) by (auto simp: activation_candle_def)
  have "exits x c (ls_active_tracks x) = []" using True deferred_exits by (auto simp: exits_none)
  moreover have "\<exists>b. (if ls_active_tracks x \<noteq> [] then process_active port x c now else return_p []) = return_p b"
    using True by (auto simp: process_active_def act Let_def)
  ultimately show ?thesis by (auto simp: returning_def fun_eq_iff)
next
  case False
  have act: "(now \<or> ls_activated_at x = Some (open_time c)) = activation_candle x c"
    using assms(2) by (auto simp: activation_candle_def)
  have "process_active port x c now = process_tracks port x c (touches_tp1 x c) (activation_candle x c) (ls_active_tracks x) []"
    using False assms(1) by (auto simp: process_active_def act Let_def active_variants_def sort_tracks)
  then show ?thesis using process_tracks_effect [of port x c "ls_active_tracks x" "[]"] False by simp
qed

lemma close_all_append:
  "close_all port x c (ts @ us) s = bind_p (close_all port x c ts) (\<lambda>_. close_all port x c us) s"
  by (induction ts arbitrary: s) (simp_all add: bind_p_def split: prod.splits sum.splits)

lemma close_all_interrupted:
  assumes "close_all port x c ts s = (Inr (), s')"
  obtains t k ts1 ts2 where "ts = ts1 @ ts2" "close_all port x c ts1 s = (Inr (), t)" "close_all port x c ts2 t = (Inr (), s')"
    "close_all (interrupted_port e port) x c ts (s, n) = (Inr (), (t, k)) \<and> ts2 = []
     \<or> close_all (interrupted_port e port) x c ts (s, n) = (Inl e, (t, 0))"
  using assms
proof (induction ts arbitrary: s n thesis)
  case Nil
  show ?case by (rule Nil.prems(1) [of "[]" "[]"]) (use Nil.prems(2) in auto)
next
  case (Cons t ts)
  obtain req s1 where q: "exit_request x c t = Inr req" "rp_close_track port req s = (Inr (), s1)" "close_all port x c ts s1 = (Inr (), s')"
    using Cons.prems(2) by (auto simp: bind_p_eq_Inr split: sum.splits)
  show ?case
  proof (cases n)
    case 0
    show ?thesis
      by (rule Cons.prems(1) [of "[]" "t # ts" s 0])
        (use Cons.prems(2) q 0 in \<open>simp_all add: limited_def bind_p_def\<close>)
  next
    case (Suc k)
    obtain u j ts1 ts2 where u: "ts = ts1 @ ts2" "close_all port x c ts1 s1 = (Inr (), u)" "close_all port x c ts2 u = (Inr (), s')"
      "close_all (interrupted_port e port) x c ts (s1, k) = (Inr (), (u, j)) \<and> ts2 = []
       \<or> close_all (interrupted_port e port) x c ts (s1, k) = (Inl e, (u, 0))"
      by (rule Cons.IH [OF _ q(3)])
    have "close_all (interrupted_port e port) x c (t # ts) (s, n) = close_all (interrupted_port e port) x c ts (s1, k)"
      using q Suc by (simp add: limited_def bind_p_def)
    moreover have "close_all port x c (t # ts1) s = (Inr (), u)" using q u by (simp add: bind_p_def)
    ultimately show ?thesis by (intro Cons.prems(1) [of "t # ts1" ts2 u j]) (use u in auto)
  qed
qed

definition mark_write :: "'s repository_port \<Rightarrow> string \<Rightarrow> candle \<Rightarrow> ('s, unit) program" where
  "mark_write port sid c = rp_advance_checkpoint port (lifecycle_mark sid) (open_time c)
     [(''signal_id'', PV_text sid), (''source'', PV_text ''SPOT_1m'')]"

lemma entry_interrupted:
  assumes "replay_entry port sid x c s = (Inr r, s1)"
  shows "(\<exists>k. replay_entry (interrupted_port e port) sid x c (s, n) = (Inr r, (s1, k)))
     \<or> replay_entry (interrupted_port e port) sid x c (s, n) = (Inl e, (s, 0))"
  using assms
  by (cases n) (auto simp: replay_entry_def limited_def bind_p_def split: prod.splits sum.splits if_splits)

text \<open>The three parts of a candle, on any port whose reads have no effect.\<close>

lemma candle_parts:
  assumes "rp_get_lifecycle_signal port sid s = (Inr x, s)"
    and "replay_entry port sid x c s = (Inr (acts, now), s1)"
    and "rp_get_lifecycle_signal port sid s1 = (Inr y, s1)"
    and "sorted_wrt (<) (active_variants y)" "now \<Longrightarrow> activation_candle y c"
  shows "\<exists>b. replay_candle port sid c s =
    bind_p (close_all port y c (exits y c (ls_active_tracks y))) (\<lambda>_. bind_p (mark_write port sid c) (\<lambda>_. return_p b)) s1"
proof -
  obtain b where b: "(if ls_active_tracks y \<noteq> [] then process_active port y c now else return_p [])
    = returning b (close_all port y c (exits y c (ls_active_tracks y)))"
    using process_active_effect [of y now c port] assms(4,5) by blast
  have "replay_candle port sid c s =
    bind_p (returning b (close_all port y c (exits y c (ls_active_tracks y))))
      (\<lambda>more. bind_p (mark_write port sid c) (\<lambda>_. return_p (acts @ more))) s1"
    unfolding b [symmetric] replay_candle_def mark_write_def
    using assms(1-3) by (simp add: bind_p_Inr)
  also have "\<dots> = bind_p (close_all port y c (exits y c (ls_active_tracks y)))
      (\<lambda>_. bind_p (mark_write port sid c) (\<lambda>_. return_p (acts @ b))) s1"
    by (simp add: returning_def bind_p_assoc bind_p_return_fun)
  finally show ?thesis by blast
qed

lemma shut_all_tests [simp]:
  "exits (shut_all ts y) = exits y" "close_all port (shut_all ts y) = close_all port y"
  "activation_candle (shut_all ts y) = activation_candle y"
proof -
  show "exits (shut_all ts y) = exits y" "activation_candle (shut_all ts y) = activation_candle y"
    by (induction ts arbitrary: y) simp_all
  have "exit_request (shut_all ts y) = exit_request y" by (induction ts arbitrary: y) simp_all
  then have "close_all port (shut_all ts y) c us s = close_all port y c us s" for c us s
    by (induction us arbitrary: s) (simp_all add: bind_p_def split: prod.splits sum.splits)
  then show "close_all port (shut_all ts y) = close_all port y" by (intro ext)
qed

lemma exits_rest:
  assumes "distinct (map ts_variant (ls_active_tracks y))" "exits y c (ls_active_tracks y) = es1 @ es2"
  shows "exits y c (ls_active_tracks (shut_all es1 y)) = es2"
proof -
  have "distinct (map ts_variant (es1 @ es2))"
    unfolding assms(2) [symmetric] exits_def by (rule distinct_map_filter [OF assms(1)])
  then have "filter (\<lambda>t. ts_variant t \<notin> ts_variant ` set es1) es1 = []" "filter (\<lambda>t. ts_variant t \<notin> ts_variant ` set es1) es2 = es2"
    by (auto simp: filter_empty_conv filter_id_conv)
  moreover have "exits y c (filter Q ts) = filter Q (exits y c ts)" for Q ts
    by (simp add: exits_def conj_commute)
  ultimately show ?thesis by (simp add: shut_all_tracks assms(2))
qed

lemma entry_done:
  assumes "tracks_fit (entry_step x c)" "set es \<subseteq> set (ls_active_tracks (entry_step x c))"
  shows "replay_entry port sid (shut_all es (entry_step x c)) c s = (Inr ([], False), s)"
proof (cases "ls_status (entry_step x c) = PENDING")
  case True
  then have "es = []" using assms by (simp add: tracks_fit_def)
  moreover have "entry_step x c = x \<and> ls_status x = PENDING \<and> \<not> must_expire x c \<and> \<not> touches_entry x c"
    using True by (auto simp: entry_step_def moved_signal_def opened_signal_def split: if_splits)
  ultimately show ?thesis by (auto simp: replay_entry_def)
next
  case False
  then show ?thesis by (simp add: replay_entry_def shut_all_status)
qed

lemma next_multiple:
  assumes "0 < (d :: int)" "a < b" "a mod d = 0" "b mod d = 0"
  shows "a + d \<le> b"
proof -
  obtain i j where "a = d * i" "b = d * j" using assms(3,4) by (auto simp: mod_eq_0_iff_dvd elim!: dvdE)
  moreover then have "d * (i + 1) \<le> d * j" using assms(1,2) by (intro mult_left_mono) simp_all
  ultimately show ?thesis by (simp add: distrib_left)
qed

lemma filter_sorted_suffix:
  fixes f :: "'a \<Rightarrow> int"
  assumes "sorted_wrt (\<lambda>a b. f a < f b) xs"
  shows "\<exists>pre. xs = pre @ filter (\<lambda>c. e \<le> f c) xs"
  using assms
proof (induction xs)
  case (Cons x xs)
  show ?case
  proof (cases "e \<le> f x")
    case True
    then have "\<forall>y \<in> set (x # xs). e \<le> f y" using Cons.prems by fastforce
    then have "filter (\<lambda>c. e \<le> f c) (x # xs) = x # xs" by (intro filter_True) simp
    then show ?thesis by (intro exI [of _ "[]"]) simp
  next
    case False
    obtain pre where "xs = pre @ filter (\<lambda>c. e \<le> f c) xs" using Cons by auto
    then show ?thesis using False by (intro exI [of _ "x # pre"]) simp
  qed
qed simp

definition replay_finish :: "'s repository_port \<Rightarrow> string \<Rightarrow> int \<times> instant option \<times> lifecycle_action list \<Rightarrow> ('s, replay_result) program" where
  "replay_finish port sid = (\<lambda>(n, m', acts).
     bind_p (rp_get_lifecycle_signal port sid) (\<lambda>final.
       query_p (\<lambda>_. check_replay_result \<lparr>rr_signal_id = sid, rr_processed = n, rr_checkpoint = m',
               rr_final_status = ls_status final, rr_actions = acts\<rparr>)))"

text \<open>A database a candle was interrupted in, before its checkpoint moved.\<close>

context signal_store begin

definition resumable :: "string \<Rightarrow> lifecycle_signal \<Rightarrow> candle \<Rightarrow> 's \<Rightarrow> 's \<Rightarrow> 's \<Rightarrow> bool" where
  "resumable sid x c s t s' \<longleftrightarrow> good t \<and> mark_at t = mark_at s
     \<and> (\<exists>z. signal_at t sid = Inr z \<and> ls_created_at z = ls_created_at x)
     \<and> (\<exists>acts. replay_candle port sid c t = (Inr acts, s'))"

lemma close_all_state:
  assumes "good s" "signal_at s (ls_signal_id y) = Inr z" "close_all port y c ts s = (Inr (), t)"
  shows "good t \<and> signal_at t (ls_signal_id y) = Inr (shut_all ts z) \<and> mark_at t = mark_at s"
  using assms
proof (induction ts arbitrary: s z)
  case (Cons u ts)
  obtain req s1 where q: "exit_request y c u = Inr req" "rp_close_track port req s = (Inr (), s1)" "close_all port y c ts s1 = (Inr (), t)"
    using Cons.prems(3) by (auto simp: bind_p_eq_Inr split: sum.splits)
  have ids: "tc_signal_id req = ls_signal_id y" "tc_variant req = ts_variant u"
    using q(1) close_request_ids by (auto simp: exit_request_def split: option.splits)
  have "good s1 \<and> signal_at s1 (ls_signal_id y) = Inr (shut_signal (ts_variant u) z) \<and> mark_at s1 = mark_at s"
    using close_done [OF Cons.prems(1) _ q(2), of z] Cons.prems(2) ids by simp
  then show ?case using Cons.IH [of s1 "shut_signal (ts_variant u) z"] q(3) by simp
qed simp

lemma candle_recovers:
  assumes "good s" "signal_at s sid = Inr x" "minute_ok c" "replay_candle port sid c s = (Inr acts, s')"
  obtains t k r where "replay_candle (interrupted_port e port) sid c (s, n) = (r, (t, k))"
    "(\<exists>a. r = Inr a) \<and> t = s' \<or> r = Inl e \<and> resumable sid x c s t s'"
proof -
  define Q where "Q = interrupted_port e port"
  define y where "y = entry_step x c"
  have id: "ls_signal_id x = sid" using shape [OF assms(1,2)] by simp
  then have idy: "ls_signal_id y = sid" by (simp add: y_def)
  obtain acts1 now s1 where s1: "replay_entry port sid x c s = (Inr (acts1, now), s1)"
    using assms(4) by (auto simp: replay_candle_def bind_p_eq_Inr read_signal assms(2))
  have en: "good s1" "signal_at s1 sid = Inr y" "mark_at s1 = mark_at s" "now \<Longrightarrow> activation_candle y c"
    using entry_run [OF assms(1-3) s1] by (auto simp: y_def)
  note sh = shape [OF en(1,2)]
  have sorted: "sorted_wrt (<) (active_variants y)" and fit: "tracks_fit y" using sh by (auto simp: signal_shape_def)
  have dist: "distinct (map ts_variant (ls_active_tracks y))" using sorted by (simp add: strict_sorted_iff active_variants_def)
  define es where "es = exits y c (ls_active_tracks y)"
  obtain b where b: "replay_candle port sid c s = bind_p (close_all port y c es) (\<lambda>_. bind_p (mark_write port sid c) (\<lambda>_. return_p b)) s1"
    using candle_parts [OF _ s1 _ sorted en(4)] en(2) assms(2) unfolding es_def by (auto simp: read_signal)
  obtain s2 where s2: "close_all port y c es s1 = (Inr (), s2)" "mark_write port sid c s2 = (Inr (), s')"
    using assms(4) unfolding b by (auto simp: bind_p_eq_Inr)
  have redo: "resumable sid x c s t s'"
    if t: "es = es1 @ es2" "close_all port y c es1 s1 = (Inr (), t)" "close_all port y c es2 t = (Inr (), s2)" for es1 es2 t
  proof -
    let ?z = "shut_all es1 y"
    have st: "good t" "signal_at t sid = Inr ?z" "mark_at t = mark_at s"
      using close_all_state [of s1 y y c es1 t] en t(2) idy by simp_all
    have "set es1 \<subseteq> set es" using t(1) by simp
    also have "set es \<subseteq> set (ls_active_tracks y)" by (auto simp: es_def exits_def)
    finally have e0: "replay_entry port sid ?z c t = (Inr ([], False), t)"
      unfolding y_def by (intro entry_done) (use fit in \<open>simp_all add: y_def\<close>)
    have so: "sorted_wrt (<) (active_variants ?z)" using shape [OF st(1,2)] by (simp add: signal_shape_def)
    obtain b' where b': "replay_candle port sid c t =
        bind_p (close_all port ?z c (exits ?z c (ls_active_tracks ?z))) (\<lambda>_. bind_p (mark_write port sid c) (\<lambda>_. return_p b')) t"
      using candle_parts [OF _ e0 _ so] st(2) by (auto simp: read_signal)
    have "replay_candle port sid c t = (Inr b', s')"
      unfolding b' using exits_rest [OF dist t(1) [unfolded es_def]] t(3) s2(2) by (simp add: bind_p_def)
    then show ?thesis using st by (auto simp: resumable_def y_def entry_step_def moved_signal_def opened_signal_def)
  qed
  have sorted': "sorted_wrt (<) (active_variants x)" using shape [OF assms(1,2)] by (simp add: signal_shape_def)
  have read: "rp_get_lifecycle_signal Q sid (u, k) = (signal_at u sid, (u, k))" for u k
    by (simp add: Q_def lifted_def read_signal)
  consider (go) k where "replay_entry Q sid x c (s, n) = (Inr (acts1, now), (s1, k))" | (cut) "replay_entry Q sid x c (s, n) = (Inl e, (s, 0))"
    using entry_interrupted [OF s1, of e n] by (auto simp: Q_def)
  then show thesis
  proof cases
    case cut
    then have "replay_candle Q sid c (s, n) = (Inl e, (s, 0))" by (simp add: replay_candle_def bind_p_def read assms(2))
    moreover have "resumable sid x c s s s'" using assms by (auto simp: resumable_def)
    ultimately show ?thesis using that by (simp add: Q_def)
  next
    case go
    obtain b' where b': "replay_candle Q sid c (s, n) = bind_p (close_all Q y c es) (\<lambda>_. bind_p (mark_write Q sid c) (\<lambda>_. return_p b')) (s1, k)"
      using candle_parts [OF _ go _ sorted en(4)] en(2) assms(2) unfolding es_def by (auto simp: read)
    obtain t j es1 es2 where t: "es = es1 @ es2" "close_all port y c es1 s1 = (Inr (), t)" "close_all port y c es2 t = (Inr (), s2)"
      "close_all Q y c es (s1, k) = (Inr (), (t, j)) \<and> es2 = [] \<or> close_all Q y c es (s1, k) = (Inl e, (t, 0))"
      unfolding Q_def by (rule close_all_interrupted [OF s2(1)])
    from t(4) show ?thesis
    proof
      assume "close_all Q y c es (s1, k) = (Inl e, (t, 0))"
      then have "replay_candle Q sid c (s, n) = (Inl e, (t, 0))" unfolding b' by (simp add: bind_p_def)
      then show ?thesis using that redo [OF t(1-3)] by (simp add: Q_def)
    next
      assume f: "close_all Q y c es (s1, k) = (Inr (), (t, j)) \<and> es2 = []"
      then have ts: "t = s2" using t(3) by simp
      show ?thesis
      proof (cases j)
        case 0
        then have "replay_candle Q sid c (s, n) = (Inl e, (t, 0))"
          unfolding b' using f by (simp add: bind_p_def mark_write_def Q_def limited_def)
        then show ?thesis using that redo [OF t(1-3)] by (simp add: Q_def)
      next
        case (Suc i)
        then have "replay_candle Q sid c (s, n) = (Inr b', (s', i))"
          unfolding b' using f ts s2(2) by (simp add: bind_p_def mark_write_def Q_def limited_def)
        then show ?thesis using that by (simp add: Q_def)
      qed
    qed
  qed
qed

end

context signal_store begin

lemma candles_restart:
  assumes "replay_candles port sid cs n m acts s = (Inr r, s')"
  shows "\<exists>n' acts'. replay_candles port sid cs n2 m2 acts2 s = (Inr (n', if cs = [] then m2 else Some (open_time (last cs)), acts'), s')
    \<and> n' = n2 + int (length cs)"
  using assms
proof (induction cs arbitrary: s n m acts n2 m2 acts2)
  case (Cons c cs)
  obtain more s1 where c: "replay_candle port sid c s = (Inr more, s1)"
    "replay_candles port sid cs (n + 1) (Some (open_time c)) (acts @ more) s1 = (Inr r, s')"
    using Cons.prems by (auto simp: bind_p_eq_Inr)
  show ?case using Cons.IH [OF c(2), of "n2 + 1" "Some (open_time c)" "acts2 @ more"] c(1) by (auto simp: bind_p_def)
qed simp

lemma candles_recover:
  assumes "good s" "signal_at s sid = Inr x" "list_all minute_ok cs" "replay_candles port sid cs k0 m acts s = (Inr v, s')"
  obtains t j r cs1 cs2 z where "cs = cs1 @ cs2" "replay_candles (interrupted_port e port) sid cs k0 m acts (s, n) = (r, (t, j))"
    "(\<exists>w. r = Inr w) \<and> t = s' \<or> r = Inl e" "good t" "signal_at t sid = Inr z" "ls_created_at z = ls_created_at x"
    "mark_at t (lifecycle_mark sid) = fold (\<lambda>c m. moved_mark m c) cs1 (mark_at s (lifecycle_mark sid))"
    "\<exists>w. replay_candles port sid cs2 0 None [] t = (Inr w, s')"
  using assms
proof (induction cs arbitrary: s x n k0 m acts v thesis)
  case Nil
  show ?case by (rule Nil.prems(1) [of "[]" "[]"]) (use Nil.prems(2-5) in auto)
next
  case (Cons c cs)
  obtain more s1 where c: "replay_candle port sid c s = (Inr more, s1)"
    "replay_candles port sid cs (k0 + 1) (Some (open_time c)) (acts @ more) s1 = (Inr v, s')"
    using Cons.prems(5) by (auto simp: bind_p_eq_Inr)
  have ok: "minute_ok c" "list_all minute_ok cs" using Cons.prems(4) by simp_all
  note one = candle_run [OF Cons.prems(2,3) ok(1) c(1)]
  have rest: "\<exists>w. replay_candles port sid cs 0 None [] s1 = (Inr w, s')" "\<exists>w. replay_candles port sid cs 1 (Some (open_time c)) q s1 = (Inr w, s')" for q
    using candles_restart [OF c(2), of 0 None "[]"] candles_restart [OF c(2), of 1 "Some (open_time c)" q] by blast+
  obtain t k r where t: "replay_candle (interrupted_port e port) sid c (s, n) = (r, (t, k))"
    "(\<exists>a. r = Inr a) \<and> t = s1 \<or> r = Inl e \<and> resumable sid x c s t s1"
    by (rule candle_recovers [OF Cons.prems(2,3) ok(1) c(1)])
  from t(2) show ?case
  proof
    assume "r = Inl e \<and> resumable sid x c s t s1"
    then have r: "r = Inl e" and m: "resumable sid x c s t s1" by auto
    obtain z acts' where z: "signal_at t sid = Inr z" "ls_created_at z = ls_created_at x" "replay_candle port sid c t = (Inr acts', s1)"
      using m by (auto simp: resumable_def)
    show ?case
    proof (rule Cons.prems(1) [of "[]" "c # cs" "Inl e" t k z])
      show "replay_candles (interrupted_port e port) sid (c # cs) k0 m acts (s, n) = (Inl e, t, k)"
        using t(1) r by (simp add: bind_p_def)
      show "\<exists>w. replay_candles port sid (c # cs) 0 None [] t = (Inr w, s')"
        using z(3) rest(2) by (auto simp: bind_p_def)
    qed (use m z in \<open>auto simp: resumable_def\<close>)
  next
    assume a: "(\<exists>a. r = Inr a) \<and> t = s1"
    then obtain a where a: "r = Inr a" "t = s1" by auto
    have g1: "good s1" "signal_at s1 sid = Inr (signal_step c x)" using one by simp_all
    obtain w where w: "replay_candles port sid cs (k0 + 1) (Some (open_time c)) (acts @ a) s1 = (Inr w, s')"
      using candles_restart [OF c(2)] by blast
    obtain u j r' cs1 cs2 z where u: "cs = cs1 @ cs2"
      "replay_candles (interrupted_port e port) sid cs (k0 + 1) (Some (open_time c)) (acts @ a) (s1, k) = (r', (u, j))"
      "(\<exists>w. r' = Inr w) \<and> u = s' \<or> r' = Inl e" "good u" "signal_at u sid = Inr z" "ls_created_at z = ls_created_at (signal_step c x)"
      "mark_at u (lifecycle_mark sid) = fold (\<lambda>c m. moved_mark m c) cs1 (mark_at s1 (lifecycle_mark sid))"
      "\<exists>w. replay_candles port sid cs2 0 None [] u = (Inr w, s')"
      by (rule Cons.IH [OF _ g1 ok(2) w])
    show ?thesis
    proof (rule Cons.prems(1) [of "c # cs1" cs2 r' u j z])
      show "replay_candles (interrupted_port e port) sid (c # cs) k0 m acts (s, n) = (r', u, j)"
        using t(1) a u(2) by (simp add: bind_p_def)
      show "ls_created_at z = ls_created_at x"
        using u(6) by (simp add: signal_step_def Let_def entry_step_def moved_signal_def opened_signal_def)
      show "mark_at u (lifecycle_mark sid) = fold (\<lambda>c m. moved_mark m c) (c # cs1) (mark_at s (lifecycle_mark sid))"
        using u(7) one by simp
    qed (use u in simp_all)
  qed
qed

lemma replay_resumes:
  assumes "series_ok series" "series_interval series = ONE_MINUTE" "ls_created_at z = ls_created_at x"
    and cs: "replay_window m x series = cs1 @ cs2" and gap: "cs1 @ cs2 \<noteq> [] \<Longrightarrow> open_time (hd (cs1 @ cs2)) = expected_open m x"
  defines "m' \<equiv> fold (\<lambda>c m. moved_mark m c) cs1 m"
  shows "replay_window m' z series = cs2" "cs2 \<noteq> [] \<Longrightarrow> open_time (hd cs2) = expected_open m' z"
proof -
  have E: "expected_open k z = expected_open k x" for k by (cases k) (simp_all add: expected_open_def assms(3))
  note w = replay_window_ok [where m = m and x = x, OF assms(1,2), unfolded cs]
  have "replay_window m' z series = cs2 \<and> (cs2 \<noteq> [] \<longrightarrow> open_time (hd cs2) = expected_open m' z)"
  proof (cases "cs1 = []")
    case True
    then have "replay_window m' z series = replay_window m x series" by (simp add: m'_def replay_window_def E)
    then show ?thesis using True cs gap by (simp add: m'_def E)
  next
    case False
    let ?l = "last cs1"
    have l: "?l \<in> set cs1" using False by simp
    have "m' = Some (open_time ?l)"
      unfolding m'_def by (rule moved_marks_last [OF _ False]) (use w(2,3) False in \<open>auto simp: sorted_wrt_append\<close>)
    then have e: "expected_open m' z = open_time ?l + usec_minute" by (simp add: expected_open_def)
    have min: "open_time c mod usec_minute = 0" if "c \<in> set (cs1 @ cs2)" for c
      using w(1) that by (auto simp: list_all_iff minute_ok_def dest: candle_minute(2))
    have le: "expected_open m x \<le> open_time ?l"
    proof -
      have "?l \<in> set (replay_window m x series)" using l cs by simp
      then show ?thesis by (simp add: replay_window_def)
    qed
    have "replay_window m' z series = filter (\<lambda>c. open_time ?l + usec_minute \<le> open_time c) (replay_window m x series)"
      using le by (auto simp: replay_window_def e usec_defs intro!: filter_cong)
    also have "\<dots> = cs2"
    proof -
      have "open_time c \<le> open_time ?l" if "c \<in> set cs1" for c
        using w(2) that False by (cases cs1 rule: rev_cases) (auto simp: sorted_wrt_append less_imp_le)
      then have "filter (\<lambda>c. open_time ?l + usec_minute \<le> open_time c) cs1 = []"
        by (auto simp: filter_empty_conv usec_defs) fastforce
      moreover have "open_time ?l + usec_minute \<le> open_time c" if c: "c \<in> set cs2" for c
      proof -
        have "open_time ?l < open_time c" using w(2) l c by (auto simp: sorted_wrt_append)
        moreover have "open_time c mod usec_minute = 0" "open_time ?l mod usec_minute = 0" using min l c by simp_all
        ultimately show ?thesis by (intro next_multiple) (simp_all add: usec_defs)
      qed
      ultimately show ?thesis using cs by (simp add: filter_id_conv)
    qed
    finally have win: "replay_window m' z series = cs2" .
    obtain pre where pre: "series = pre @ (cs1 @ cs2)"
      using filter_sorted_suffix [of open_time series "expected_open m x"] series_open_distinct [of series] assms(1) cs
      by (auto simp: series_ok_def replay_window_def)
    have "open_time (hd cs2) = open_time ?l + usec_minute" if ne: "cs2 \<noteq> []"
    proof -
      obtain xs where xs: "cs1 = xs @ [?l]" using False by (metis append_butlast_last_id)
      have "pairwise_all follows (?l # cs2)"
        using assms(1) unfolding series_ok_def pre by (subst (asm) xs) (auto simp: pairwise_all_append)
      then have "follows ?l (hd cs2)" using ne by (cases cs2) auto
      moreover have "minute_ok ?l" using w(1) l by (auto simp: list_all_iff)
      ultimately show ?thesis using candle_minute(1) [of ?l] by (auto simp: follows_def minute_ok_def)
    qed
    then show ?thesis using win e by simp
  qed
  then show "replay_window m' z series = cs2" "cs2 \<noteq> [] \<Longrightarrow> open_time (hd cs2) = expected_open m' z" by simp_all
qed

lemma replay_recovers:
  assumes "good s" "signal_at s sid = Inr x" "series_ok series"
    and run: "lifecycle_replay port sid series now s = (Inr res, s')"
  obtains t j r res' where "lifecycle_replay (interrupted_port e port) sid series now (s, n) = (r, (t, j))"
    "lifecycle_replay port sid series now t = (Inr res', s')" "rr_final_status res' = rr_final_status res"
proof -
  define Q where "Q = interrupted_port e port"
  define m where "m = mark_at s (lifecycle_mark sid)"
  define cs where "cs = replay_window m x series"
  have v: "validate_replay_series ''Lifecycle'' series now = Inr ()"
    using run by (auto simp: replay_eq split: sum.splits)
  then have iv: "series_interval series = ONE_MINUTE" by (auto simp: validate_replay_series_def split: if_splits)
  have ng: "\<not> (cs \<noteq> [] \<and> open_time (hd cs) \<noteq> expected_open m x)"
    using run by (auto simp: replay_eq v assms(2) m_def cs_def Let_def split: if_splits)
  have r: "lifecycle_replay port sid series now u = bind_p (replay_candles port sid ds 0 (mark_at u (lifecycle_mark sid)) []) (replay_finish port sid) u"
    if "signal_at u sid = Inr z" "replay_window (mark_at u (lifecycle_mark sid)) z series = ds"
      "ds \<noteq> [] \<Longrightarrow> open_time (hd ds) = expected_open (mark_at u (lifecycle_mark sid)) z" for u z ds
    using that by (auto simp: replay_eq v replay_finish_def [symmetric] Let_def)
  have P: "bind_p (replay_candles port sid cs 0 m []) (replay_finish port sid) s = (Inr res, s')"
    using run r [OF assms(2), of cs] ng by (auto simp: m_def cs_def)
  then obtain w where w: "replay_candles port sid cs 0 m [] s = (Inr w, s')" "replay_finish port sid w s' = (Inr res, s')"
    by (auto simp: bind_p_eq_Inr replay_finish_def read_signal split: prod.splits)
  have min: "list_all minute_ok cs" unfolding cs_def by (rule replay_window_ok(1) [OF assms(3) iv])
  obtain t j q cs1 cs2 z where t: "cs = cs1 @ cs2" "replay_candles Q sid cs 0 m [] (s, n) = (q, (t, j))"
    "good t" "signal_at t sid = Inr z" "ls_created_at z = ls_created_at x"
    "mark_at t (lifecycle_mark sid) = fold (\<lambda>c m. moved_mark m c) cs1 m"
    "\<exists>w. replay_candles port sid cs2 0 None [] t = (Inr w, s')"
    unfolding Q_def m_def by (rule candles_recover [where e = e and n = n, OF assms(1,2) min w(1) [unfolded m_def]]) blast
  have rs: "replay_window (mark_at t (lifecycle_mark sid)) z series = cs2"
    "cs2 \<noteq> [] \<Longrightarrow> open_time (hd cs2) = expected_open (mark_at t (lifecycle_mark sid)) z"
    using replay_resumes [OF assms(3) iv t(5), of m cs1 cs2] t(1,6) ng by (auto simp: cs_def)
  obtain k a b where again: "replay_candles port sid cs2 0 (mark_at t (lifecycle_mark sid)) [] t = (Inr (k, a, b), s')" "0 \<le> k"
  proof -
    from t(7) obtain w' where "replay_candles port sid cs2 0 None [] t = (Inr w', s')" by blast
    from candles_restart [OF this, of 0 "mark_at t (lifecycle_mark sid)" "[]"] show thesis using that by auto
  qed
  obtain y where y: "signal_at s' sid = Inr y" "sid \<noteq> []" "rr_final_status res = ls_status y"
    using w(2) by (auto simp: replay_finish_def bind_p_eq_Inr read_signal check_replay_result_def split: prod.splits if_splits)
  have t': "lifecycle_replay port sid series now t = (Inr \<lparr>rr_signal_id = sid, rr_processed = k, rr_checkpoint = a,
      rr_final_status = ls_status y, rr_actions = b\<rparr>, s')"
    using r [OF t(4) rs(1) rs(2)] again y by (simp add: bind_p_def replay_finish_def read_signal check_replay_result_def)
  have "lifecycle_replay Q sid series now (s, n) = bind_p (replay_candles Q sid cs 0 m []) (replay_finish Q sid) (s, n)"
    using ng assms(2)
    by (subst replay_reads [where signal_at = "\<lambda>p. signal_at (fst p)" and mark_at = "\<lambda>p. mark_at (fst p)"])
      (auto simp: Q_def lifted_def read_signal read_mark v m_def [symmetric] cs_def [symmetric] replay_finish_def Let_def split: prod.splits)
  moreover have "\<exists>r. bind_p (replay_candles Q sid cs 0 m []) (replay_finish Q sid) (s, n) = (r, (t, j))"
    using t(2) by (cases q) (auto simp: bind_p_def replay_finish_def Q_def lifted_def read_signal split: prod.splits sum.splits)
  ultimately obtain r' where "lifecycle_replay Q sid series now (s, n) = (r', (t, j))" by auto
  then show thesis using that [of r' t j] t' y(3) by (simp add: Q_def)
qed

end

end
