(* ===== verification/LifecycleSuccess.thy ===== *)
theory LifecycleSuccess
  imports Lifecycle
begin

section \<open>Replays succeed\<close>

text \<open>
  The outcomes the engine records have the sign of their result, and a replay of a gapless
  series of closed candles over a reachable database returns: no exception of the repository
  is possible once the keys of the candles are fresh and no other signal is active.
\<close>

subsection \<open>The R of an exit\<close>

definition track_sane :: "lifecycle_signal \<Rightarrow> track_state \<Rightarrow> bool" where
  "track_sane s t \<longleftrightarrow> 0 \<le> ts_realized_r t
     \<and> (ts_current_stop t = ls_original_stop s \<longrightarrow> ts_remaining_fraction t = 1 \<and> ts_realized_r t = 0)"

definition engine_signal :: "lifecycle_signal \<Rightarrow> bool" where
  "engine_signal s \<longleftrightarrow> signal_shape s \<and> (\<forall>fill. ls_fill_price s = Some fill \<longrightarrow> fill = ls_conservative_entry s)
     \<and> (\<forall>t \<in> set (ls_active_tracks s). track_sane s t)"

lemma terms_geometry:
  assumes "terms_of s t"
  shows "case ls_side s of
      LONG \<Rightarrow> 0 < ls_original_stop s \<and> ls_original_stop s < ls_entry_low s \<and> ls_entry_low s \<le> ls_entry_high s
        \<and> ls_entry_high s < t_price (hd (ls_targets s))
    | SHORT \<Rightarrow> 0 < ls_entry_low s \<and> ls_entry_low s \<le> ls_entry_high s \<and> ls_entry_high s < ls_original_stop s
        \<and> t_price (hd (ls_targets s)) < ls_entry_low s"
    "ls_targets s \<noteq> []" "0 \<le> ls_cost_rate s" "ls_cost_rate s \<le> 1 / 100" "0 < ls_risk_percent s"
    "2 \<le> planned_r_for t (hd (ls_targets s))"
proof -
  have c: "check_signal_terms t = Inr t" using assms by (simp add: terms_of_def)
  note v = check_signal_terms_Inr [OF c]
  have ne: "targets t \<noteq> []" using c by (auto simp: check_signal_terms_def split: if_splits)
  show "ls_targets s \<noteq> []" using ne assms by (simp add: terms_of_def)
  have g: "check_side_geometry t = Inr t" using v by simp
  show "case ls_side s of
      LONG \<Rightarrow> 0 < ls_original_stop s \<and> ls_original_stop s < ls_entry_low s \<and> ls_entry_low s \<le> ls_entry_high s
        \<and> ls_entry_high s < t_price (hd (ls_targets s))
    | SHORT \<Rightarrow> 0 < ls_entry_low s \<and> ls_entry_low s \<le> ls_entry_high s \<and> ls_entry_high s < ls_original_stop s
        \<and> t_price (hd (ls_targets s)) < ls_entry_low s"
    using v g ne assms by (cases "ls_side s") (simp_all add: check_side_geometry_Inr terms_of_def)
  show "0 \<le> ls_cost_rate s" "ls_cost_rate s \<le> 1 / 100" "0 < ls_risk_percent s" "2 \<le> planned_r_for t (hd (ls_targets s))"
    using c assms by (auto simp: check_signal_terms_def bind_result_eq_Inr terms_of_def split: if_splits)
qed

lemma conservative_entry_eq: "terms_of s t \<Longrightarrow> conservative_entry t = ls_conservative_entry s"
  by (cases "ls_side s") (simp_all add: conservative_entry_def ls_conservative_entry_def terms_of_def)

lemma engine_risk:
  assumes "engine_signal s" "ls_fill_price s = Some fill"
  shows "risk_ok s fill"
proof -
  obtain t where t: "terms_of s t" using assms(1) by (auto simp: engine_signal_def signal_shape_def)
  have f: "fill = ls_conservative_entry s" "0 < fill" using assms by (auto simp: engine_signal_def signal_shape_def)
  show ?thesis using terms_geometry [OF t] f assms(2)
    by (cases "ls_side s") (auto simp: risk_ok_def ls_conservative_entry_def)
qed

text \<open>TP1 pays exactly the R that was planned with the terms, at least 2.\<close>

lemma target_pays_at:
  assumes "risk_ok s fill" "terms_of s t" "fill = conservative_entry t"
  shows "result_r s (t_price (hd (ls_targets s))) = Inr (planned_r_for t (hd (ls_targets s)))"
    "2 \<le> planned_r_for t (hd (ls_targets s))"
proof -
  have e: "side t = ls_side s" "original_stop t = ls_original_stop s" "estimated_round_trip_cost_rate t = ls_cost_rate s"
    using assms(2) by (simp_all add: terms_of_def)
  show p: "2 \<le> planned_r_for t (hd (ls_targets s))" by (rule terms_geometry(6) [OF assms(2)])
  then have "planned_r_for t (hd (ls_targets s)) =
      dquot (dsub (gross_move (ls_side s) fill (t_price (hd (ls_targets s)))) (round_trip_cost s fill)) (unit_risk s fill)"
    by (auto simp: planned_r_for_def Let_def assms(3) [symmetric] e round_trip_cost_def unit_risk_def split: if_splits)
  then show "result_r s (t_price (hd (ls_targets s))) = Inr (planned_r_for t (hd (ls_targets s)))"
    using result_r_value [OF assms(1)] by simp
qed

lemma target_pays:
  assumes "engine_signal s" "ls_fill_price s = Some fill" "terms_of s t"
  shows "result_r s (t_price (hd (ls_targets s))) = Inr (planned_r_for t (hd (ls_targets s)))"
    "2 \<le> planned_r_for t (hd (ls_targets s))"
proof -
  have "fill = conservative_entry t" using assms conservative_entry_eq [OF assms(3)] by (auto simp: engine_signal_def)
  then show "result_r s (t_price (hd (ls_targets s))) = Inr (planned_r_for t (hd (ls_targets s)))"
    "2 \<le> planned_r_for t (hd (ls_targets s))"
    using target_pays_at [OF engine_risk [OF assms(1,2)] assms(3)] by simp_all
qed

lemma result_r_total:
  assumes "engine_signal s" "ls_fill_price s = Some fill"
  obtains r where "result_r s price = Inr r"
  using result_r_value [OF engine_risk [OF assms]] by blast

text \<open>An exit at the stop is at the stop or beyond it on the losing side.\<close>

lemma stop_fill_worse:
  "case ls_side s of LONG \<Rightarrow> stop_fill s t c a \<le> ts_current_stop t | SHORT \<Rightarrow> ts_current_stop t \<le> stop_fill s t c a"
  by (cases "ls_side s") (simp_all add: stop_fill_def)

lemma original_stop_loses:
  assumes "engine_signal s" "ls_fill_price s = Some fill" "t \<in> set (ls_active_tracks s)" "ts_current_stop t = ls_original_stop s"
    "track_result_r s t (stop_fill s t c a) = Inr r"
  shows "r < 0"
proof -
  note risk = engine_risk [OF assms(1,2)]
  have t: "ts_remaining_fraction t = 1" "ts_realized_r t = 0"
    using assms by (auto simp: engine_signal_def track_sane_def)
  obtain q where q: "result_r s (stop_fill s t c a) = Inr q" "r = dadd 0 (dmul 1 q)"
    using assms(5) by (auto simp: track_result_r_def bind_result_eq_Inr t)
  have "case ls_side s of LONG \<Rightarrow> stop_fill s t c a < fill | SHORT \<Rightarrow> fill < stop_fill s t c a"
    using stop_fill_worse [of s t c a] risk assms(4) by (cases "ls_side s") (auto simp: risk_ok_def)
  then have "q < 0" by (rule result_r_losing [OF risk q(1)])
  then show ?thesis by (simp add: q(2) dadd_def dmul_def dec.neg)
qed

lemma target_wins:
  assumes "engine_signal s" "ls_fill_price s = Some fill" "t \<in> set (ls_active_tracks s)"
    "track_result_r s t (t_price (hd (ls_targets s))) = Inr r"
  shows "0 < r"
proof -
  obtain tm where tm: "terms_of s tm" using assms(1) by (auto simp: engine_signal_def signal_shape_def)
  define p where "p = planned_r_for tm (hd (ls_targets s))"
  have p: "result_r s (t_price (hd (ls_targets s))) = Inr p" "2 \<le> p" using target_pays [OF assms(1,2) tm] by (simp_all add: p_def)
  have t: "0 \<le> ts_realized_r t" "0 < ts_remaining_fraction t"
    using assms by (auto simp: engine_signal_def track_sane_def signal_shape_def)
  have "0 < dmul (ts_remaining_fraction t) p" using t p(2) by (simp add: dmul_def dec.pos)
  then show ?thesis using assms(4) p(1) t by (auto simp: track_result_r_def dadd_def dec.pos)
qed

lemma exit_request_ok:
  assumes "engine_signal s" "ls_fill_price s = Some fill" "t \<in> set (ls_active_tracks s)" "candle_exit s c t \<noteq> None"
  obtains req where "exit_request s c t = Inr req" "outcome_signs (outcome_row_of req)" "tc_close_event req \<in> close_events"
    "\<not> blank (tc_close_reason req)" "tc_signal_id req = ls_signal_id s" "tc_variant req = ts_variant t"
    "\<exists>a. tc_dedupe_key req = lifecycle_key (ls_signal_id s) c (variant_value (ts_variant t) @ '':'' @ a)"
proof -
  obtain price a tg where e: "candle_exit s c t = Some (price, a, tg)" using assms(4) by auto
  obtain q where q: "result_r s price = Inr q" by (rule result_r_total [OF assms(1,2)])
  define r where "r = dadd (ts_realized_r t) (dmul (ts_remaining_fraction t) q)"
  have r: "track_result_r s t price = Inr r" by (simp add: track_result_r_def q r_def)
  obtain res event reason where v: "close_verdict s t r a tg = (res, event, reason)" by (cases "close_verdict s t r a tg") auto
  obtain req where req: "close_request s t price c a tg = Inr req" "tc_result req = res" "tc_result_r req = r"
    "tc_close_event req = event" "tc_close_reason req = reason" "tc_signal_id req = ls_signal_id s" "tc_variant req = ts_variant t"
    "tc_dedupe_key req = lifecycle_key (ls_signal_id s) c (variant_value (ts_variant t) @ '':'' @ event_value event)"
    by (simp add: close_request_def r v)
  have win: "tg \<Longrightarrow> 0 < r"
    using target_wins [OF assms(1-3)] r e by (auto simp: candle_exit_def split: if_splits)
  have loss: "\<not> tg \<Longrightarrow> ts_current_stop t = ls_original_stop s \<Longrightarrow> r < 0"
    using original_stop_loses [OF assms(1-3)] r e by (auto simp: candle_exit_def split: if_splits)
  have "(res = WIN \<longrightarrow> 0 < r) \<and> (res = LOSS \<longrightarrow> r < 0) \<and> (res = BREAK_EVEN \<longrightarrow> r = 0) \<and> event \<in> close_events \<and> \<not> blank reason"
    using v win loss by (auto simp: close_verdict_def Let_def close_events_def blank_def is_space_def split: if_splits)
  then show thesis
    using that [of req] req e by (auto simp: exit_request_def outcome_signs_def)
qed

subsection \<open>Keys\<close>

definition used_keys :: "database \<Rightarrow> string set" where
  "used_keys db = e_dedupe_key ` set (events db) \<union> d_activation_key ` set (trades db)"

definition only_active :: "database \<Rightarrow> string \<Rightarrow> bool" where
  "only_active db sid \<longleftrightarrow> (\<forall>q \<in> set (signals db). r_status q = ACTIVE \<longrightarrow> r_signal_id q = sid)"

definition candle_fresh :: "database \<Rightarrow> string \<Rightarrow> candle \<Rightarrow> bool" where
  "candle_fresh db sid c \<longleftrightarrow> (\<forall>a. lifecycle_key sid c a \<notin> used_keys db)"

text \<open>A write of the engine at candle \<open>c\<close>: an operation of the repository that adds keys of \<open>c\<close> only.\<close>

definition engine_write :: "string \<Rightarrow> string set \<Rightarrow> database \<Rightarrow> database \<Rightarrow> bool" where
  "engine_write sid K db db' \<longleftrightarrow> repo_step\<^sup>*\<^sup>* db db' \<and> used_keys db' \<subseteq> used_keys db \<union> K
     \<and> (only_active db sid \<longrightarrow> only_active db' sid)"

lemma engine_write_refl: "engine_write sid K db db"
  by (simp add: engine_write_def)

lemma engine_write_trans: "engine_write sid K a b \<Longrightarrow> engine_write sid L b c \<Longrightarrow> engine_write sid (K \<union> L) a c"
  by (auto simp: engine_write_def)

lemma only_active_moved:
  assumes "db_ok db" "db_ok db'" "\<And>x. x \<noteq> sid \<Longrightarrow> find_signal db' x = find_signal db x" "only_active db sid"
  shows "only_active db' sid"
  unfolding only_active_def
proof (intro ballI impI)
  fix q assume q: "q \<in> set (signals db')" "r_status q = ACTIVE"
  have f: "find_signal db' (r_signal_id q) = Some q" by (rule find_signal_mem [OF assms(2) q(1)])
  show "r_signal_id q = sid"
  proof (rule ccontr)
    assume "r_signal_id q \<noteq> sid"
    then have "find_signal db (r_signal_id q) = Some q" using f assms(3) by simp
    then have "q \<in> set (signals db)" using find_signal_set by blast
    then show False using assms(4) q(2) \<open>r_signal_id q \<noteq> sid\<close> by (auto simp: only_active_def)
  qed
qed

lemma keep_keys:
  "set_status db sid x ver new now = Inr (n, db1) \<Longrightarrow> used_keys db1 = used_keys db"
  "insert_track db k = Inr db1 \<Longrightarrow> used_keys db1 = used_keys db"
  "insert_outcome db q = Inr db1 \<Longrightarrow> used_keys db1 = used_keys db"
  "insert_snapshot db p = Inr db1 \<Longrightarrow> used_keys db1 = used_keys db"
  "update_tracks db P f = (n, db1) \<Longrightarrow> used_keys db1 = used_keys db"
  "insert_event db e = Inr db1 \<Longrightarrow> used_keys db1 = insert (e_dedupe_key e) (used_keys db)"
  "insert_trade db d = Inr db1 \<Longrightarrow> used_keys db1 = insert (d_activation_key d) (used_keys db)"
  by (auto simp: used_keys_def insert_event_def set_status_def update_signals_def insert_trade_def insert_track_def insert_outcome_def
      insert_snapshot_def update_tracks_def Let_def split: if_splits)

lemma expire_write:
  assumes "db_ok db" "expire_signal sid t key db = Inr db'"
  shows "engine_write sid {key} db db'"
proof -
  have tr: "transition_pending sid EXPIRED t key db = Inr db'" using assms(2) by (simp add: expire_signal_def)
  have s: "repo_step db db'" by (rule step_expire [OF assms(2)])
  obtain e db1 and row :: signal_row where e: "set_status db sid PENDING (r_row_version row) EXPIRED t = Inr (1, db1)"
    "insert_event db1 (new_event sid None e t None [] key) = Inr db'"
    by (rule transition_steps [OF tr insertI1]) blast
  obtain row' where "\<And>x. find_signal db' x = (if x = sid then Some (moved_row row' EXPIRED t) else find_signal db x)"
    by (rule transition_effect [OF tr _ assms(1)]) auto
  then show ?thesis
    using s keep_keys(1) [OF e(1)] keep_keys(6) [OF e(2)] only_active_moved [OF assms(1) repo_step_ok [OF s assms(1)], of sid]
    by (auto simp: engine_write_def)
qed

lemma activate_write:
  assumes "db_ok db" "activate_signal sid fill t key db = Inr db'"
  shows "engine_write sid {key} db db'"
proof -
  have s: "repo_step db db'" by (rule step_activate [OF assms(2)])
  obtain row db1 db2 db3 where e: "set_status db sid PENDING (r_row_version row) ACTIVE t = Inr (1, db1)"
    "insert_trade db1 (trade_row_of row (target_rows_of db1 sid) fill t key) = Inr db2"
    "insert_all insert_track db2 (map (track_row_of row t) [FIXED, MANAGED]) = Inr db3"
    "insert_event db3 (new_event sid None Ev_ENTRY_ACTIVATED t (Some fill) [(''fill_policy'', PV_text ''conservative-v1'')] key) = Inr db'"
    by (rule activate_steps [OF assms(2)]) blast
  obtain db4 where k: "insert_track db2 (track_row_of row t FIXED) = Inr db4" "insert_track db4 (track_row_of row t MANAGED) = Inr db3"
    using e(3) by (auto simp: bind_result_eq_Inr)
  have "used_keys db' = insert key (used_keys db)"
    using keep_keys(1) [OF e(1)] keep_keys(7) [OF e(2)] keep_keys(2) [OF k(1)] keep_keys(2) [OF k(2)] keep_keys(6) [OF e(4)]
    by (simp add: trade_row_of_def)
  moreover obtain row' where "\<And>x. find_signal db' x = (if x = sid then Some (moved_row row' ACTIVE t) else find_signal db x)"
    by (rule activate_effect [OF assms(2,1)]) blast
  ultimately show ?thesis
    using s only_active_moved [OF assms(1) repo_step_ok [OF s assms(1)], of sid] by (auto simp: engine_write_def)
qed

lemma close_write:
  assumes "db_ok db" "close_track c db = Inr db'"
  shows "engine_write (tc_signal_id c) {tc_dedupe_key c @ '':reason'', tc_dedupe_key c @ '':closed''} db db'"
proof -
  have s: "repo_step db db'" by (rule step_close [OF assms(2)])
  have "used_keys db' \<subseteq> used_keys db \<union> {tc_dedupe_key c @ '':reason'', tc_dedupe_key c @ '':closed''}"
    by (rule close_track_steps [OF assms(2)])
      (auto simp: close_managed_signal_def insert_statistics_snapshot_def bind_result_eq_Inr reason_event_def closed_event_def
        split: if_splits dest!: keep_keys)
  moreover have "\<And>x. x \<noteq> tc_signal_id c \<Longrightarrow> find_signal db' x = find_signal db x"
    by (rule close_effect [OF assms(2,1)]) auto
  ultimately show ?thesis
    using s only_active_moved [OF assms(1) repo_step_ok [OF s assms(1)], of "tc_signal_id c"] by (auto simp: engine_write_def)
qed

lemma mark_write_keys:
  assumes "advance_checkpoint key t body db = Inr db'"
  shows "engine_write sid {} db db'"
  using step_checkpoint [OF assms] assms
  by (auto simp: engine_write_def advance_checkpoint_def used_keys_def only_active_def Let_def split: if_splits)

text \<open>Keys of different candles differ.\<close>

definition years_ok :: "candle \<Rightarrow> bool" where
  "years_ok c \<longleftrightarrow> 0 \<le> dt_year (open_time c) \<and> dt_year (open_time c) \<le> 9999"

lemma lifecycle_key_candle:
  assumes "lifecycle_key sid c a = lifecycle_key sid d b" "minute_ok c" "minute_ok d" "years_ok c" "years_ok d"
  shows "open_time c = open_time d"
proof -
  have "iso_utc (open_time c) @ '':'' @ a = iso_utc (open_time d) @ '':'' @ b" using assms(1) by (simp add: lifecycle_key_def)
  then have "iso_utc (open_time c) = iso_utc (open_time d)" by (simp add: append_eq_append_conv length_iso_utc)
  then have "whole_seconds (open_time c) = whole_seconds (open_time d)"
    using assms(4,5) by (intro iso_utc_inj) (simp_all add: years_ok_def)
  then show ?thesis using minute_whole [OF assms(2)] minute_whole [OF assms(3)] by simp
qed

subsection \<open>A candle succeeds\<close>

lemma active_variant_track:
  assumes "db_ok db" "get_lifecycle_signal db sid = Inr z" "v \<in> set (active_variants z)"
  obtains k where "find_track db sid v = Some k" "k_status k = Track_ACTIVE"
proof -
  obtain r where z: "z = signal_view db sid r" using assms(2) by (auto simp: signal_read_Inr [OF assms(1)])
  obtain k where k: "k \<in> set (open_tracks (find_track db sid))" "v = k_variant k"
    using assms(3) by (auto simp: z active_variants_def signal_view_def lifecycle_signal_of_def track_state_of_def)
  then obtain w where w: "find_track db sid w = Some k" "k_status k = Track_ACTIVE" by (auto simp: open_tracks_set)
  then have "w = v" using k find_track_key by blast
  then show thesis using that w by simp
qed

lemma engine_write_ok: "engine_write sid K db db' \<Longrightarrow> store_ok db \<Longrightarrow> store_ok db'"
  unfolding engine_write_def using store_ok_steps by blast

lemma store_db: "store_ok db \<Longrightarrow> db_ok db"
  by (simp add: store_ok_def)

lemma variant_key_inj: "variant_value v @ '':'' @ a = variant_value w @ '':'' @ b \<Longrightarrow> v = w"
  by (cases v; cases w) simp_all

lemma lifecycle_key_inj: "lifecycle_key sid c a = lifecycle_key sid c b \<longleftrightarrow> a = b"
  by (simp add: lifecycle_key_def)

lemma lifecycle_key_append: "lifecycle_key sid c a @ b = lifecycle_key sid c (a @ b)"
  by (simp add: lifecycle_key_def)

lemma close_all_succeeds:
  assumes "store_ok db" "get_lifecycle_signal db (ls_signal_id y) = Inr z" "engine_signal y" "ls_fill_price y = Some fill"
    and "distinct (map ts_variant ts)" "\<And>t. t \<in> set ts \<Longrightarrow> t \<in> set (ls_active_tracks y) \<and> candle_exit y c t \<noteq> None"
    and "\<And>t. t \<in> set ts \<Longrightarrow> ts_variant t \<in> set (active_variants z)"
    and "\<And>t a. t \<in> set ts \<Longrightarrow> lifecycle_key (ls_signal_id y) c (variant_value (ts_variant t) @ '':'' @ a) \<notin> used_keys db"
  shows "\<exists>db'. close_all sqlite_port y c ts db = (Inr (), db') \<and> engine_write (ls_signal_id y) (range (lifecycle_key (ls_signal_id y) c)) db db'"
  using assms
proof (induction ts arbitrary: db z)
  case Nil
  then show ?case by (auto intro: engine_write_refl)
next
  case (Cons t ts)
  let ?sid = "ls_signal_id y"
  have t: "t \<in> set (ls_active_tracks y)" "candle_exit y c t \<noteq> None" using Cons.prems(6) [of t] by simp_all
  obtain req where req: "exit_request y c t = Inr req" "outcome_signs (outcome_row_of req)" "tc_close_event req \<in> close_events"
    "\<not> blank (tc_close_reason req)" "tc_signal_id req = ?sid" "tc_variant req = ts_variant t"
    "\<exists>a. tc_dedupe_key req = lifecycle_key ?sid c (variant_value (ts_variant t) @ '':'' @ a)"
    by (rule exit_request_ok [OF Cons.prems(3,4) t])
  obtain a where key: "tc_dedupe_key req = lifecycle_key ?sid c (variant_value (ts_variant t) @ '':'' @ a)" using req(7) by blast
  note ok = store_db [OF Cons.prems(1)]
  obtain k where k: "find_track db ?sid (ts_variant t) = Some k" "k_status k = Track_ACTIVE"
    using active_variant_track [OF ok Cons.prems(2) Cons.prems(7) [of t]] by auto
  have f: "(tc_dedupe_key req @ b) \<notin> e_dedupe_key ` set (events db)" for b
    using Cons.prems(8) [of t "a @ b"] by (simp add: key lifecycle_key_append used_keys_def)
  have "\<exists>db1. close_track req db = Inr db1"
    by (rule close_succeeds [OF Cons.prems(1) _ k(2) req(3,4,2) f f]) (simp add: req k)
  then obtain db1 where cl: "close_track req db = Inr db1" by blast
  have w: "engine_write ?sid {tc_dedupe_key req @ '':reason'', tc_dedupe_key req @ '':closed''} db db1"
    using close_write [OF ok cl] req(5) by simp
  have g1: "get_lifecycle_signal db1 ?sid = Inr (shut_signal (ts_variant t) z)"
    using view_close [OF ok _ cl, of z] Cons.prems(2) req(5,6) by simp
  have s1: "store_ok db1" by (rule engine_write_ok [OF w Cons.prems(1)])
  have "\<exists>db'. close_all sqlite_port y c ts db1 = (Inr (), db') \<and> engine_write ?sid (range (lifecycle_key ?sid c)) db1 db'"
  proof (rule Cons.IH [OF s1 g1 Cons.prems(3,4)])
    show "distinct (map ts_variant ts)" using Cons.prems(5) by simp
    show "u \<in> set (ls_active_tracks y) \<and> candle_exit y c u \<noteq> None" if "u \<in> set ts" for u
      using Cons.prems(6) [of u] that by simp
    have ne: "ts_variant u \<noteq> ts_variant t" if "u \<in> set ts" for u using Cons.prems(5) that by (metis distinct.simps(2) image_eqI list.simps(9) set_map)
    show "ts_variant u \<in> set (active_variants (shut_signal (ts_variant t) z))" if "u \<in> set ts" for u
      using Cons.prems(7) [of u] that ne [OF that] by (auto simp: active_variants_def)
    show "lifecycle_key ?sid c (variant_value (ts_variant u) @ '':'' @ b) \<notin> used_keys db1" if "u \<in> set ts" for u b
    proof
      assume "lifecycle_key ?sid c (variant_value (ts_variant u) @ '':'' @ b) \<in> used_keys db1"
      then have "lifecycle_key ?sid c (variant_value (ts_variant u) @ '':'' @ b) \<in> {tc_dedupe_key req @ '':reason'', tc_dedupe_key req @ '':closed''}"
        using w Cons.prems(8) [of u b] that by (auto simp: engine_write_def)
      then have "\<exists>d. variant_value (ts_variant u) @ '':'' @ b = variant_value (ts_variant t) @ '':'' @ d"
        by (auto simp: key lifecycle_key_append lifecycle_key_inj)
      then show False using variant_key_inj ne [OF that] by blast
    qed
  qed
  then obtain db' where db': "close_all sqlite_port y c ts db1 = (Inr (), db')" "engine_write ?sid (range (lifecycle_key ?sid c)) db1 db'" by blast
  have "{tc_dedupe_key req @ '':reason'', tc_dedupe_key req @ '':closed''} \<union> range (lifecycle_key ?sid c) = range (lifecycle_key ?sid c)"
    by (auto simp: key lifecycle_key_append)
  then have "engine_write ?sid (range (lifecycle_key ?sid c)) db db'" using engine_write_trans [OF w db'(2)] by simp
  moreover have "close_all sqlite_port y c (t # ts) db = (Inr (), db')"
    using req(1) cl db'(1) by (simp add: bind_p_def)
  ultimately show ?case by blast
qed

lemma entry_succeeds:
  assumes "store_ok db" "get_lifecycle_signal db sid = Inr x" "candle_fresh db sid c" "ls_status x = PENDING \<longrightarrow> only_active db sid"
    "engine_signal x"
  shows "\<exists>acts now db'. replay_entry sqlite_port sid x c db = (Inr (acts, now), db')
    \<and> engine_write sid {lifecycle_key sid c ''expire'', lifecycle_key sid c ''activate''} db db'"
proof (cases "ls_status x = PENDING \<and> (must_expire x c \<or> touches_entry x c)")
  case False
  then show ?thesis by (auto simp: replay_entry_def intro: engine_write_refl)
next
  case True
  note ok = store_db [OF assms(1)]
  obtain r where r: "find_signal db sid = Some r" "r_status r = PENDING" using assms(2) True by (auto simp: signal_read_Inr [OF ok])
  have f: "lifecycle_key sid c a \<notin> e_dedupe_key ` set (events db)" "lifecycle_key sid c a \<notin> d_activation_key ` set (trades db)" for a
    using assms(3) by (auto simp: candle_fresh_def used_keys_def)
  show ?thesis
  proof (cases "must_expire x c")
    case m: True
    obtain db' where e: "expire_signal sid (ls_expires_at x) (lifecycle_key sid c ''expire'') db = Inr db'"
      using transition_succeeds [OF ok r insertI1 f(1)] unfolding expire_signal_def by blast
    then show ?thesis using expire_write [OF ok e] True m by (auto simp: replay_entry_def engine_write_def)
  next
    case m: False
    have "0 < ls_conservative_entry x"
    proof -
      obtain t where "terms_of x t" using assms(5) by (auto simp: engine_signal_def signal_shape_def)
      then show ?thesis using terms_geometry(1) [of x t] by (cases "ls_side x") (auto simp: ls_conservative_entry_def)
    qed
    moreover have "\<forall>q \<in> set (signals db). r_status q \<noteq> ACTIVE"
    proof (intro ballI notI)
      fix q assume q: "q \<in> set (signals db)" "r_status q = ACTIVE"
      then have "r_signal_id q = sid" using assms(4) True by (auto simp: only_active_def)
      then have "find_signal db sid = Some q" using find_signal_mem [OF ok q(1)] by simp
      then show False using r q(2) by simp
    qed
    ultimately obtain db' where e: "activate_signal sid (ls_conservative_entry x) (open_time c) (lifecycle_key sid c ''activate'') db = Inr db'"
      using activate_succeeds [OF ok _ r] f by blast
    then show ?thesis using activate_write [OF ok e] True m by (auto simp: replay_entry_def engine_write_def)
  qed
qed

lemma fresh_track_sane: "track_sane s (fresh_track s v)"
  by (simp add: track_sane_def fresh_track_def)

lemma shut_all_side [simp]: "ls_side (shut_all ts s) = ls_side s" "ls_original_stop (shut_all ts s) = ls_original_stop s"
  "ls_entry_low (shut_all ts s) = ls_entry_low s" "ls_entry_high (shut_all ts s) = ls_entry_high s"
  by (induction ts arbitrary: s) simp_all

lemma conservative_same [simp]:
  "ls_conservative_entry (shut_all ts s) = ls_conservative_entry s"
  "ls_conservative_entry (moved_signal st s) = ls_conservative_entry s"
  "ls_conservative_entry (opened_signal fill t s) = ls_conservative_entry s"
  by (cases "ls_side s"; simp add: ls_conservative_entry_def moved_signal_def opened_signal_def)+

lemma engine_entry:
  assumes "engine_signal x" "signal_shape (entry_step x c)"
  shows "engine_signal (entry_step x c)"
proof -
  have "ls_status x = PENDING \<Longrightarrow> ls_active_tracks x = []"
    using assms(1) by (simp add: engine_signal_def signal_shape_def tracks_fit_def)
  then show ?thesis using assms
    by (auto simp: engine_signal_def entry_step_def)
      (auto simp: moved_signal_def opened_signal_def track_sane_def fresh_track_def)
qed

lemma engine_shut:
  assumes "engine_signal x" "signal_shape (shut_all ts x)"
  shows "engine_signal (shut_all ts x)"
  using assms by (auto simp: engine_signal_def track_sane_def shut_all_tracks)

lemma candle_succeeds:
  assumes "store_ok db" "get_lifecycle_signal db sid = Inr x" "minute_ok c" "candle_fresh db sid c"
    "ls_status x = PENDING \<longrightarrow> only_active db sid" "engine_signal x"
  shows "\<exists>acts db'. replay_candle sqlite_port sid c db = (Inr acts, db')
    \<and> engine_write sid (range (lifecycle_key sid c)) db db' \<and> engine_signal (signal_step c x)"
proof -
  note ok = store_db [OF assms(1)]
  obtain acts now db1 where e: "replay_entry sqlite_port sid x c db = (Inr (acts, now), db1)"
    "engine_write sid {lifecycle_key sid c ''expire'', lifecycle_key sid c ''activate''} db db1"
    using entry_succeeds [OF assms(1,2,4,5,6)] by blast
  define y where "y = entry_step x c"
  have s1: "store_ok db1" by (rule engine_write_ok [OF e(2) assms(1)])
  have r1: "get_lifecycle_signal db1 sid = Inr y" "now \<Longrightarrow> activation_candle y c"
    using sqlite.entry_run [OF ok assms(2,3) e(1)] by (auto simp: y_def)
  note sh = sqlite_shape [OF store_db [OF s1] r1(1)]
  have id: "ls_signal_id y = sid" using sh by simp
  have eng: "engine_signal y" unfolding y_def by (rule engine_entry [OF assms(6)]) (use sh in \<open>simp add: y_def\<close>)
  have sorted: "sorted_wrt (<) (active_variants y)" using sh by (simp add: signal_shape_def)
  let ?es = "exits y c (ls_active_tracks y)"
  have dist: "distinct (map ts_variant ?es)"
    unfolding exits_def using sorted by (intro distinct_map_filter) (simp add: strict_sorted_iff active_variants_def)
  obtain fill where fill: "?es = [] \<or> ls_fill_price y = Some fill"
  proof (cases "ls_active_tracks y = []")
    case True
    then show thesis using that by (simp add: exits_def)
  next
    case False
    then have "ls_fill_price y \<noteq> None" using sh by (auto simp: signal_shape_def tracks_fit_def split: signal_status.splits)
    then show thesis using that by auto
  qed
  have "\<exists>db'. close_all sqlite_port y c ?es db1 = (Inr (), db') \<and> engine_write sid (range (lifecycle_key sid c)) db1 db'"
  proof (cases "?es = []")
    case True
    then show ?thesis by (auto intro: engine_write_refl)
  next
    case False
    show ?thesis
    proof (rule close_all_succeeds [where y = y and z = y and c = c, unfolded id])
      show "store_ok db1" "get_lifecycle_signal db1 sid = Inr y" "engine_signal y" by (fact s1 r1(1) eng)+
      show "ls_fill_price y = Some fill" using fill False by simp
      show "distinct (map ts_variant ?es)" by (rule dist)
      show "t \<in> set (ls_active_tracks y) \<and> candle_exit y c t \<noteq> None" if "t \<in> set ?es" for t
        using that by (simp add: exits_def)
      show "ts_variant t \<in> set (active_variants y)" if "t \<in> set ?es" for t
        using that by (auto simp: exits_def active_variants_def)
      show "lifecycle_key sid c (variant_value (ts_variant t) @ '':'' @ a) \<notin> used_keys db1" for t a
      proof
        assume "lifecycle_key sid c (variant_value (ts_variant t) @ '':'' @ a) \<in> used_keys db1"
        then have "lifecycle_key sid c (variant_value (ts_variant t) @ '':'' @ a) \<in> {lifecycle_key sid c ''expire'', lifecycle_key sid c ''activate''}"
          using e(2) assms(4) by (auto simp: engine_write_def candle_fresh_def)
        then show False by (cases "ts_variant t") (auto simp: lifecycle_key_inj)
      qed
    qed
  qed
  then obtain db2 where c: "close_all sqlite_port y c ?es db1 = (Inr (), db2)" "engine_write sid (range (lifecycle_key sid c)) db1 db2" by blast
  obtain db' where m: "mark_write sqlite_port sid c db2 = (Inr (), db')" "engine_write sid {} db2 db'"
  proof -
    have "\<not> blank (lifecycle_mark sid)" by (simp add: lifecycle_mark_def blank_def is_space_def)
    then obtain db' where "advance_checkpoint (lifecycle_mark sid) (open_time c) [(''signal_id'', PV_text sid), (''source'', PV_text ''SPOT_1m'')] db2 = Inr db'"
      using marks.move_total by blast
    then show thesis using that mark_write_keys by (auto simp: mark_write_def transact_p_eq_Inr)
  qed
  have r0: "rp_get_lifecycle_signal sqlite_port sid db = (Inr x, db)" "rp_get_lifecycle_signal sqlite_port sid db1 = (Inr y, db1)"
    using assms(2) r1(1) by simp_all
  obtain b where "replay_candle sqlite_port sid c db =
      bind_p (close_all sqlite_port y c ?es) (\<lambda>_. bind_p (mark_write sqlite_port sid c) (\<lambda>_. return_p b)) db1"
    using candle_parts [OF r0(1) e(1) r0(2) sorted r1(2)] by blast
  then have run: "replay_candle sqlite_port sid c db = (Inr b, db')" using c(1) m(1) by (simp add: bind_p_def)
  have w: "engine_write sid (range (lifecycle_key sid c)) db db'"
    using engine_write_trans [OF e(2) engine_write_trans [OF c(2) m(2)]] by (simp add: insert_absorb)
  have "signal_step c x = shut_all ?es y" by (simp add: signal_step_def y_def Let_def)
  moreover have "signal_shape (signal_step c x)"
    using sqlite.candle_run [OF ok assms(2,3) run] sqlite_shape by blast
  ultimately have "engine_signal (signal_step c x)" using engine_shut [OF eng] by simp
  then show ?thesis using run w by blast
qed

lemma step_pending: "ls_status (signal_step c x) = PENDING \<Longrightarrow> ls_status x = PENDING"
  by (auto simp: signal_step_def Let_def shut_all_status entry_step_def moved_signal_def opened_signal_def split: if_splits)

lemma candles_succeed:
  assumes "store_ok db" "get_lifecycle_signal db sid = Inr x" "list_all minute_ok cs" "list_all years_ok cs"
    "sorted_wrt (\<lambda>a b. open_time a < open_time b) cs" "list_all (candle_fresh db sid) cs"
    "ls_status x = PENDING \<longrightarrow> only_active db sid" "engine_signal x"
  shows "\<exists>v db'. replay_candles sqlite_port sid cs n m acts db = (Inr v, db') \<and> repo_step\<^sup>*\<^sup>* db db'"
  using assms
proof (induction cs arbitrary: db x n m acts)
  case (Cons c cs)
  have c: "minute_ok c" "years_ok c" "candle_fresh db sid c" using Cons.prems by simp_all
  obtain more db1 where r: "replay_candle sqlite_port sid c db = (Inr more, db1)"
    "engine_write sid (range (lifecycle_key sid c)) db db1" "engine_signal (signal_step c x)"
    using candle_succeeds [OF Cons.prems(1,2) c(1,3) Cons.prems(7,8)] by blast
  note ok = store_db [OF Cons.prems(1)]
  have g: "get_lifecycle_signal db1 sid = Inr (signal_step c x)" using sqlite.candle_run [OF ok Cons.prems(2) c(1) r(1)] by simp
  have s1: "store_ok db1" by (rule engine_write_ok [OF r(2) Cons.prems(1)])
  have "candle_fresh db1 sid d" if d: "d \<in> set cs" for d
    unfolding candle_fresh_def
  proof (intro allI notI)
    fix a assume k: "lifecycle_key sid d a \<in> used_keys db1"
    have ok: "candle_fresh db sid d" "minute_ok d" "years_ok d" "open_time c < open_time d"
      using Cons.prems d by (auto simp: list_all_iff)
    then have "lifecycle_key sid d a \<in> range (lifecycle_key sid c)"
      using k r(2) by (auto simp: engine_write_def candle_fresh_def)
    then obtain b where "lifecycle_key sid d a = lifecycle_key sid c b" by auto
    then have "open_time d = open_time c" by (rule lifecycle_key_candle) (use ok c in simp_all)
    then show False using ok(4) by simp
  qed
  then have "list_all (candle_fresh db1 sid) cs" by (simp add: list_all_iff)
  moreover have "ls_status (signal_step c x) = PENDING \<longrightarrow> only_active db1 sid"
    using step_pending Cons.prems(7) r(2) by (auto simp: engine_write_def)
  ultimately obtain v db' where "replay_candles sqlite_port sid cs (n + 1) (Some (open_time c)) (acts @ more) db1 = (Inr v, db')" "repo_step\<^sup>*\<^sup>* db1 db'"
    using Cons.IH [OF s1 g _ _ _ _ _ r(3), of "n + 1" "Some (open_time c)" "acts @ more"] Cons.prems by auto
  moreover have "repo_step\<^sup>*\<^sup>* db db1" using r(2) by (simp add: engine_write_def)
  ultimately show ?case using r(1) by (cases v) (auto simp: bind_p_def intro: rtranclp_trans)
qed auto

text \<open>
  The conditions under which a replay is started: a series of closed Spot minutes without a
  gap to the checkpoint, fresh keys, and no other active signal while this one is pending.
\<close>

definition replay_ready :: "database \<Rightarrow> string \<Rightarrow> lifecycle_signal \<Rightarrow> candle_series \<Rightarrow> instant \<Rightarrow> bool" where
  "replay_ready db sid x series now \<longleftrightarrow>
     series_ok series \<and> series_venue series = SPOT \<and> series_interval series = ONE_MINUTE
     \<and> list_all (\<lambda>c. is_closed_at c now \<and> years_ok c) series
     \<and> (let window = replay_window (get_checkpoint db (lifecycle_mark sid)) x series
        in list_all (candle_fresh db sid) window
           \<and> (window = [] \<or> open_time (hd window) = expected_open (get_checkpoint db (lifecycle_mark sid)) x))
     \<and> (ls_status x = PENDING \<longrightarrow> only_active db sid)"

lemma read_signal_id: "get_lifecycle_signal db sid = Inr x \<Longrightarrow> ls_signal_id x \<noteq> []"
  by (auto simp: get_lifecycle_signal_def check_lifecycle_signal_def bind_result_eq_Inr split: option.splits if_splits)

lemma replay_succeeds:
  assumes "store_ok db" "get_lifecycle_signal db sid = Inr x" "engine_signal x" "replay_ready db sid x series now"
  shows "\<exists>res db'. lifecycle_replay sqlite_port sid series now db = (Inr res, db') \<and> repo_step\<^sup>*\<^sup>* db db'"
proof -
  define m where "m = get_checkpoint db (lifecycle_mark sid)"
  define cs where "cs = replay_window m x series"
  have rd: "series_ok series" "series_venue series = SPOT" "series_interval series = ONE_MINUTE"
    "list_all (\<lambda>c. is_closed_at c now \<and> years_ok c) series" "list_all (candle_fresh db sid) cs"
    "cs = [] \<or> open_time (hd cs) = expected_open m x" "ls_status x = PENDING \<longrightarrow> only_active db sid"
    using assms(4) by (auto simp: replay_ready_def Let_def m_def cs_def)
  have v: "validate_replay_series ''Lifecycle'' series now = Inr ()"
    using rd(2-4) by (auto simp: validate_replay_series_def list_ex_iff list_all_iff)
  note ok = store_db [OF assms(1)]
  have w: "list_all minute_ok cs" "sorted_wrt (\<lambda>a b. open_time a < open_time b) cs"
    unfolding cs_def by (rule replay_window_ok [OF rd(1,3)])+
  have y: "list_all years_ok cs" using rd(4) by (auto simp: cs_def replay_window_def list_all_iff)
  obtain u db' where u: "replay_candles sqlite_port sid cs 0 m [] db = (Inr u, db')" "repo_step\<^sup>*\<^sup>* db db'"
    using candles_succeed [OF assms(1,2) w(1) y w(2) rd(5,7) assms(3)] by blast
  obtain n m' acts where nma: "u = (n, m', acts)" by (cases u) auto
  note c = sqlite.candles_run [OF ok assms(2) w(1) u(1) [unfolded nma]]
  have sid: "sid \<noteq> []" using read_signal_id [OF assms(2)] sqlite_shape [OF ok assms(2)] by simp
  have "lifecycle_replay sqlite_port sid series now db = (Inr \<lparr>rr_signal_id = sid, rr_processed = n, rr_checkpoint = m',
      rr_final_status = ls_status (fold signal_step cs x), rr_actions = acts\<rparr>, db')"
    unfolding sqlite.replay_eq
    using v assms(2) rd(6) u(1) c sid
    by (auto simp: m_def [symmetric] cs_def [symmetric] Let_def bind_p_def nma check_replay_result_def)
  then show ?thesis using u(2) by blast
qed

subsection \<open>Properties\<close>

lemma track_result_mono:
  assumes "risk_ok s fill" "0 < ts_remaining_fraction t" "case ls_side s of LONG \<Rightarrow> p \<le> q | SHORT \<Rightarrow> q \<le> p"
    "track_result_r s t p = Inr a" "track_result_r s t q = Inr b"
  shows "a \<le> b"
proof -
  obtain u v where u: "result_r s p = Inr u" "a = dadd (ts_realized_r t) (dmul (ts_remaining_fraction t) u)"
    and v: "result_r s q = Inr v" "b = dadd (ts_realized_r t) (dmul (ts_remaining_fraction t) v)"
    using assms(4,5) by (auto simp: track_result_r_def bind_result_eq_Inr)
  have "u \<le> v" by (rule result_r_mono [OF assms(1,3) u(1) v(1)])
  then have "dmul (ts_remaining_fraction t) u \<le> dmul (ts_remaining_fraction t) v"
    unfolding dmul_def using assms(2) by (intro rnd28_mono mult_left_mono) simp_all
  then show ?thesis unfolding u(2) v(2) dadd_def by (intro rnd28_mono) simp
qed

text \<open>The sample signal on its two sample candles: the entry is touched, then both TP1 and the stop.\<close>

definition sample_view :: lifecycle_signal where
  "sample_view = signal_view sample_db sample_id (signal_row_of sample_signal)"

lemma sample_view_read: "get_lifecycle_signal sample_db sample_id = Inr sample_view"
  using sample_db_signal signal_read_Inr [OF reachable_ok [OF sample_db_reachable], of sample_id sample_view]
  by (simp add: sample_view_def sample_id_def sample_signal_def sample_terms_def signal_row_of_def Let_def whole_seconds_def usec_defs)

lemma sample_view_fields:
  "ls_status sample_view = PENDING" "ls_created_at sample_view = 60000000" "ls_expires_at sample_view = 600000000"
  "ls_side sample_view = LONG" "ls_entry_low sample_view = 99" "ls_entry_high sample_view = 100" "ls_original_stop sample_view = 98"
  by (simp_all add: sample_view_def sample_signal_def sample_terms_def signal_row_of_def Let_def whole_seconds_def usec_defs)

lemma sample_view_engine: "engine_signal sample_view"
proof -
  have "signal_shape sample_view" using sqlite_shape [OF reachable_ok [OF sample_db_reachable] sample_view_read] by simp
  then show ?thesis using sample_view_fields(1) by (auto simp: engine_signal_def signal_shape_def tracks_fit_def)
qed

lemma sample_ready: "replay_ready sample_db sample_id sample_view sample_series 300000000"
proof -
  have cp: "get_checkpoint sample_db k = None" for k
  proof -
    have "checkpoints sample_db = checkpoints empty_database"
      using sample_db_created
      by (auto simp: create_signal_def bind_result_eq_Inr insert_signal_row_def dest!: checkpoint_frame(1) insert_targets_law(1) split: if_splits)
    then show ?thesis by (simp add: get_checkpoint_def find_checkpoint_def empty_database_def)
  qed
  have "used_keys sample_db = {''signal:BTC-20240229-001:created''}"
    using arg_cong [OF sample_db_facts(3), of set] unfolding used_keys_def set_map list.set by (simp add: sample_db_facts(2))
  then have fresh: "candle_fresh sample_db sample_id c" for c
    by (simp add: candle_fresh_def lifecycle_key_def)
  have e: "expected_open None sample_view = 60000000"
    by (simp add: expected_open_def sample_view_fields first_safe_open_def Let_def floor_minute_def usec_defs)
  have y: "years_ok (minute_candle 1 a b c d)" "years_ok (minute_candle 2 a b c d)" for a b c d
    by (simp_all add: years_ok_def dt_year_def dt_day_def usec_defs date_of_day_def year_of_day_def Let_def days_before_year_def epoch_ordinal_def)
  have "only_active sample_db sample_id"
    by (simp add: only_active_def sample_db_facts(1)) (simp add: sample_signal_def)
  then show ?thesis
    using fresh e y sample_series_ok
    by (simp add: replay_ready_def cp Let_def replay_window_def e sample_series_def series_venue_def series_interval_def is_closed_at_def usec_defs)
qed

lemma sample_replay:
  obtains res db' where "lifecycle_replay sqlite_port sample_id sample_series 300000000 sample_db = (Inr res, db')"
  using replay_succeeds [OF store_ok_reachable [OF sample_db_reachable] sample_view_read sample_view_engine sample_ready] by blast

lemma sample_window: "replay_window (get_checkpoint sample_db (lifecycle_mark sample_id)) sample_view sample_series = sample_series"
proof -
  have c: "checkpoints sample_db = []"
    using sample_db_created
    by (auto simp: create_signal_def bind_result_eq_Inr insert_signal_row_def empty_database_def
        dest!: checkpoint_frame(1) insert_targets_law(1) split: if_splits)
  have "expected_open None sample_view = 60000000"
    by (simp add: expected_open_def sample_view_fields first_safe_open_def Let_def floor_minute_def usec_defs)
  then show ?thesis
    by (simp add: replay_window_def sample_series_def get_checkpoint_def find_checkpoint_def c usec_defs)
qed

lemma candle_exit_None: "candle_exit s c t = None \<longleftrightarrow> \<not> touches_stop s t c \<and> (touches_tp1 s c \<longrightarrow> activation_candle s c)"
  by (simp add: candle_exit_def)

context signal_store begin

lemma candle_entry:
  "replay_candle port sid c s = (Inr acts, s') \<Longrightarrow> signal_at s sid = Inr x \<Longrightarrow>
   \<exists>a now s1. replay_entry port sid x c s = (Inr (a, now), s1)"
  by (auto simp: replay_candle_def bind_p_eq_Inr read_signal)

end

text \<open>
  C3: the replay engine refines its specification.  A run over a valid series leaves the
  signal exactly as the candle specification, folded over the candles from the expected open
  time on, says; the result reports the number of candles applied and the final status, and
  the stored checkpoint is the open time of the last of them.
\<close>

theorem replay_refines:
  assumes "repo_reachable db" "get_lifecycle_signal db sid = Inr x" "series_ok series"
    and "lifecycle_replay sqlite_port sid series now db = (Inr res, db')"
  defines "window \<equiv> replay_window (get_checkpoint db (lifecycle_mark sid)) x series"
  shows "get_lifecycle_signal db' sid = Inr (fold signal_step window x)
    \<and> rr_final_status res = ls_status (fold signal_step window x)
    \<and> rr_processed res = int (length window)
    \<and> rr_checkpoint res = get_checkpoint db' (lifecycle_mark sid)
    \<and> get_checkpoint db' (lifecycle_mark sid) =
        (if window = [] then get_checkpoint db (lifecycle_mark sid) else Some (open_time (last window)))"
  using sqlite.replay_run [OF reachable_ok [OF assms(1)] assms(2-4)] by (simp add: window_def)

lemma sample_steps:
  "ls_status (fold signal_step sample_series sample_view) = CLOSED"
  "ls_active_tracks (fold signal_step sample_series sample_view) = []"
proof -
  define c where "c = minute_candle 1 100 101 99 100"
  define d where "d = minute_candle 2 100 112 98 111"
  have cd: "open_time c = 60000000" "close_time c = 119999000" "c_low c = 99" "c_high c = 101"
    "open_time d = 120000000" "c_low d = 98" "c_high d = 112"
    by (simp_all add: c_def d_def usec_defs)
  define y where "y = opened_signal 100 60000000 sample_view"
  have y: "ls_status y = ACTIVE" "ls_side y = LONG" "ls_activated_at y = Some 60000000"
    "ls_active_tracks y = map (fresh_track sample_view) [FIXED, MANAGED]"
    by (simp_all add: y_def opened_signal_def whole_seconds_def usec_defs sample_view_fields)
  have e: "entry_step sample_view c = y"
    by (simp add: entry_step_def must_expire_def touches_entry_def ls_conservative_entry_def sample_view_fields cd y_def)
  have f: "touches_stop y (fresh_track sample_view v) c = False" "touches_stop y (fresh_track sample_view v) d" for v
    by (simp_all add: touches_stop_def y(2) fresh_track_def sample_view_fields cd)
  have "exits y c (ls_active_tracks y) = []"
    by (simp del: not_None_eq add: exits_def y(3,4) candle_exit_None f activation_candle_def cd(1))
  then have s1: "signal_step c sample_view = y" by (simp add: signal_step_def Let_def e)
  have e2: "entry_step y d = y" by (simp add: entry_step_def y(1))
  have "exits y d (ls_active_tracks y) = ls_active_tracks y" by (simp del: not_None_eq add: exits_def y(4) candle_exit_None f)
  then have "signal_step d y = shut_all (ls_active_tracks y) y" by (simp add: signal_step_def Let_def e2)
  then show "ls_status (fold signal_step sample_series sample_view) = CLOSED"
    "ls_active_tracks (fold signal_step sample_series sample_view) = []"
    by (simp_all add: sample_series_def c_def [symmetric] d_def [symmetric] s1 shut_all_status shut_all_tracks y(4) fresh_track_def)
qed

theorem replay_refines_witness:
  "\<exists>res db'. lifecycle_replay sqlite_port sample_id sample_series 300000000 sample_db = (Inr res, db')
     \<and> rr_final_status res = CLOSED \<and> rr_processed res = 2"
proof -
  obtain res db' where r: "lifecycle_replay sqlite_port sample_id sample_series 300000000 sample_db = (Inr res, db')" by (rule sample_replay)
  show ?thesis
    using replay_refines [OF sample_db_reachable sample_view_read sample_series_ok r] r sample_steps(1)
    by (simp add: sample_window) (simp add: sample_series_def)
qed

text \<open>
  C4: a replay is crash safe.  Whenever a replay would succeed, let the store fail at any of
  its writes with any exception: running the replay again on the database this leaves behind
  succeeds and reaches the same database as the uninterrupted run, row for row.
\<close>

theorem replay_crash_recovery:
  assumes "repo_reachable db" "get_lifecycle_signal db sid = Inr x" "series_ok series"
    and "lifecycle_replay sqlite_port sid series now db = (Inr res, db')"
  shows "\<exists>res'. lifecycle_replay sqlite_port sid series now
      (fst (snd (lifecycle_replay (interrupted_port e sqlite_port) sid series now (db, n)))) = (Inr res', db')
    \<and> rr_final_status res' = rr_final_status res"
proof -
  obtain t j r res' where "lifecycle_replay (interrupted_port e sqlite_port) sid series now (db, n) = (r, (t, j))"
    "lifecycle_replay sqlite_port sid series now t = (Inr res', db')" "rr_final_status res' = rr_final_status res"
    by (rule sqlite.replay_recovers [OF reachable_ok [OF assms(1)] assms(2-4)])
  then show ?thesis by simp
qed

theorem replay_crash_recovery_witness:
  "\<exists>res res' db'. lifecycle_replay sqlite_port sample_id sample_series 300000000 sample_db = (Inr res, db')
     \<and> lifecycle_replay sqlite_port sample_id sample_series 300000000
         (fst (snd (lifecycle_replay (interrupted_port (ConcurrencyError ''lost'') sqlite_port) sample_id sample_series 300000000 (sample_db, 2))))
       = (Inr res', db')"
proof -
  obtain res db' where r: "lifecycle_replay sqlite_port sample_id sample_series 300000000 sample_db = (Inr res, db')" by (rule sample_replay)
  show ?thesis using replay_crash_recovery [OF sample_db_reachable sample_view_read sample_series_ok r] r by blast
qed



text \<open>
  C1: exits are conservative.  After a candle, an open track whose stop was touched has an
  outcome that is no win and pays at most the R of its stop, even when the candle also reached
  TP1; a track that only TP1 reached wins exactly the R of TP1; and on the activation candle,
  or when neither was reached, the track keeps its outcome and stays open.
\<close>

theorem stop_first:
  assumes "repo_reachable db" "get_lifecycle_signal db sid = Inr x" "engine_signal x" "minute_ok c"
    and "replay_candle sqlite_port sid c db = (Inr acts, db')"
    and "t \<in> set (ls_active_tracks (entry_step x c))"
  defines "y \<equiv> entry_step x c"
  shows "(touches_stop y t c \<longrightarrow>
      (\<exists>row r. find_outcome db' sid (ts_variant t) = Some row \<and> o_result row \<noteq> WIN
         \<and> track_result_r y t (ts_current_stop t) = Inr r \<and> o_result_r row \<le> r))
    \<and> (\<not> touches_stop y t c \<and> touches_tp1 y c \<and> \<not> activation_candle y c \<longrightarrow>
      (\<exists>row. find_outcome db' sid (ts_variant t) = Some row \<and> o_result row = WIN
         \<and> track_result_r y t (t_price (hd (ls_targets y))) = Inr (o_result_r row)))
    \<and> (\<not> touches_stop y t c \<and> (touches_tp1 y c \<longrightarrow> activation_candle y c) \<longrightarrow>
      find_outcome db' sid (ts_variant t) = find_outcome db sid (ts_variant t)
      \<and> (\<exists>z. get_lifecycle_signal db' sid = Inr z \<and> t \<in> set (ls_active_tracks z)))"
proof -
  have ok: "db_ok db" by (rule reachable_ok [OF assms(1)])
  note run = sqlite.candle_run [OF ok assms(2,4,5)]
  have id: "ls_signal_id y = sid" using sqlite_shape [OF ok assms(2)] by (simp add: y_def)
  obtain acts1 now db1 where e: "replay_entry sqlite_port sid x c db = (Inr (acts1, now), db1)"
    using sqlite.candle_entry [OF assms(5,2)] by blast
  have en: "db_ok db1" "get_lifecycle_signal db1 sid = Inr y"
    using sqlite.entry_run [OF ok assms(2,4) e] by (auto simp: y_def)
  have shape: "signal_shape y" using sqlite_shape [OF en] by simp
  have eng: "engine_signal y" unfolding y_def by (rule engine_entry [OF assms(3)]) (use shape y_def in simp)
  have t: "t \<in> set (ls_active_tracks y)" using assms(6) by (simp add: y_def)
  have dist: "distinct (map ts_variant (ls_active_tracks y))"
    using shape by (simp add: signal_shape_def strict_sorted_iff active_variants_def)
  obtain fill where fill: "ls_fill_price y = Some fill"
  proof -
    have "ls_active_tracks y \<noteq> []" using t by auto
    then show thesis using shape that by (cases "ls_status y") (auto simp: signal_shape_def tracks_fit_def)
  qed
  have frac: "0 < ts_remaining_fraction t" using shape t by (auto simp: signal_shape_def)
  have out: "find_outcome db' sid (ts_variant t) = Some (outcome_row_of req)" if "candle_exit y c t \<noteq> None" "exit_request y c t = Inr req" for req
    using run that t unfolding y_def [symmetric] by (auto simp: exits_def outcome_view_def)
  have no: "ts_variant t \<notin> ts_variant ` set (exits y c (ls_active_tracks y))" if "candle_exit y c t = None"
  proof
    assume "ts_variant t \<in> ts_variant ` set (exits y c (ls_active_tracks y))"
    then obtain u where u: "u \<in> set (ls_active_tracks y)" "candle_exit y c u \<noteq> None" "ts_variant u = ts_variant t"
      by (auto simp: exits_def)
    then have "u = t" using dist t by (auto simp: distinct_map dest: inj_onD)
    then show False using u that by simp
  qed
  obtain q where q: "track_result_r y t (ts_current_stop t) = Inr q"
    using result_r_total [OF eng fill] by (metis bind_result_Inr track_result_r_def)
  show ?thesis
  proof (intro conjI impI)
    assume s: "touches_stop y t c"
    have ce: "candle_exit y c t \<noteq> None" unfolding candle_exit_None using s by blast
    obtain req where req: "exit_request y c t = Inr req" "outcome_signs (outcome_row_of req)"
      by (rule exit_request_ok [OF eng fill t ce]) blast
    obtain r where r: "track_result_r y t (stop_fill y t c (activation_candle y c)) = Inr r" "tc_result_r req = r"
      "tc_result req = fst (close_verdict y t r (touches_tp1 y c) False)"
      using req(1) s by (auto simp: exit_request_def candle_exit_def close_request_def bind_result_eq_Inr case_prod_unfold Let_def)
    have "r \<le> q"
    proof (rule track_result_mono [OF engine_risk [OF eng fill] frac _ r(1) q])
      show "case ls_side y of LONG \<Rightarrow> stop_fill y t c (activation_candle y c) \<le> ts_current_stop t
        | SHORT \<Rightarrow> ts_current_stop t \<le> stop_fill y t c (activation_candle y c)" by (rule stop_fill_worse)
    qed
    moreover have "tc_result req \<noteq> WIN" using r(3) by (auto simp: close_verdict_def Let_def split: if_splits)
    ultimately show "\<exists>row r. find_outcome db' sid (ts_variant t) = Some row \<and> o_result row \<noteq> WIN
         \<and> track_result_r y t (ts_current_stop t) = Inr r \<and> o_result_r row \<le> r"
      using out [OF _ req(1), unfolded candle_exit_None] s q r(2) by auto
  next
    assume s: "\<not> touches_stop y t c \<and> touches_tp1 y c \<and> \<not> activation_candle y c"
    have ce: "candle_exit y c t \<noteq> None" unfolding candle_exit_None using s by blast
    obtain req where req: "exit_request y c t = Inr req"
      by (rule exit_request_ok [OF eng fill t ce]) blast
    then have "tc_result req = WIN" "track_result_r y t (t_price (hd (ls_targets y))) = Inr (tc_result_r req)"
      using s by (auto simp: exit_request_def candle_exit_def close_request_def close_verdict_def bind_result_eq_Inr Let_def)
    then show "\<exists>row. find_outcome db' sid (ts_variant t) = Some row \<and> o_result row = WIN
         \<and> track_result_r y t (t_price (hd (ls_targets y))) = Inr (o_result_r row)"
      using out [OF _ req, unfolded candle_exit_None] s by auto
  next
    assume s: "\<not> touches_stop y t c \<and> (touches_tp1 y c \<longrightarrow> activation_candle y c)"
    then have ce: "candle_exit y c t = None" by (simp add: candle_exit_None)
    show "find_outcome db' sid (ts_variant t) = find_outcome db sid (ts_variant t)"
      using run no [OF ce] unfolding y_def [symmetric] by (auto simp: outcome_view_def image_iff)
    have "get_lifecycle_signal db' sid = Inr (shut_all (exits y c (ls_active_tracks y)) y)"
      using run unfolding y_def [symmetric] by (simp add: signal_step_def y_def Let_def)
    then show "\<exists>z. get_lifecycle_signal db' sid = Inr z \<and> t \<in> set (ls_active_tracks z)"
      using t no [OF ce] by (simp add: shut_all_tracks)
  qed
qed

theorem stop_first_witness:
  "\<exists>acts db'. replay_candle sqlite_port sample_id (minute_candle 1 100 111 99 100) sample_db = (Inr acts, db')
     \<and> find_outcome db' sample_id FIXED = find_outcome sample_db sample_id FIXED"
proof -
  let ?c = "minute_candle 1 100 111 99 100"
  have ok: "minute_ok ?c" by (simp add: minute_ok_def minute_candle_ok)
  have "list_all (candle_fresh sample_db sample_id) sample_series" "only_active sample_db sample_id"
    using sample_ready sample_window by (auto simp: replay_ready_def Let_def sample_view_fields)
  then have "candle_fresh sample_db sample_id ?c" "ls_status sample_view = PENDING \<longrightarrow> only_active sample_db sample_id"
    by (simp_all add: sample_series_def candle_fresh_def lifecycle_key_def)
  then obtain acts db' where r: "replay_candle sqlite_port sample_id ?c sample_db = (Inr acts, db')"
    using candle_succeeds [OF store_ok_reachable [OF sample_db_reachable] sample_view_read ok _ _ sample_view_engine] by blast
  have e: "entry_step sample_view ?c = opened_signal 100 60000000 sample_view"
    by (simp add: entry_step_def must_expire_def touches_entry_def ls_conservative_entry_def sample_view_fields usec_defs)
  have t: "fresh_track sample_view FIXED \<in> set (ls_active_tracks (entry_step sample_view ?c))"
    by (simp add: e opened_signal_def)
  have "\<not> touches_stop (entry_step sample_view ?c) (fresh_track sample_view FIXED) ?c" "activation_candle (entry_step sample_view ?c) ?c"
    by (simp_all add: e opened_signal_def touches_stop_def fresh_track_def sample_view_fields activation_candle_def whole_seconds_def usec_defs)
  then show ?thesis
    using stop_first [OF sample_db_reachable sample_view_read sample_view_engine ok r t] r by (auto simp: fresh_track_def)
qed

end
