(* ===== verification/Management.thy ===== *)
theory Management
  imports LifecycleSuccess
begin

section \<open>The position management engine\<close>

text \<open>
  \<^verbatim>\<open>management/engine.py\<close> and the replay result of \<^verbatim>\<open>management/models.py\<close>.  The engine is a
  program over the repository port: for each completed candle it records at most one decision
  on the managed track and moves its checkpoint.  The text of a decimal in a reason
  (\<^verbatim>\<open>str\<close> of a \<^verbatim>\<open>Decimal\<close>, which depends on its trailing zeros) is the argument \<open>show_dec\<close>.

  The lemmas give the effect of a decision on the signal: \<open>protects\<close> is the relation between
  the signal before and after any number of decisions.
\<close>

subsection \<open>Policy and result\<close>

record management_policy =
  mp_break_even_trigger_r :: decimal
  mp_partial_trigger_r :: "decimal option"
  mp_partial_fraction :: decimal
  mp_strategy_version :: string

definition default_policy :: management_policy where
  "default_policy =
     \<lparr>mp_break_even_trigger_r = 3 / 2, mp_partial_trigger_r = None, mp_partial_fraction = 1 / 2,
      mp_strategy_version = ''management-v0.8.0''\<rparr>"

definition check_management_policy :: "management_policy \<Rightarrow> management_policy result" where
  "check_management_policy p =
     (if mp_break_even_trigger_r p < 1 then Inl (ValueError ''Break-even protection cannot trigger below 1R'')
      else if (case mp_partial_trigger_r p of None \<Rightarrow> False | Some r \<Rightarrow> r \<le> 0)
      then Inl (ValueError ''Partial trigger must be positive when enabled'')
      else if (case mp_partial_trigger_r p of None \<Rightarrow> False | Some r \<Rightarrow> r < mp_break_even_trigger_r p)
      then Inl (ValueError ''Partial trigger cannot precede break-even protection'')
      else if \<not> (0 < mp_partial_fraction p \<and> mp_partial_fraction p < 1)
      then Inl (ValueError ''Partial fraction must be strictly between zero and one'')
      else if blank (mp_strategy_version p) then Inl (ValueError ''Management strategy version is required'')
      else Inr p)"

record management_result =
  mr_signal_id :: string
  mr_processed :: int
  mr_checkpoint :: "instant option"
  mr_decisions :: "management_decision list"

definition check_management_result :: "management_result \<Rightarrow> management_result result" where
  "check_management_result r =
     (if mr_signal_id r = [] \<or> mr_processed r < 0
      then Inl (DomainValidationError ''Management replay result is invalid'') else Inr r)"

subsection \<open>One decision\<close>

definition managed_track :: "lifecycle_signal \<Rightarrow> track_state option" where
  "managed_track s = List.find (\<lambda>t. ts_variant t = MANAGED) (ls_active_tracks s)"

definition management_key :: "management_policy \<Rightarrow> string \<Rightarrow> candle \<Rightarrow> string" where
  "management_key p sid c = ''management:'' @ sid @ '':'' @ iso_utc (open_time c) @ '':'' @ mp_strategy_version p"

definition cost_adjusted_break_even :: "lifecycle_signal \<Rightarrow> decimal result" where
  "cost_adjusted_break_even s =
     (case ls_fill_price s of
        None \<Rightarrow> Inl (DomainValidationError ''Break-even requires an activated trade'')
      | Some fill \<Rightarrow>
          let cost = dmul fill (ls_cost_rate s)
          in Inr (case ls_side s of LONG \<Rightarrow> dadd fill cost | SHORT \<Rightarrow> dsub fill cost))"

text \<open>
  The choice of \<^verbatim>\<open>_decide\<close>: the action, its reason, the new stop, and the fraction and the
  realised R left by a partial exit.
\<close>

definition decide_action ::
  "(decimal \<Rightarrow> string) \<Rightarrow> management_policy \<Rightarrow> lifecycle_signal \<Rightarrow> track_state \<Rightarrow> candle \<Rightarrow> decimal
    \<Rightarrow> (management_action \<times> string \<times> decimal option \<times> (decimal \<times> decimal) option) result" where
  "decide_action show_dec p s t c current_r =
     (if ls_activated_at s = Some (open_time c)
      then Inr (HOLD, ''No management is permitted on the activation candle.'', None, None)
      else if ts_current_stop t = ls_original_stop s \<and> mp_break_even_trigger_r p \<le> current_r
      then bind_result (cost_adjusted_break_even s) (\<lambda>stop.
             Inr (MOVE_STOP_TO_BREAK_EVEN,
                  ''Completed-candle profit reached '' @ show_dec (mp_break_even_trigger_r p)
                    @ ''R; the protected stop becomes effective only after this candle.'', Some stop, None))
      else case mp_partial_trigger_r p of
        Some trigger \<Rightarrow>
          if ts_remaining_fraction t = 1 \<and> trigger \<le> current_r
          then Inr (TAKE_PARTIAL_PROFIT,
                    ''Explicit experimental partial threshold '' @ show_dec trigger
                      @ ''R was reached on a completed candle.'', None,
                    Some (dsub 1 (mp_partial_fraction p), dadd (ts_realized_r t) (dmul (mp_partial_fraction p) current_r)))
          else Inr (HOLD, ''Original stop and target remain the evidence-free default.'', None, None)
      | None \<Rightarrow> Inr (HOLD, ''Original stop and target remain the evidence-free default.'', None, None))"

definition payload_option :: "decimal option \<Rightarrow> payload_value" where
  "payload_option d = (case d of None \<Rightarrow> PV_none | Some x \<Rightarrow> PV_decimal x)"

definition decide :: "(decimal \<Rightarrow> string) \<Rightarrow> management_policy \<Rightarrow> lifecycle_signal \<Rightarrow> track_state \<Rightarrow> candle \<Rightarrow> string
    \<Rightarrow> management_decision result" where
  "decide show_dec p s t c key =
     bind_result (result_r s (c_close c)) (\<lambda>current_r.
     let total_r = dadd (ts_realized_r t) (dmul (ts_remaining_fraction t) current_r) in
     bind_result (decide_action show_dec p s t c current_r) (\<lambda>(action, reason, stop, partial).
     let changes = (action \<noteq> HOLD);
         remaining_after = map_option fst partial;
         realized_after = map_option snd partial in
     check_management_decision
       \<lparr>md_signal_id = ls_signal_id s, md_decided_at = close_time c, md_action = action,
        md_current_price = c_close c, md_unrealized_r = total_r,
        md_unrealized_percent = dmul total_r (ls_risk_percent s), md_reason = reason,
        md_updated_stop = stop, md_changes_managed_result = changes,
        md_strategy_version = mp_strategy_version p,
        md_evidence =
          [(''candle_open'', PV_text (iso_utc (open_time c))), (''candle_close'', PV_text (iso_utc (close_time c))),
           (''closed_candle'', PV_bool True), (''effective_from_next_candle'', PV_bool changes),
           (''remaining_fraction_before'', PV_decimal (ts_remaining_fraction t)),
           (''current_stop_before'', PV_decimal (ts_current_stop t)),
           (''partial_enabled'', PV_bool (mp_partial_trigger_r p \<noteq> None)),
           (''remaining_fraction_after'', payload_option remaining_after),
           (''realized_r_after'', payload_option realized_after)],
        md_dedupe_key = key, md_remaining_fraction_after = remaining_after,
        md_realized_r_after = realized_after\<rparr>))"

subsection \<open>The replay\<close>

definition management_mark :: "string \<Rightarrow> string" where
  "management_mark sid = ''management:'' @ sid"

definition manage_mark_write :: "'s repository_port \<Rightarrow> management_policy \<Rightarrow> string \<Rightarrow> candle \<Rightarrow> ('s, unit) program" where
  "manage_mark_write port p sid c =
     rp_advance_checkpoint port (management_mark sid) (open_time c)
       [(''signal_id'', PV_text sid), (''source'', PV_text ''SPOT_1m''),
        (''strategy_version'', PV_text (mp_strategy_version p))]"

fun manage_candles ::
  "(decimal \<Rightarrow> string) \<Rightarrow> 's repository_port \<Rightarrow> management_policy \<Rightarrow> string \<Rightarrow> candle list \<Rightarrow> int \<Rightarrow> instant option
    \<Rightarrow> management_decision list \<Rightarrow> ('s, int \<times> instant option \<times> management_decision list) program" where
  "manage_candles show_dec port p sid [] processed checkpoint ds = return_p (processed, checkpoint, ds)"
| "manage_candles show_dec port p sid (c # cs) processed checkpoint ds =
     bind_p (rp_management_decision_exists port (management_key p sid c)) (\<lambda>known.
       if known then
         bind_p (manage_mark_write port p sid c) (\<lambda>_.
           manage_candles show_dec port p sid cs (processed + 1) (Some (open_time c)) ds)
       else
         bind_p (rp_get_lifecycle_signal port sid) (\<lambda>s.
           case managed_track s of
             None \<Rightarrow> return_p (processed, checkpoint, ds)
           | Some t \<Rightarrow>
               bind_p (query_p (\<lambda>_. decide show_dec p s t c (management_key p sid c))) (\<lambda>d.
               bind_p (rp_apply_management_decision port d) (\<lambda>_.
               bind_p (manage_mark_write port p sid c) (\<lambda>_.
                 manage_candles show_dec port p sid cs (processed + 1) (Some (open_time c)) (ds @ [d]))))))"

definition management_replay ::
  "(decimal \<Rightarrow> string) \<Rightarrow> 's repository_port \<Rightarrow> management_policy \<Rightarrow> string \<Rightarrow> candle_series \<Rightarrow> instant
    \<Rightarrow> ('s, management_result) program" where
  "management_replay show_dec port p sid series now =
     bind_p (query_p (\<lambda>_. validate_replay_series ''Management'' series now)) (\<lambda>_.
     bind_p (rp_get_lifecycle_signal port sid) (\<lambda>s.
     case (ls_activated_at s, managed_track s) of
       (Some activated, Some _) \<Rightarrow>
         bind_p (rp_get_checkpoint port (management_mark sid)) (\<lambda>checkpoint.
           let expected = (case checkpoint of Some t \<Rightarrow> t + usec_minute | None \<Rightarrow> activated);
               candidates = filter (\<lambda>c. expected \<le> open_time c) series
           in if candidates \<noteq> [] \<and> open_time (hd candidates) \<noteq> expected
              then raise_p (gap_error ''Management'' expected (open_time (hd candidates)))
              else
                bind_p (manage_candles show_dec port p sid candidates 0 checkpoint []) (\<lambda>(processed, mark, ds).
                  query_p (\<lambda>_. check_management_result
                    \<lparr>mr_signal_id = sid, mr_processed = processed, mr_checkpoint = mark, mr_decisions = ds\<rparr>)))
     | _ \<Rightarrow> raise_p (DomainValidationError ''Management replay requires an active managed track'')))"

subsection \<open>What a decision may change\<close>

text \<open>
  \<open>track_protects\<close> relates a track before and after: only the managed track changes, its stop
  moves at most once, from the original stop to the cost adjusted break-even, the fraction
  left never grows and the R already realised never shrinks.
\<close>

definition track_protects :: "lifecycle_signal \<Rightarrow> track_state \<Rightarrow> track_state \<Rightarrow> bool" where
  "track_protects s t u \<longleftrightarrow> ts_variant u = ts_variant t \<and> (ts_variant t = FIXED \<longrightarrow> u = t)
     \<and> (ts_current_stop u = ts_current_stop t
        \<or> ts_current_stop t = ls_original_stop s \<and> cost_adjusted_break_even s = Inr (ts_current_stop u))
     \<and> ts_remaining_fraction u \<le> ts_remaining_fraction t
     \<and> (dec28 (ts_realized_r t) \<longrightarrow> dec28 (ts_realized_r u) \<and> ts_realized_r t \<le> ts_realized_r u)"

definition protects :: "lifecycle_signal \<Rightarrow> lifecycle_signal \<Rightarrow> bool" where
  "protects x y \<longleftrightarrow> y = x\<lparr>ls_active_tracks := ls_active_tracks y\<rparr>
     \<and> list_all2 (track_protects x) (ls_active_tracks x) (ls_active_tracks y)"

definition policy_ok :: "management_policy \<Rightarrow> bool" where
  "policy_ok p \<longleftrightarrow> check_management_policy p = Inr p"

lemma policy_okD:
  assumes "policy_ok p"
  shows "1 \<le> mp_break_even_trigger_r p" "0 < mp_partial_fraction p" "mp_partial_fraction p < 1"
    "mp_partial_trigger_r p = Some q \<Longrightarrow> mp_break_even_trigger_r p \<le> q" "\<not> blank (mp_strategy_version p)"
  using assms by (auto simp: policy_ok_def check_management_policy_def split: if_splits)

lemma default_policy_ok: "policy_ok default_policy"
  by (simp add: policy_ok_def check_management_policy_def default_policy_def blank_def is_space_def)

lemma track_protects_refl: "track_protects s t t"
  by (simp add: track_protects_def)

lemma track_protects_trans: "track_protects s t u \<Longrightarrow> track_protects s u v \<Longrightarrow> track_protects s t v"
  by (auto simp: track_protects_def)

lemma tracks_only_fields:
  assumes "y = x\<lparr>ls_active_tracks := ts\<rparr>"
  shows "ls_signal_id y = ls_signal_id x" "ls_status y = ls_status x" "ls_side y = ls_side x"
    "ls_original_stop y = ls_original_stop x" "ls_fill_price y = ls_fill_price x" "ls_cost_rate y = ls_cost_rate x"
    "ls_activated_at y = ls_activated_at x" "ls_targets y = ls_targets x" "ls_risk_percent y = ls_risk_percent x"
    "ls_entry_low y = ls_entry_low x" "ls_entry_high y = ls_entry_high x"
  using assms by simp_all

lemma tracks_only_break_even: "y = x\<lparr>ls_active_tracks := ts\<rparr> \<Longrightarrow> cost_adjusted_break_even y = cost_adjusted_break_even x"
  by (simp only: cost_adjusted_break_even_def tracks_only_fields)

lemma tracks_only_protects: "y = x\<lparr>ls_active_tracks := ts\<rparr> \<Longrightarrow> track_protects y = track_protects x"
  by (intro ext) (simp only: track_protects_def tracks_only_break_even tracks_only_fields)

lemma protects_refl: "protects x x"
  by (simp add: protects_def list_all2_same track_protects_refl)

lemma protects_trans:
  assumes "protects x y" "protects y z"
  shows "protects x z"
proof -
  have y: "y = x\<lparr>ls_active_tracks := ls_active_tracks y\<rparr>" and z: "z = y\<lparr>ls_active_tracks := ls_active_tracks z\<rparr>"
    using assms by (auto simp: protects_def)
  have "z = x\<lparr>ls_active_tracks := ls_active_tracks z\<rparr>"
    by (rule trans [OF z], rule trans [OF arg_cong [OF y]]) simp
  moreover have "list_all2 (track_protects x) (ls_active_tracks x) (ls_active_tracks z)"
  proof (rule list_all2_trans [OF track_protects_trans])
    show "list_all2 (track_protects x) (ls_active_tracks x) (ls_active_tracks y)"
      using assms(1) by (simp add: protects_def)
    show "list_all2 (track_protects x) (ls_active_tracks y) (ls_active_tracks z)"
      using assms(2) unfolding protects_def tracks_only_protects [OF y] by blast
  qed
  ultimately show ?thesis by (simp add: protects_def)
qed

lemma managed_track_SomeD: "managed_track s = Some t \<Longrightarrow> t \<in> set (ls_active_tracks s) \<and> ts_variant t = MANAGED"
  unfolding managed_track_def by (rule find_SomeD)

text \<open>The break-even price lies beyond the fill on the winning side, so never at the original stop.\<close>

lemma break_even_side:
  assumes "risk_ok s fill" "dec28 fill" "cost_adjusted_break_even s = Inr p"
  shows "case ls_side s of LONG \<Rightarrow> fill \<le> p | SHORT \<Rightarrow> p \<le> fill" "p \<noteq> ls_original_stop s" "0 < p"
proof -
  define cost where "cost = dmul fill (ls_cost_rate s)"
  have f: "0 < fill" "ls_fill_price s = Some fill" "0 \<le> ls_cost_rate s" "ls_cost_rate s \<le> 1 / 100"
    using assms(1) by (auto simp: risk_ok_def)
  have c0: "0 \<le> cost" using f by (simp add: cost_def dmul_def dec.nonneg)
  define u where "u = fill * ls_cost_rate s"
  have u: "0 \<le> u" using f by (simp add: u_def)
  have "u \<le> fill * (1 / 100)" unfolding u_def using f by (intro mult_left_mono) auto
  moreover have "\<bar>cost - u\<bar> \<le> \<bar>u\<bar> * (5 / 10 ^ 28)" unfolding cost_def dmul_def u_def by (rule rnd28_error)
  then have "cost - u \<le> u * (5 / 10 ^ 28)" using u abs_le_D1 by (metis abs_of_nonneg)
  ultimately have "cost \<le> fill * (1 / 100) + fill * (1 / 100) * (5 / 10 ^ 28)" using u by (simp add: field_simps)
  then have c1: "cost < fill" using f by (simp add: field_simps)
  have p: "p = (case ls_side s of LONG \<Rightarrow> dadd fill cost | SHORT \<Rightarrow> dsub fill cost)"
    using assms(3) f(2) unfolding cost_adjusted_break_even_def cost_def by (simp add: Let_def)
  have e: "rnd28 fill = fill" using assms(2) by (rule rnd28_exact)
  show side: "case ls_side s of LONG \<Rightarrow> fill \<le> p | SHORT \<Rightarrow> p \<le> fill"
    using p c0 dec.lower [OF e, of "fill + cost"] dec.upper [OF e, of "fill - cost"]
    by (cases "ls_side s") (simp_all add: dadd_def dsub_def)
  show "p \<noteq> ls_original_stop s" using side assms(1) by (cases "ls_side s") (auto simp: risk_ok_def)
  show "0 < p" using p c0 c1 f by (cases "ls_side s") (auto simp: dadd_def dsub_def dec.pos)
qed

lemma decide_action_cases:
  assumes "decide_action show_dec p s t c r = Inr (action, reason, stop, partial)"
  obtains
    (hold) "action = HOLD" "stop = None" "partial = None"
  | (protect) b where "action = MOVE_STOP_TO_BREAK_EVEN" "stop = Some b" "partial = None"
      "ls_activated_at s \<noteq> Some (open_time c)" "ts_current_stop t = ls_original_stop s"
      "mp_break_even_trigger_r p \<le> r" "cost_adjusted_break_even s = Inr b"
  | (partial) q where "action = TAKE_PARTIAL_PROFIT" "stop = None" "mp_partial_trigger_r p = Some q"
      "ls_activated_at s \<noteq> Some (open_time c)"
      "partial = Some (dsub 1 (mp_partial_fraction p), dadd (ts_realized_r t) (dmul (mp_partial_fraction p) r))"
      "ts_remaining_fraction t = 1" "q \<le> r"
      "ts_current_stop t = ls_original_stop s \<longrightarrow> r < mp_break_even_trigger_r p"
  using assms by (auto simp: decide_action_def bind_result_eq_Inr split: if_splits option.splits)

lemma decide_cases:
  assumes "decide show_dec p s t c key = Inr d"
  obtains r action reason stop partial where "result_r s (c_close c) = Inr r"
    "decide_action show_dec p s t c r = Inr (action, reason, stop, partial)"
    "check_management_decision d = Inr d" "md_signal_id d = ls_signal_id s" "md_dedupe_key d = key"
    "md_action d = action" "md_updated_stop d = stop" "md_changes_managed_result d = (action \<noteq> HOLD)"
    "md_remaining_fraction_after d = map_option fst partial" "md_realized_r_after d = map_option snd partial"
proof -
  obtain r action reason stop partial where r: "result_r s (c_close c) = Inr r"
    "decide_action show_dec p s t c r = Inr (action, reason, stop, partial)"
    using assms by (auto simp: decide_def bind_result_eq_Inr Let_def)
  show thesis
  proof (rule that [OF r])
    show "check_management_decision d = Inr d"
      using assms check_management_decision_Inr by (auto simp: decide_def r Let_def)
  qed (use assms check_management_decision_Inr in \<open>fastforce simp: decide_def r Let_def\<close>)+
qed

text \<open>Decisions protect, and keep the signal one the lifecycle engine can close.\<close>

lemma decided_only_tracks: "decided_signal d x = x\<lparr>ls_active_tracks := map (decided_state d) (ls_active_tracks x)\<rparr>"
  by (simp add: decided_signal_def)

lemma decided_variant [simp]: "ts_variant (decided_state d t) = ts_variant t"
  by (simp add: decided_state_def)

lemma decided_hold: "\<not> md_changes_managed_result d \<Longrightarrow> decided_signal d x = x"
proof -
  assume "\<not> md_changes_managed_result d"
  then have "decided_state d = id" by (auto simp: decided_state_def fun_eq_iff)
  then show "decided_signal d x = x" by (simp add: decided_signal_def)
qed

lemma decided_state_protects:
  assumes "policy_ok p" "engine_signal x" "ls_fill_price x = Some fill" "dec28 fill"
    and t: "t \<in> set (ls_active_tracks x)" "ts_variant t = MANAGED"
    and d: "decide show_dec p x t c key = Inr d"
  shows "track_protects x t (decided_state d t) \<and> track_sane x (decided_state d t)
    \<and> 0 < ts_current_stop (decided_state d t) \<and> 0 < ts_remaining_fraction (decided_state d t) \<and> ts_remaining_fraction (decided_state d t) \<le> 1"
proof -
  note pol = policy_okD [OF assms(1)]
  have risk: "risk_ok x fill" by (rule engine_risk [OF assms(2,3)])
  have sane: "track_sane x t" "0 < ts_current_stop t" "0 < ts_remaining_fraction t" "ts_remaining_fraction t \<le> 1" "0 \<le> ts_realized_r t"
    using assms(2) t(1) by (auto simp: engine_signal_def signal_shape_def track_sane_def)
  obtain r action reason stop partial where r: "result_r x (c_close c) = Inr r"
    "decide_action show_dec p x t c r = Inr (action, reason, stop, partial)"
    and ds: "md_updated_stop d = stop" "md_changes_managed_result d = (action \<noteq> HOLD)"
    "md_remaining_fraction_after d = map_option fst partial" "md_realized_r_after d = map_option snd partial"
    by (rule decide_cases [OF d]) blast
  from r(2) show ?thesis
  proof (cases rule: decide_action_cases)
    case hold
    then show ?thesis using sane by (simp add: decided_state_def ds track_protects_refl)
  next
    case (protect b)
    then have "decided_state d t = t\<lparr>ts_current_stop := b\<rparr>" by (simp add: decided_state_def ds t(2) value_or_def)
    then show ?thesis
      using protect sane break_even_side(2,3) [OF risk assms(4) protect(7)]
      by (auto simp: track_protects_def track_sane_def t(2))
  next
    case (partial q)
    define f where "f = mp_partial_fraction p"
    have q: "1 \<le> r" using pol partial by force
    have u: "decided_state d t = t\<lparr>ts_remaining_fraction := dsub 1 f, ts_realized_r := dadd (ts_realized_r t) (dmul f r)\<rparr>"
      using partial by (simp add: decided_state_def ds t(2) value_or_def f_def)
    have f: "0 < f" "f < 1" using pol by (simp_all add: f_def)
    have one: "rnd28 1 = 1" by (simp add: dec_eval)
    have left: "0 < dsub 1 f" "dsub 1 f \<le> 1" using f dec.upper [OF one, of "1 - f"] by (simp_all add: dsub_def dec.pos)
    have gain: "0 < dmul f r" using f q by (simp add: dmul_def dec.pos)
    have "ts_current_stop t \<noteq> ls_original_stop x" using partial pol(4) by fastforce
    moreover have "ts_realized_r t \<le> dadd (ts_realized_r t) (dmul f r)" if "dec28 (ts_realized_r t)"
      unfolding dadd_def by (rule dec.lower [OF rnd28_exact [OF that]]) (use gain in simp)
    moreover have "0 \<le> dadd (ts_realized_r t) (dmul f r)" using gain sane(5) by (simp add: dadd_def dec.nonneg)
    ultimately show ?thesis
      using sane left partial(6) by (simp add: u track_protects_def track_sane_def t(2) dadd_def dec28_rnd28)
  qed
qed

lemma decide_effect:
  assumes "policy_ok p" "engine_signal x" "dec28 (ls_conservative_entry x)" "managed_track x = Some t"
    and d: "decide show_dec p x t c key = Inr d"
  shows "check_management_decision d = Inr d" "md_signal_id d = ls_signal_id x" "md_dedupe_key d = key"
    "protects x (decided_signal d x)" "engine_signal (decided_signal d x)"
proof -
  show "check_management_decision d = Inr d" "md_signal_id d = ls_signal_id x" "md_dedupe_key d = key"
    using d by (rule decide_cases, simp)+
  note t = managed_track_SomeD [OF assms(4)]
  have shape: "signal_shape x" using assms(2) by (simp add: engine_signal_def)
  obtain fill where fill: "ls_fill_price x = Some fill"
  proof -
    have "ls_active_tracks x \<noteq> []" using t by auto
    then show thesis using shape that by (cases "ls_status x") (auto simp: signal_shape_def tracks_fit_def)
  qed
  have "fill = ls_conservative_entry x" using assms(2) fill by (simp add: engine_signal_def)
  then have ex: "dec28 fill" using assms(3) by simp
  have uniq: "u = t" if "u \<in> set (ls_active_tracks x)" "ts_variant u = MANAGED" for u
  proof -
    have "distinct (map ts_variant (ls_active_tracks x))"
      using shape by (simp add: signal_shape_def strict_sorted_iff active_variants_def)
    then show ?thesis using that t by (metis distinct_map inj_onD)
  qed
  have one: "track_protects x u (decided_state d u) \<and> track_sane x (decided_state d u)
    \<and> 0 < ts_current_stop (decided_state d u) \<and> 0 < ts_remaining_fraction (decided_state d u) \<and> ts_remaining_fraction (decided_state d u) \<le> 1"
    if u: "u \<in> set (ls_active_tracks x)" for u
  proof (cases "ts_variant u = MANAGED")
    case True
    then show ?thesis
      using uniq [OF u] decided_state_protects [OF assms(1,2) fill ex _ _ d] t by simp
  next
    case False
    then show ?thesis using u assms(2)
      by (auto simp: decided_state_def track_protects_refl engine_signal_def signal_shape_def)
  qed
  show "protects x (decided_signal d x)"
    using one by (auto simp: protects_def decided_signal_def list_all2_map2 list_all2_same)
  have s: "ls_original_stop (decided_signal d x) = ls_original_stop x" by (simp add: decided_signal_def)
  have "terms_of (decided_signal d x) = terms_of x" "tracks_fit (decided_signal d x) = tracks_fit x"
    "active_variants (decided_signal d x) = active_variants x"
    by (auto simp: decided_signal_def terms_of_def tracks_fit_def active_variants_def o_def split: signal_status.splits)
  then have "signal_shape (decided_signal d x)"
    using shape one by (auto simp: signal_shape_def decided_signal_def)
  moreover have "track_sane (decided_signal d x) u = track_sane x u" for u by (simp add: track_sane_def s)
  moreover have "ls_conservative_entry (decided_signal d x) = ls_conservative_entry x" "ls_fill_price (decided_signal d x) = ls_fill_price x"
    by (cases "ls_side x"; simp add: decided_signal_def ls_conservative_entry_def)+
  ultimately show "engine_signal (decided_signal d x)"
    using assms(2) one by (auto simp: engine_signal_def decided_signal_def)
qed

subsection \<open>The replay over a store with decisions\<close>

locale decision_store = signal_store port good signal_at mark_at outcome_at
  for port :: "'s repository_port" and good and signal_at and mark_at and outcome_at +
  fixes decided_at :: "'s \<Rightarrow> string \<Rightarrow> bool"
  assumes read_decided: "rp_management_decision_exists port key s = (Inr (decided_at s key), s)"
    and apply_decided: "good s \<Longrightarrow> rp_apply_management_decision port d s = (Inr (), s') \<Longrightarrow>
      \<not> decided_at s (md_dedupe_key d) \<and> decided_at s' = (decided_at s)(md_dedupe_key d := True)"
    and mark_decided: "rp_advance_checkpoint port key t body s = (Inr (), s') \<Longrightarrow> decided_at s' = decided_at s"
begin

lemma manage_mark_run:
  assumes "good s" "manage_mark_write port p sid c s = (Inr (), s')"
  shows "good s' \<and> signal_at s' = signal_at s \<and> outcome_at s' = outcome_at s \<and> decided_at s' = decided_at s
    \<and> mark_at s' = (mark_at s)(management_mark sid := moved_mark (mark_at s (management_mark sid)) (c\<lparr>open_time := whole_seconds (open_time c)\<rparr>))"
  using mark_done [OF assms(1) assms(2) [unfolded manage_mark_write_def]] mark_decided [OF assms(2) [unfolded manage_mark_write_def]]
  by (auto simp: moved_mark_def fun_upd_def split: option.splits)

text \<open>
  The candles that were applied are the first \<open>n\<close> of the window: every one has its decision, and
  only the ones that had none got a new one, in order.
\<close>

definition new_decisions :: "management_policy \<Rightarrow> string \<Rightarrow> candle list \<Rightarrow> 's \<Rightarrow> string list" where
  "new_decisions p sid cs s = filter (\<lambda>key. \<not> decided_at s key) (map (management_key p sid) cs)"

lemma manage_run:
  assumes "good s" "signal_at s sid = Inr x" "engine_signal x" "dec28 (ls_conservative_entry x)" "policy_ok p"
    and "distinct (map (management_key p sid) cs)"
    and "manage_candles show_dec port p sid cs n m ds s = (Inr (n', m', ds'), s')"
  shows "\<exists>y k. good s' \<and> signal_at s' sid = Inr y \<and> protects x y \<and> engine_signal y \<and> outcome_at s' = outcome_at s
    \<and> k \<le> length cs \<and> n' = n + int k
    \<and> map md_dedupe_key ds' = map md_dedupe_key ds @ new_decisions p sid (take k cs) s
    \<and> (\<forall>key. decided_at s' key = (decided_at s key \<or> key \<in> management_key p sid ` set (take k cs)))
    \<and> (k < length cs \<longrightarrow> managed_track y = None \<and> \<not> decided_at s' (management_key p sid (cs ! k)))"
  using assms
proof (induction cs arbitrary: s x n m ds)
  case Nil
  then show ?case using protects_refl by (intro exI [of _ x] exI [of _ 0]) (auto simp: new_decisions_def)
next
  case (Cons c cs)
  let ?key = "management_key p sid c"
  have fresh: "?key \<notin> management_key p sid ` set cs" and dist: "distinct (map (management_key p sid) cs)"
    using Cons.prems(6) by auto
  have keep: "new_decisions p sid (take k cs) s2 = new_decisions p sid (take k cs) s"
    if "\<And>key. decided_at s2 key = (decided_at s key \<or> key = ?key)" for s2 k
    unfolding new_decisions_def by (rule filter_cong [OF refl]) (use fresh that set_take_subset in \<open>fastforce simp: image_iff\<close>)
  show ?case
  proof (cases "decided_at s ?key")
    case True
    obtain s1 where s1: "manage_mark_write port p sid c s = (Inr (), s1)"
      "manage_candles show_dec port p sid cs (n + 1) (Some (open_time c)) ds s1 = (Inr (n', m', ds'), s')"
      using Cons.prems(7) True by (auto simp: bind_p_def read_decided split: sum.splits prod.splits)
    note mk = manage_mark_run [OF Cons.prems(1) s1(1)]
    obtain y k where IH: "good s'" "signal_at s' sid = Inr y" "protects x y" "engine_signal y" "outcome_at s' = outcome_at s1"
      "k \<le> length cs" "n' = n + 1 + int k" "map md_dedupe_key ds' = map md_dedupe_key ds @ new_decisions p sid (take k cs) s1"
      "\<And>key. decided_at s' key = (decided_at s1 key \<or> key \<in> management_key p sid ` set (take k cs))"
      "k < length cs \<longrightarrow> managed_track y = None \<and> \<not> decided_at s' (management_key p sid (cs ! k))"
      using Cons.IH [OF _ _ Cons.prems(3-5) dist s1(2)] mk Cons.prems(2) by auto
    have "new_decisions p sid (take (Suc k) (c # cs)) s = new_decisions p sid (take k cs) s1"
      using keep [of s1] mk True by (auto simp: new_decisions_def)
    then show ?thesis using IH mk True by (intro exI [of _ y] exI [of _ "Suc k"]) auto
  next
    case False
    show ?thesis
    proof (cases "managed_track x")
      case None
      then have "n' = n" "ds' = ds" "s' = s"
        using Cons.prems(2,7) False by (simp_all add: bind_p_def read_decided read_signal)
      then show ?thesis using Cons.prems(1-3) None False protects_refl
        by (intro exI [of _ x] exI [of _ 0]) (simp add: new_decisions_def)
    next
      case (Some t)
      obtain d s1 s2 where d: "decide show_dec p x t c ?key = Inr d" "rp_apply_management_decision port d s = (Inr (), s1)"
        "manage_mark_write port p sid c s1 = (Inr (), s2)"
        "manage_candles show_dec port p sid cs (n + 1) (Some (open_time c)) (ds @ [d]) s2 = (Inr (n', m', ds'), s')"
        using Cons.prems(2,7) False Some by (auto simp: bind_p_def read_decided read_signal split: sum.splits prod.splits)
      note e = decide_effect [OF Cons.prems(5,3,4) Some d(1)]
      have id: "ls_signal_id x = sid" using shape [OF Cons.prems(1,2)] by simp
      have ap: "good s1" "signal_at s1 sid = Inr (decided_signal d x)" "outcome_at s1 = outcome_at s"
        using decide_done [OF Cons.prems(1) _ e(1) d(2), of x] Cons.prems(2) e(2) id by auto
      have dk: "decided_at s1 = (decided_at s)(?key := True)" using apply_decided [OF Cons.prems(1) d(2)] e(3) by simp
      note mk = manage_mark_run [OF ap(1) d(3)]
      have en: "dec28 (ls_conservative_entry (decided_signal d x))"
        using Cons.prems(4) by (cases "ls_side x") (simp_all add: decided_signal_def ls_conservative_entry_def)
      obtain y k where IH: "good s'" "signal_at s' sid = Inr y" "protects (decided_signal d x) y" "engine_signal y" "outcome_at s' = outcome_at s2"
        "k \<le> length cs" "n' = n + 1 + int k" "map md_dedupe_key ds' = map md_dedupe_key (ds @ [d]) @ new_decisions p sid (take k cs) s2"
        "\<And>key. decided_at s' key = (decided_at s2 key \<or> key \<in> management_key p sid ` set (take k cs))"
        "k < length cs \<longrightarrow> managed_track y = None \<and> \<not> decided_at s' (management_key p sid (cs ! k))"
        using Cons.IH [OF _ _ e(5) en Cons.prems(5) dist d(4)] mk ap(2) by auto
      have "new_decisions p sid (take (Suc k) (c # cs)) s = ?key # new_decisions p sid (take k cs) s2"
      proof -
        have kk: "new_decisions p sid (take k cs) s2 = new_decisions p sid (take k cs) s" by (rule keep) (use mk dk in auto)
        show ?thesis unfolding kk using False by (simp add: new_decisions_def)
      qed
      then show ?thesis using IH mk dk ap e(3) protects_trans [OF e(4) IH(3)]
        by (intro exI [of _ y] exI [of _ "Suc k"]) auto
    qed
  qed
qed

end

text \<open>The SQLite repository is such a store.\<close>

lemma decisions_frame:
  assumes "apply_management_decision d db = Inr db'"
  shows "\<not> management_decision_exists db (md_dedupe_key d)
    \<and> management_decision_exists db' = (management_decision_exists db)(md_dedupe_key d := True)"
proof -
  obtain track db1 db2 where s: "insert_decision db1 (decision_row_of d) = Inr db2" "insert_event db2 (decision_event d) = Inr db'"
    and u: "(if md_changes_managed_result d
      then update_tracks db (track_matches (md_signal_id d) MANAGED track) (decided_fields d track) else (1, db)) = (1, db1)"
    by (rule decision_steps [OF assms]) blast
  have "decisions db1 = decisions db" using u by (auto simp: update_tracks_def split: if_splits)
  moreover have "decisions db' = decisions db2" using s(2) by (auto simp: insert_event_def split: if_splits)
  ultimately show ?thesis
    using s(1) by (auto simp: insert_decision_def management_decision_exists_def list_ex_iff decision_row_of_def fun_eq_iff split: if_splits)
qed

lemma mark_keeps_decisions: "advance_checkpoint key t body db = Inr db' \<Longrightarrow> management_decision_exists db' = management_decision_exists db"
  by (auto simp: advance_checkpoint_def management_decision_exists_def fun_eq_iff Let_def split: if_splits)

interpretation sqlite_decisions: decision_store sqlite_port db_ok get_lifecycle_signal get_checkpoint outcome_view management_decision_exists
  by unfold_locales (use decisions_frame mark_keeps_decisions in \<open>simp_all add: transact_p_eq_Inr\<close>)

subsection \<open>Properties\<close>

definition management_window :: "instant option \<Rightarrow> lifecycle_signal \<Rightarrow> candle_series \<Rightarrow> candle list" where
  "management_window m x series =
     filter (\<lambda>c. (case m of Some t \<Rightarrow> t + usec_minute | None \<Rightarrow> value_or 0 (ls_activated_at x)) \<le> open_time c) series"

lemma management_key_inj:
  assumes "management_key p sid c = management_key p sid d" "minute_ok c" "minute_ok d" "years_ok c" "years_ok d"
  shows "open_time c = open_time d"
proof -
  have "length (iso_utc (open_time c)) = length (iso_utc (open_time d))"
    using assms(4,5) by (simp add: years_ok_def length_iso_utc)
  then have "iso_utc (open_time c) = iso_utc (open_time d)" using assms(1) by (simp add: management_key_def)
  then have "whole_seconds (open_time c) = whole_seconds (open_time d)"
    by (rule iso_utc_inj) (use assms(4,5) in \<open>auto simp: years_ok_def\<close>)
  then show ?thesis using minute_whole assms(2,3) by simp
qed

lemma management_window_keys:
  assumes "series_ok series" "series_interval series = ONE_MINUTE" "list_all years_ok series"
  shows "distinct (map (management_key p sid) (management_window m x series))"
proof -
  let ?w = "management_window m x series"
  have ok: "minute_ok c \<and> years_ok c" if "c \<in> set ?w" for c
    using series_minutes [OF assms(1,2)] assms(3) that by (auto simp: management_window_def list_all_iff)
  have "sorted_wrt (\<lambda>a b. open_time a < open_time b) ?w"
    using assms(1) by (auto simp: management_window_def series_ok_def intro!: sorted_wrt_filter series_open_distinct)
  then have s: "sorted_wrt (<) (map open_time ?w)" by (simp add: sorted_wrt_map)
  then have d: "distinct ?w" "inj_on open_time (set ?w)" by (simp_all add: strict_sorted_iff distinct_map)
  have "inj_on (management_key p sid) (set ?w)"
    using management_key_inj ok d(2) by (intro inj_onI) (metis inj_onD)
  then show ?thesis using d(1) by (simp add: distinct_map)
qed

lemma protects_managed: "protects x y \<Longrightarrow> managed_track x \<noteq> None \<Longrightarrow> managed_track y \<noteq> None"
  by (auto simp: managed_track_def protects_def find_None_iff list_all2_conv_all_nth track_protects_def in_set_conv_nth)

lemma management_replay_run:
  assumes "db_ok db" "get_lifecycle_signal db sid = Inr x" "engine_signal x" "dec28 (ls_conservative_entry x)"
    and "policy_ok p" "series_ok series" "list_all years_ok series"
    and run: "management_replay show_dec sqlite_port p sid series now db = (Inr res, db')"
  defines "w \<equiv> management_window (get_checkpoint db (management_mark sid)) x series"
  shows "\<exists>y. get_lifecycle_signal db' sid = Inr y \<and> protects x y \<and> engine_signal y \<and> outcome_view db' = outcome_view db
    \<and> mr_processed res = int (length w)
    \<and> map md_dedupe_key (mr_decisions res) = filter (\<lambda>key. \<not> management_decision_exists db key) (map (management_key p sid) w)
    \<and> (\<forall>key. management_decision_exists db' key = (management_decision_exists db key \<or> key \<in> management_key p sid ` set w))"
proof -
  let ?m = "get_checkpoint db (management_mark sid)"
  have v: "validate_replay_series ''Management'' series now = Inr ()"
    using run by (auto simp: management_replay_def bind_p_def split: sum.splits)
  then have iv: "series_interval series = ONE_MINUTE" by (auto simp: validate_replay_series_def split: if_splits)
  obtain activated t where t: "ls_activated_at x = Some activated" "managed_track x = Some t"
    using run v assms(2) by (auto simp: management_replay_def bind_p_def split: sum.splits option.splits)
  obtain n m' ds db1 where r: "manage_candles show_dec sqlite_port p sid w 0 ?m [] db = (Inr (n, m', ds), db1)"
    "check_management_result \<lparr>mr_signal_id = sid, mr_processed = n, mr_checkpoint = m', mr_decisions = ds\<rparr> = Inr res" "db1 = db'"
    using run v assms(2) t
    by (auto simp: management_replay_def bind_p_def w_def management_window_def value_or_def Let_def split: sum.splits option.splits if_splits prod.splits)
  have res: "mr_processed res = n" "mr_decisions res = ds" using r(2) by (auto simp: check_management_result_def split: if_splits)
  obtain y k where y: "db_ok db1" "get_lifecycle_signal db1 sid = Inr y" "protects x y" "engine_signal y"
    "outcome_view db1 = outcome_view db" "k \<le> length w" "n = 0 + int k"
    "map md_dedupe_key ds = sqlite_decisions.new_decisions p sid (take k w) db"
    "\<forall>key. management_decision_exists db1 key = (management_decision_exists db key \<or> key \<in> management_key p sid ` set (take k w))"
    "k < length w \<longrightarrow> managed_track y = None \<and> \<not> management_decision_exists db1 (management_key p sid (w ! k))"
    using sqlite_decisions.manage_run [OF assms(1-5) management_window_keys [OF assms(6) iv assms(7)] r(1) [unfolded w_def], folded w_def, unfolded list.map append_Nil]
    by blast
  have "k = length w" using y(6,10) protects_managed [OF y(3)] t(2) by fastforce
  then show ?thesis using y r(3) res by (intro exI [of _ y]) (simp add: sqlite_decisions.new_decisions_def)
qed

text \<open>
  C26: management only protects.  A management replay leaves the fixed track, the fill, the
  targets and every outcome alone; the stop of the managed track keeps its value or moves from
  the original stop to the cost adjusted break-even price, never to the losing side; the
  fraction left does not grow and the realised R does not shrink; and the signal stays one
  whose tracks the lifecycle replay can close.
\<close>

theorem management_protects:
  assumes "repo_reachable db" "get_lifecycle_signal db sid = Inr x" "engine_signal x" "dec28 (ls_conservative_entry x)"
    and "policy_ok p" "series_ok series" "list_all years_ok series"
    and "management_replay show_dec sqlite_port p sid series now db = (Inr res, db')"
  shows "\<exists>y. get_lifecycle_signal db' sid = Inr y \<and> engine_signal y \<and> y = x\<lparr>ls_active_tracks := ls_active_tracks y\<rparr>
    \<and> (\<forall>v. find_outcome db' sid v = find_outcome db sid v)
    \<and> list_all2 (\<lambda>t u. ts_variant u = ts_variant t \<and> (ts_variant t = FIXED \<longrightarrow> u = t)
        \<and> (ts_current_stop u = ts_current_stop t
           \<or> ts_current_stop t = ls_original_stop x \<and> cost_adjusted_break_even x = Inr (ts_current_stop u))
        \<and> (case ls_side x of LONG \<Rightarrow> ts_current_stop t \<le> ts_current_stop u | SHORT \<Rightarrow> ts_current_stop u \<le> ts_current_stop t)
        \<and> ts_remaining_fraction u \<le> ts_remaining_fraction t
        \<and> (dec28 (ts_realized_r t) \<longrightarrow> ts_realized_r t \<le> ts_realized_r u)) (ls_active_tracks x) (ls_active_tracks y)"
proof -
  obtain y where y: "get_lifecycle_signal db' sid = Inr y" "protects x y" "engine_signal y" "outcome_view db' = outcome_view db"
    using management_replay_run [OF reachable_ok [OF assms(1)] assms(2-8)] by blast
  have better: "case ls_side x of LONG \<Rightarrow> ts_current_stop t \<le> ts_current_stop u | SHORT \<Rightarrow> ts_current_stop u \<le> ts_current_stop t"
    if p: "track_protects x t u" for t u
  proof (cases "ts_current_stop u = ts_current_stop t")
    case False
    then have b: "ts_current_stop t = ls_original_stop x" "cost_adjusted_break_even x = Inr (ts_current_stop u)"
      using p by (auto simp: track_protects_def)
    obtain fill where fill: "ls_fill_price x = Some fill"
      using b(2) by (auto simp: cost_adjusted_break_even_def split: option.splits)
    have "dec28 fill" using assms(3,4) fill by (simp add: engine_signal_def)
    then show ?thesis
      using break_even_side(1) [OF engine_risk [OF assms(3) fill] _ b(2)] engine_risk [OF assms(3) fill] b(1)
      by (cases "ls_side x") (auto simp: risk_ok_def)
  qed (cases "ls_side x"; simp)
  have "find_outcome db' sid v = find_outcome db sid v" for v using fun_cong [OF y(4), of "(sid, v)"] by (simp add: outcome_view_def)
  moreover note y(1,3)
  moreover have "y = x\<lparr>ls_active_tracks := ls_active_tracks y\<rparr>" "list_all2 (track_protects x) (ls_active_tracks x) (ls_active_tracks y)"
    using y(2) by (auto simp: protects_def)
  ultimately show ?thesis
    using better by (intro exI [of _ y]) (auto simp: track_protects_def elim!: list_all2_mono)
qed

subsection \<open>A management replay returns\<close>

lemma decide_total:
  assumes "policy_ok p" "engine_signal x" "dec28 (ls_conservative_entry x)" "managed_track x = Some t"
    and "0 < c_close c" "ls_signal_id x \<noteq> []"
  shows "\<exists>d. decide show_dec p x t c (management_key p sid c) = Inr d"
proof -
  note tm = managed_track_SomeD [OF assms(4)]
  have shape: "signal_shape x" using assms(2) by (simp add: engine_signal_def)
  obtain fill where fill: "ls_fill_price x = Some fill"
  proof -
    have "ls_active_tracks x \<noteq> []" using tm by auto
    then show thesis using shape that by (cases "ls_status x") (auto simp: signal_shape_def tracks_fit_def)
  qed
  have ex: "dec28 fill" using assms(2,3) fill by (simp add: engine_signal_def)
  obtain r where r: "result_r x (c_close c) = Inr r" by (rule result_r_total [OF assms(2) fill])
  obtain b where b: "cost_adjusted_break_even x = Inr b" by (simp add: cost_adjusted_break_even_def fill Let_def)
  have pos: "0 < b" by (rule break_even_side(3) [OF engine_risk [OF assms(2) fill] ex b])
  note pol = policy_okD [OF assms(1)]
  have nb: "\<not> blank (management_key p sid c)" by (simp add: management_key_def blank_def is_space_def)
  have one: "rnd28 1 = 1" by (simp add: dec_eval)
  have fr: "0 < dsub 1 (mp_partial_fraction p)" "dsub 1 (mp_partial_fraction p) \<le> 1"
    using pol dec.upper [OF one, of "1 - mp_partial_fraction p"] by (simp_all add: dsub_def dec.pos)
  obtain action reason stop partial where a: "decide_action show_dec p x t c r = Inr (action, reason, stop, partial)"
  proof -
    have "is_ok (decide_action show_dec p x t c r)" by (simp add: decide_action_def b split: option.split)
    then show thesis using that by (auto simp: is_ok_iff)
  qed
  have reason: "\<not> blank reason"
    using a by (auto simp: decide_action_def b blank_def is_space_def split: if_splits option.splits)
  from a show ?thesis
  proof (cases rule: decide_action_cases)
    case hold
    then show ?thesis using reason pol(5) nb assms(5,6)
      by (simp add: decide_def r a Let_def check_management_decision_def)
  next
    case (protect v)
    then have "v = b" using b by simp
    then show ?thesis using protect reason pol(5) nb assms(5,6) pos
      by (simp add: decide_def r a Let_def check_management_decision_def)
  next
    case (partial q)
    then show ?thesis using reason pol(5) nb assms(5,6) fr
      by (simp add: decide_def r a Let_def check_management_decision_def)
  qed
qed

definition decision_fresh :: "database \<Rightarrow> management_policy \<Rightarrow> string \<Rightarrow> candle \<Rightarrow> bool" where
  "decision_fresh db p sid c \<longleftrightarrow> management_decision_exists db (management_key p sid c)
     \<or> management_key p sid c @ '':event'' \<notin> e_dedupe_key ` set (events db)"

lemma mark_write_total:
  obtains db' where "manage_mark_write sqlite_port p sid c db = (Inr (), db')" "events db' = events db"
proof -
  have "\<not> blank (management_mark sid)" by (simp add: management_mark_def blank_def is_space_def)
  then obtain db' where a: "advance_checkpoint (management_mark sid) (open_time c)
      [(''signal_id'', PV_text sid), (''source'', PV_text ''SPOT_1m''), (''strategy_version'', PV_text (mp_strategy_version p))] db = Inr db'"
    using marks.move_total by blast
  then have "events db' = events db" by (auto simp: advance_checkpoint_def Let_def split: if_splits)
  then show thesis using that a by (auto simp: manage_mark_write_def transact_p_eq_Inr)
qed

lemma manage_candles_total:
  assumes "db_ok db" "get_lifecycle_signal db sid = Inr x" "engine_signal x" "dec28 (ls_conservative_entry x)" "policy_ok p"
    and "managed_track x \<noteq> None" "distinct (map (management_key p sid) cs)" "\<forall>c \<in> set cs. 0 < c_close c \<and> decision_fresh db p sid c"
  shows "\<exists>u db'. manage_candles show_dec sqlite_port p sid cs n m ds db = (Inr u, db')"
  using assms
proof (induction cs arbitrary: db x n m ds)
  case (Cons c cs)
  let ?key = "management_key p sid c"
  have ne: "ls_signal_id x \<noteq> []" using read_signal_id [OF Cons.prems(2)] .
  have id: "ls_signal_id x = sid" using sqlite_shape [OF Cons.prems(1,2)] by simp
  have dist: "distinct (map (management_key p sid) cs)" "?key \<notin> management_key p sid ` set cs" using Cons.prems(7) by auto
  show ?case
  proof (cases "management_decision_exists db ?key")
    case True
    obtain db1 where w: "manage_mark_write sqlite_port p sid c db = (Inr (), db1)" "events db1 = events db" by (rule mark_write_total)
    note mk = sqlite_decisions.manage_mark_run [OF Cons.prems(1) w(1)]
    have "\<forall>d \<in> set cs. 0 < c_close d \<and> decision_fresh db1 p sid d"
      using Cons.prems(8) mk w(2) by (auto simp: decision_fresh_def)
    then show ?thesis
      using Cons.IH [OF _ _ Cons.prems(3-6) dist(1), of db1 "n + 1" "Some (open_time c)" ds] mk Cons.prems(2) w(1) True
      by (simp add: bind_p_def)
  next
    case False
    obtain t where t: "managed_track x = Some t" using Cons.prems(6) by auto
    obtain d where d: "decide show_dec p x t c ?key = Inr d"
      using decide_total [OF Cons.prems(5,3,4) t _ ne] Cons.prems(8) by fastforce
    note e = decide_effect [OF Cons.prems(5,3,4) t d]
    have "MANAGED \<in> set (active_variants x)" using managed_track_SomeD [OF t] by (force simp: active_variants_def)
    then obtain k where k: "find_track db sid MANAGED = Some k" "k_status k = Track_ACTIVE"
      by (rule active_variant_track [OF Cons.prems(1,2)])
    have "?key @ '':event'' \<notin> e_dedupe_key ` set (events db)" using Cons.prems(8) False by (simp add: decision_fresh_def)
    then obtain db1 where a: "apply_management_decision d db = Inr db1"
      using decision_succeeds [OF Cons.prems(1), of d k] k False e(2,3) id by auto
    have dec: "get_lifecycle_signal db1 sid = Inr (decided_signal d x)" "db_ok db1"
      using view_decide [OF Cons.prems(1) _ e(1) a, of x] Cons.prems(2) e(2) id by auto
    have ev: "e_dedupe_key ` set (events db1) = insert (?key @ '':event'') (e_dedupe_key ` set (events db))"
    proof -
      obtain track db2 db3 where s: "insert_decision db2 (decision_row_of d) = Inr db3" "insert_event db3 (decision_event d) = Inr db1"
        and u: "(if md_changes_managed_result d
          then update_tracks db (track_matches (md_signal_id d) MANAGED track) (decided_fields d track) else (1, db)) = (1, db2)"
        by (rule decision_steps [OF a]) blast
      have "events db2 = events db" using u by (auto simp: update_tracks_def split: if_splits)
      then show ?thesis using s e(3)
        by (auto simp: insert_decision_def insert_event_def decision_event_def new_event_def split: if_splits)
    qed
    obtain db2 where w: "manage_mark_write sqlite_port p sid c db1 = (Inr (), db2)" "events db2 = events db1" by (rule mark_write_total)
    note mk = sqlite_decisions.manage_mark_run [OF dec(2) w(1)]
    have fr: "\<forall>c' \<in> set cs. 0 < c_close c' \<and> decision_fresh db2 p sid c'"
    proof
      fix c' assume c': "c' \<in> set cs"
      then have "management_key p sid c' \<noteq> ?key" using dist(2) by (metis imageI)
      then show "0 < c_close c' \<and> decision_fresh db2 p sid c'"
        using Cons.prems(8) c' mk w(2) ev decisions_frame [OF a] e(3) by (auto simp: decision_fresh_def)
    qed
    have en: "dec28 (ls_conservative_entry (decided_signal d x))"
      using Cons.prems(4) by (cases "ls_side x") (simp_all add: decided_signal_def ls_conservative_entry_def)
    have mt: "managed_track (decided_signal d x) \<noteq> None" by (rule protects_managed [OF e(4) Cons.prems(6)])
    show ?thesis
      using Cons.IH [OF _ _ e(5) en Cons.prems(5) mt dist(1) fr, of "n + 1" "Some (open_time c)" "ds @ [d]"] mk dec w(1) False t d a Cons.prems(2)
      by (simp add: bind_p_def transact_p_def)
  qed
qed simp

definition management_ready :: "database \<Rightarrow> management_policy \<Rightarrow> string \<Rightarrow> lifecycle_signal \<Rightarrow> candle_series \<Rightarrow> instant \<Rightarrow> bool" where
  "management_ready db p sid x series now \<longleftrightarrow>
     series_ok series \<and> series_venue series = SPOT \<and> series_interval series = ONE_MINUTE
     \<and> list_all (\<lambda>c. is_closed_at c now \<and> years_ok c) series
     \<and> (let m = get_checkpoint db (management_mark sid); window = management_window m x series
        in list_all (decision_fresh db p sid) window
           \<and> (window = [] \<or> open_time (hd window) = (case m of Some t \<Rightarrow> t + usec_minute | None \<Rightarrow> value_or 0 (ls_activated_at x))))"

lemma management_total:
  assumes "db_ok db" "get_lifecycle_signal db sid = Inr x" "engine_signal x" "dec28 (ls_conservative_entry x)"
    and "policy_ok p" "managed_track x \<noteq> None" "management_ready db p sid x series now"
  defines "window \<equiv> management_window (get_checkpoint db (management_mark sid)) x series"
  shows "\<exists>res db'. management_replay show_dec sqlite_port p sid series now db = (Inr res, db')
    \<and> mr_processed res = int (length window)
    \<and> map md_dedupe_key (mr_decisions res) = filter (\<lambda>key. \<not> management_decision_exists db key) (map (management_key p sid) window)
    \<and> (\<forall>key. management_decision_exists db' key = (management_decision_exists db key \<or> key \<in> management_key p sid ` set window))"
proof -
  note ok = assms(1)
  let ?m = "get_checkpoint db (management_mark sid)"
  have rd: "series_ok series" "series_venue series = SPOT" "series_interval series = ONE_MINUTE"
    "list_all (\<lambda>c. is_closed_at c now \<and> years_ok c) series" "list_all (decision_fresh db p sid) window"
    "window = [] \<or> open_time (hd window) = (case ?m of Some t \<Rightarrow> t + usec_minute | None \<Rightarrow> value_or 0 (ls_activated_at x))"
    using assms(7) by (auto simp: management_ready_def Let_def window_def)
  have years: "list_all years_ok series" using rd(4) by (simp add: list_all_iff)
  have v: "validate_replay_series ''Management'' series now = Inr ()"
    using rd(2-4) by (auto simp: validate_replay_series_def list_ex_iff list_all_iff)
  obtain t where t: "managed_track x = Some t" using assms(6) by auto
  have "signal_shape x" using assms(3) by (simp add: engine_signal_def)
  then obtain a where a: "ls_activated_at x = Some a"
    using managed_track_SomeD [OF t] by (cases "ls_status x") (auto simp: signal_shape_def tracks_fit_def)
  have "minute_ok c" if "c \<in> set window" for c
    using series_minutes [OF rd(1,3)] that by (simp add: window_def management_window_def list_all_iff)
  then have pos: "\<forall>c \<in> set window. 0 < c_close c \<and> decision_fresh db p sid c"
    using rd(5) candle_okD by (fastforce simp: list_all_iff minute_ok_def)
  obtain u db' where u: "manage_candles show_dec sqlite_port p sid window 0 ?m [] db = (Inr u, db')"
    using manage_candles_total [OF ok assms(2-6) management_window_keys [OF rd(1,3) years, of p sid ?m x, folded window_def] pos] by blast
  obtain n m' ds where nmd: "u = (n, m', ds)" by (cases u) auto
  have n: "0 \<le> n"
    using sqlite_decisions.manage_run [OF ok assms(2-5) management_window_keys [OF rd(1,3) years, of p sid ?m x, folded window_def] u [unfolded nmd]] by auto
  have sid: "sid \<noteq> []" using read_signal_id [OF assms(2)] sqlite_shape [OF ok assms(2)] by simp
  have "management_replay show_dec sqlite_port p sid series now db
    = (Inr \<lparr>mr_signal_id = sid, mr_processed = n, mr_checkpoint = m', mr_decisions = ds\<rparr>, db')"
    using v assms(2) t a rd(6) u nmd n sid
    by (auto simp: management_replay_def bind_p_def Let_def window_def management_window_def value_or_def check_management_result_def
        split: option.splits)
  then show ?thesis
    using management_replay_run [OF ok assms(2-5) rd(1) years] unfolding window_def by blast
qed

text \<open>
  C28: a management replay returns.  For a signal with an open managed track, a gapless series
  of closed Spot minutes and unused keys, no step raises, and every candle of the window has
  exactly one decision afterwards: a new one, in order, where there was none before.
\<close>

theorem management_returns:
  assumes "repo_reachable db" "get_lifecycle_signal db sid = Inr x" "engine_signal x" "dec28 (ls_conservative_entry x)"
    and "policy_ok p" "managed_track x \<noteq> None" "management_ready db p sid x series now"
  defines "window \<equiv> management_window (get_checkpoint db (management_mark sid)) x series"
  shows "\<exists>res db'. management_replay show_dec sqlite_port p sid series now db = (Inr res, db')
    \<and> mr_processed res = int (length window)
    \<and> map md_dedupe_key (mr_decisions res) = filter (\<lambda>key. \<not> management_decision_exists db key) (map (management_key p sid) window)
    \<and> (\<forall>key. management_decision_exists db' key = (management_decision_exists db key \<or> key \<in> management_key p sid ` set window))"
  using management_total [OF reachable_ok [OF assms(1)] assms(2-7)] unfolding window_def .

text \<open>The sample signal, activated on its first sample candle.\<close>

lemma sample_managed:
  obtains db where "repo_reachable db" "get_lifecycle_signal db sample_id = Inr (opened_signal 100 60000000 sample_view)"
    "\<forall>p. management_ready db p sample_id (opened_signal 100 60000000 sample_view) sample_series 300000000"
proof -
  have ok: "db_ok sample_db" by (rule reachable_ok [OF sample_db_reachable])
  have ev: "e_dedupe_key ` set (events sample_db) = {''signal:BTC-20240229-001:created''}"
    using arg_cong [OF sample_db_facts(3), of set] by (simp only: set_map list.set)
  have r: "find_signal sample_db sample_id = Some (signal_row_of sample_signal)" using sample_db_signal by (simp add: sample_id_def)
  have p: "r_status (signal_row_of sample_signal) = PENDING" by (simp add: sample_signal_def)
  have na: "\<forall>q \<in> set (signals sample_db). r_status q \<noteq> ACTIVE"
    by (simp add: sample_db_facts(1)) (simp add: sample_signal_def)
  have f: "''k'' \<notin> e_dedupe_key ` set (events sample_db)" "''k'' \<notin> d_activation_key ` set (trades sample_db)" "0 < (100 :: rat)"
    by (simp_all add: ev sample_db_facts(2))
  obtain db where a: "activate_signal sample_id 100 60000000 ''k'' sample_db = Inr db"
    using activate_succeeds [OF ok f(3) r p na f(1,2)] by (rule exE)
  have reach: "repo_reachable db" by (rule reach_step [OF sample_db_reachable step_activate [OF a]])
  have w: "repo_step sample_db db" by (rule step_activate [OF a])
  have read: "get_lifecycle_signal db sample_id = Inr (opened_signal 100 60000000 sample_view)"
    using view_activate [OF ok sample_view_read a] by simp
  have keys: "used_keys db \<subseteq> used_keys sample_db \<union> {''k''}"
    using activate_write [OF ok a] by (simp add: engine_write_def)
  show thesis
  proof (rule that [OF reach read], rule allI)
    fix p
    have "e_dedupe_key ` set (events db) \<subseteq> {''signal:BTC-20240229-001:created'', ''k''}"
      using keys ev by (auto simp: used_keys_def sample_db_facts(2))
    then have fresh: "decision_fresh db p sample_id c" for c
      by (auto simp: decision_fresh_def management_key_def)
    have cp: "get_checkpoint db (management_mark sample_id) = None"
    proof -
      have "checkpoints sample_db = []"
        using sample_db_created
        by (auto simp: create_signal_def bind_result_eq_Inr insert_signal_row_def empty_database_def
            dest!: checkpoint_frame(1) insert_targets_law(1) split: if_splits)
      then have "get_checkpoint sample_db (management_mark sample_id) = None" by (simp add: get_checkpoint_def find_checkpoint_def)
      then show ?thesis using get_checkpoint_frame [OF checkpoint_frame_methods(2) [OF a]] by simp
    qed
    have y: "years_ok (minute_candle 1 a b c d)" "years_ok (minute_candle 2 a b c d)" for a b c d
      by (simp_all add: years_ok_def dt_year_def dt_day_def usec_defs date_of_day_def year_of_day_def Let_def days_before_year_def epoch_ordinal_def)
    show "management_ready db p sample_id (opened_signal 100 60000000 sample_view) sample_series 300000000"
      using fresh sample_series_ok y
      by (simp add: management_ready_def cp Let_def management_window_def opened_signal_def whole_seconds_def value_or_def
          sample_series_def series_venue_def series_interval_def is_closed_at_def usec_defs)
  qed
qed

lemma sample_opened:
  "engine_signal (opened_signal 100 60000000 sample_view)" "dec28 (ls_conservative_entry (opened_signal 100 60000000 sample_view))"
  "managed_track (opened_signal 100 60000000 sample_view) = Some (fresh_track sample_view MANAGED)"
proof -
  let ?x = "opened_signal 100 60000000 sample_view"
  obtain db where db: "repo_reachable db" "get_lifecycle_signal db sample_id = Inr ?x" by (rule sample_managed)
  have e: "ls_conservative_entry ?x = 100"
    by (simp add: ls_conservative_entry_def opened_signal_def sample_view_fields)
  then show "dec28 (ls_conservative_entry ?x)" using dec28_of_int [of 100] by simp
  have "signal_shape ?x" using sqlite_shape [OF reachable_ok [OF db(1)] db(2)] by simp
  then show "engine_signal ?x"
    unfolding engine_signal_def using e by (auto simp: opened_signal_def fresh_track_def track_sane_def)
  show "managed_track ?x = Some (fresh_track sample_view MANAGED)"
    by (simp add: managed_track_def opened_signal_def fresh_track_def)
qed

theorem management_returns_witness:
  "\<exists>db res db'. management_replay (\<lambda>_. ''1.5'') sqlite_port default_policy ''BTC-20240229-001'' sample_series 300000000 db = (Inr res, db')
     \<and> mr_processed res = int (length (management_window (get_checkpoint db (management_mark ''BTC-20240229-001'')) (opened_signal 100 60000000 sample_view) sample_series))"
proof -
  obtain db where db: "repo_reachable db" "get_lifecycle_signal db sample_id = Inr (opened_signal 100 60000000 sample_view)"
    "\<forall>p. management_ready db p sample_id (opened_signal 100 60000000 sample_view) sample_series 300000000" by (rule sample_managed)
  have m: "managed_track (opened_signal 100 60000000 sample_view) \<noteq> None" by (simp add: sample_opened)
  show ?thesis
    using management_returns [OF db(1,2) sample_opened(1,2) default_policy_ok m spec [OF db(3)], of "\<lambda>_. ''1.5''"] unfolding sample_id_def by blast
qed

text \<open>The run that \<open>management_protects\<close> is shown on.\<close>

lemma sample_managed_run:
  obtains db res db' where "repo_reachable db" "get_lifecycle_signal db sample_id = Inr (opened_signal 100 60000000 sample_view)"
    "management_replay (\<lambda>_. ''1.5'') sqlite_port default_policy sample_id sample_series 300000000 db = (Inr res, db')"
proof -
  obtain db where db: "repo_reachable db" "get_lifecycle_signal db sample_id = Inr (opened_signal 100 60000000 sample_view)"
    "\<forall>p. management_ready db p sample_id (opened_signal 100 60000000 sample_view) sample_series 300000000" by (rule sample_managed)
  have m: "managed_track (opened_signal 100 60000000 sample_view) \<noteq> None" by (simp add: sample_opened)
  obtain res db' where "management_replay (\<lambda>_. ''1.5'') sqlite_port default_policy sample_id sample_series 300000000 db = (Inr res, db')"
    using management_total [OF reachable_ok [OF db(1)] db(2) sample_opened(1,2) default_policy_ok m spec [OF db(3)]] by blast
  then show thesis by (rule that [OF db(1,2)])
qed

theorem management_protects_witness:
  "\<exists>db res db' y. management_replay (\<lambda>_. ''1.5'') sqlite_port default_policy sample_id sample_series 300000000 db = (Inr res, db')
     \<and> get_lifecycle_signal db' sample_id = Inr y \<and> length (ls_active_tracks y) = 2"
proof -
  obtain db res db' where r: "repo_reachable db" "get_lifecycle_signal db sample_id = Inr (opened_signal 100 60000000 sample_view)"
    "management_replay (\<lambda>_. ''1.5'') sqlite_port default_policy sample_id sample_series 300000000 db = (Inr res, db')" by (rule sample_managed_run)
  have y: "list_all years_ok sample_series"
    by (simp add: sample_series_def years_ok_def dt_year_def dt_day_def usec_defs date_of_day_def year_of_day_def Let_def
        days_before_year_def epoch_ordinal_def)
  have two: "length (ls_active_tracks (opened_signal 100 60000000 sample_view)) = 2" by (simp add: opened_signal_def)
  have "\<exists>y. get_lifecycle_signal db' sample_id = Inr y \<and> length (ls_active_tracks y) = 2"
    using management_protects [OF r(1,2) sample_opened(1,2) default_policy_ok sample_series_ok y r(3)]
    by (elim exE conjE) (drule list_all2_lengthD, use two in auto)
  then show ?thesis using r(3) by blast
qed

subsection \<open>What a protected track is worth\<close>

lemma break_even_zero:
  assumes "risk_ok x fill" "cost_adjusted_break_even x = Inr b"
    and exact: "case ls_side x of LONG \<Rightarrow> dec28 (fill + round_trip_cost x fill) | SHORT \<Rightarrow> dec28 (fill - round_trip_cost x fill)"
  shows "result_r x b = Inr 0" "gross_move (ls_side x) fill b = round_trip_cost x fill"
proof -
  have f: "ls_fill_price x = Some fill" using assms(1) by (simp add: risk_ok_def)
  have c: "rnd28 (round_trip_cost x fill) = round_trip_cost x fill"
    unfolding round_trip_cost_def dmul_def by (rule rnd28_exact [OF dec28_rnd28])
  show g: "gross_move (ls_side x) fill b = round_trip_cost x fill"
    using assms(2) exact f c
    by (cases "ls_side x") (auto simp: cost_adjusted_break_even_def gross_move_def round_trip_cost_def [symmetric] Let_def dadd_def dsub_def rnd28_exact)
  show "result_r x b = Inr 0" unfolding result_r_value [OF assms(1)] g by (simp add: dsub_def dquot_def)
qed

text \<open>
  C27: a break-even stop costs nothing.  Once a decision has moved the stop of the managed track
  to the cost adjusted break-even price (computed without loss of digits), a later candle that
  reaches this stop closes the track at exactly 0 R as a break-even; if the candle already
  opens beyond the stop, the result is the (not positive) R of that opening price.
\<close>

theorem break_even_outcome:
  assumes "policy_ok p" "engine_signal x" "ls_fill_price x = Some fill" "dec28 fill" "managed_track x = Some t"
    and "case ls_side x of LONG \<Rightarrow> dec28 (fill + round_trip_cost x fill) | SHORT \<Rightarrow> dec28 (fill - round_trip_cost x fill)"
    and "decide show_dec p x t c key = Inr d" "md_action d = MOVE_STOP_TO_BREAK_EVEN"
  defines "y \<equiv> decided_signal d x" and "u \<equiv> decided_state d t"
  assumes "touches_stop y u c'"
  shows "\<exists>req. exit_request y c' u = Inr req \<and> tc_result_r req \<le> 0
    \<and> (tc_result_r req = 0 \<longrightarrow> tc_result req = BREAK_EVEN) \<and> (tc_result_r req < 0 \<longrightarrow> tc_result req = LOSS)
    \<and> (stop_fill y u c' (activation_candle y c') = ts_current_stop u \<longrightarrow> tc_result_r req = 0)"
proof -
  have risk: "risk_ok x fill" by (rule engine_risk [OF assms(2,3)])
  note tm = managed_track_SomeD [OF assms(5)]
  obtain r action reason stop partial where a: "decide_action show_dec p x t c r = Inr (action, reason, stop, partial)"
    "md_action d = action" "md_updated_stop d = stop" "md_changes_managed_result d = (action \<noteq> HOLD)"
    "md_remaining_fraction_after d = map_option fst partial" "md_realized_r_after d = map_option snd partial"
    by (rule decide_cases [OF assms(7)]) blast
  obtain b where b: "stop = Some b" "partial = None" "ts_current_stop t = ls_original_stop x" "cost_adjusted_break_even x = Inr b"
    using a(1) by (cases rule: decide_action_cases) (use a(2) assms(8) in auto)
  have u: "u = t\<lparr>ts_current_stop := b\<rparr>"
    using a b assms(8) tm by (simp add: u_def decided_state_def value_or_def)
  have t: "ts_remaining_fraction t = 1" "ts_realized_r t = 0"
    using assms(2) tm b(3) by (auto simp: engine_signal_def track_sane_def)
  have same: "ls_original_stop y = ls_original_stop x" "ls_side y = ls_side x" "result_r y = result_r x"
  proof -
    note eq = tracks_only_fields [OF y_def [THEN meta_eq_to_obj_eq, THEN trans, OF decided_only_tracks]]
    show "ls_original_stop y = ls_original_stop x" "ls_side y = ls_side x" by (fact eq)+
    show "result_r y = result_r x" by (intro ext) (simp only: result_r_def eq)
  qed
  define price where "price = stop_fill y u c' (activation_candle y c')"
  obtain q where q: "result_r x price = Inr q" by (rule result_r_total [OF assms(2,3)])
  have zero: "result_r x b = Inr 0" by (rule break_even_zero(1) [OF risk b(4) assms(6)])
  have q0: "q \<le> 0"
  proof (rule result_r_mono [OF risk _ q zero])
    show "case ls_side x of LONG \<Rightarrow> price \<le> b | SHORT \<Rightarrow> b \<le> price"
      using stop_fill_worse [of y u c' "activation_candle y c'"] u by (cases "ls_side x") (simp_all add: price_def same)
  qed
  define w where "w = dadd 0 (dmul 1 q)"
  have w: "track_result_r y u price = Inr w" by (simp add: track_result_r_def same q u t w_def)
  have sign: "w \<le> 0" "w = 0 \<longleftrightarrow> q = 0" using q0 by (simp_all add: w_def dadd_def dmul_def dec.nonpos dec.rnd_eq_0)
  have ne: "b \<noteq> ls_original_stop x" by (rule break_even_side(2) [OF risk assms(4) b(4)])
  have e: "exit_request y c' u = close_request y u price c' (touches_tp1 y c') False"
    using assms(11) by (simp add: exit_request_def candle_exit_def price_def)
  obtain req where req: "exit_request y c' u = Inr req" "tc_result_r req = w"
    "tc_result req = fst (close_verdict y u w (touches_tp1 y c') False)"
    unfolding e by (auto simp: close_request_def w case_prod_unfold Let_def)
  have "tc_result req = (if w = 0 then BREAK_EVEN else LOSS)"
    using sign(1) ne u by (auto simp: req(3) close_verdict_def same)
  moreover have "w = 0" if "price = ts_current_stop u" using that q zero sign(2) u by simp
  ultimately show ?thesis using req sign by (auto simp: price_def)
qed

theorem break_even_outcome_witness:
  "\<exists>d. decide (\<lambda>_. ''1.5'') default_policy (opened_signal 100 60000000 sample_view) (fresh_track sample_view MANAGED)
      (minute_candle 2 100 112 100 111)
      (management_key default_policy sample_id (minute_candle 2 100 112 100 111)) = Inr d \<and> md_action d = MOVE_STOP_TO_BREAK_EVEN
    \<and> (\<exists>req. exit_request (decided_signal d (opened_signal 100 60000000 sample_view)) (minute_candle 3 102 103 100 101)
         (decided_state d (fresh_track sample_view MANAGED)) = Inr req \<and> tc_result req = BREAK_EVEN)"
proof -
  let ?x = "opened_signal 100 60000000 sample_view" and ?t = "fresh_track sample_view MANAGED"
  have c: "ls_cost_rate sample_view = 1 / 100" "ls_risk_percent sample_view = 1 / 2"
    by (simp_all add: sample_view_def signal_view_def lifecycle_signal_of_def sample_signal_def sample_terms_def signal_row_of_def Let_def)
  have x: "ls_fill_price ?x = Some 100" "ls_side ?x = LONG" "ls_cost_rate ?x = 1 / 100" "ls_original_stop ?x = 98"
    "ls_activated_at ?x = Some 60000000" "ls_risk_percent ?x = 1 / 2"
    by (simp_all add: opened_signal_def sample_view_fields c whole_seconds_def usec_defs)
  have id: "ls_signal_id ?x \<noteq> []"
    using read_signal_id [OF sample_view_read] by (simp add: opened_signal_def)
  have t: "ts_variant ?t = MANAGED" "ts_current_stop ?t = 98" "ts_remaining_fraction ?t = 1" "ts_realized_r ?t = 0"
    by (simp_all add: fresh_track_def sample_view_fields)
  have r: "result_r ?x 111 = Inr (rnd28 (10 / 3))"
    by (simp add: result_r_def x gross_risk_def gross_move_def Let_def dec_eval_ops)
  have big: "3 / 2 \<le> rnd28 (10 / 3)" by (rule dec.lower) (simp_all add: dec_eval)
  have b: "cost_adjusted_break_even ?x = Inr 101" by (simp add: cost_adjusted_break_even_def x Let_def dec_eval_ops)
  have a: "decide_action (\<lambda>_. ''1.5'') default_policy ?x ?t (minute_candle 2 100 112 100 111) (rnd28 (10 / 3))
    = Inr (MOVE_STOP_TO_BREAK_EVEN, ''Completed-candle profit reached '' @ ''1.5''
        @ ''R; the protected stop becomes effective only after this candle.'', Some 101, None)"
    using big by (simp add: decide_action_def x t b default_policy_def usec_defs)
  obtain d where d: "decide (\<lambda>_. ''1.5'') default_policy ?x ?t (minute_candle 2 100 112 100 111)
      (management_key default_policy sample_id (minute_candle 2 100 112 100 111)) = Inr d"
    using decide_total [OF default_policy_ok sample_opened(1,2,3) _ id] by fastforce
  have ds: "md_action d = MOVE_STOP_TO_BREAK_EVEN" "md_updated_stop d = Some 101" "md_changes_managed_result d"
    "md_remaining_fraction_after d = None" "md_realized_r_after d = None"
    by (rule decide_cases [OF d]; use r a in simp)+
  have u: "ts_current_stop (decided_state d ?t) = 101" by (simp add: decided_state_def ds t value_or_def)
  have y: "ls_side (decided_signal d ?x) = LONG" "ls_activated_at (decided_signal d ?x) = Some 60000000"
    by (simp_all add: decided_signal_def x)
  have touch: "touches_stop (decided_signal d ?x) (decided_state d ?t) (minute_candle 3 102 103 100 101)"
    by (simp add: touches_stop_def y u)
  have fill: "stop_fill (decided_signal d ?x) (decided_state d ?t) (minute_candle 3 102 103 100 101)
      (activation_candle (decided_signal d ?x) (minute_candle 3 102 103 100 101)) = ts_current_stop (decided_state d ?t)"
    by (simp add: stop_fill_def y u min_def)
  have ex: "dec28 100" "case ls_side ?x of LONG \<Rightarrow> dec28 (100 + round_trip_cost ?x 100) | SHORT \<Rightarrow> dec28 (100 - round_trip_cost ?x 100)"
    using dec28_of_int [of 100] dec28_of_int [of 101] by (simp_all add: x round_trip_cost_def dec_eval_ops)
  show ?thesis
    using break_even_outcome [OF default_policy_ok sample_opened(1) x(1) ex(1) sample_opened(3) ex(2) d ds(1) touch] d ds(1) fill by auto
qed

end
