(* ===== verification/BacktestLaws.thy ===== *)
theory BacktestLaws
  imports Backtest
begin

section \<open>The simulator settles a signal as the lifecycle engine does\<close>

text \<open>
  \<open>track_exit\<close> is the exit of a track in the specification of the lifecycle engine, folded over
  a list of candles.  \<open>follows_sim\<close> relates the state of the fixed-track simulation to the
  signal the specification has reached.
\<close>

subsection \<open>The exit of a track over a list of candles\<close>

definition open_track :: "outcome_variant \<Rightarrow> lifecycle_signal \<Rightarrow> track_state option" where
  "open_track v y = List.find (\<lambda>t. ts_variant t = v) (ls_active_tracks y)"

fun track_exit :: "outcome_variant \<Rightarrow> lifecycle_signal \<Rightarrow> candle list \<Rightarrow> track_close result option" where
  "track_exit v y [] = None"
| "track_exit v y (c # cs) =
     (let y1 = entry_step y c in
      case open_track v y1 of
        Some t \<Rightarrow> if candle_exit y1 c t \<noteq> None then Some (exit_request y1 c t) else track_exit v (signal_step c y) cs
      | None \<Rightarrow> track_exit v (signal_step c y) cs)"

subsection \<open>R of the simulation\<close>

lemma sim_result_eq:
  assumes "terms_of y (terms s)" "ls_fill_price y = Some e"
  shows "sim_result_r s e p = result_r y p"
  using assms by (simp add: sim_result_r_def result_r_def terms_of_def Let_def)

lemma quot_exact: "result_r y p = Inr r \<Longrightarrow> rnd28 r = r"
  by (auto simp: result_r_def Let_def ddiv_eq_Inr dquot_def rnd28_exact [OF dec28_rnd28] split: option.splits)

lemma fresh_track_result:
  assumes "result_r y p = Inr r"
  shows "track_result_r y (fresh_track x v) p = Inr r"
  using quot_exact [OF assms] assms by (simp add: track_result_r_def fresh_track_def dadd_def dmul_def)

lemma recomputed_result:
  assumes "risk_ok y e" "terms_of y (terms s)" "sim_result_r s e p = Inr r"
    and t: "bt_resolved t" "bt_entry_price t = Some e" "bt_exit_price t = Some p" "bt_original_stop t = original_stop (terms s)"
    "bt_cost_rate t = estimated_round_trip_cost_rate (terms s)" "bt_side t = side (terms s)"
  shows "result_at_cost_multiplier t 1 = Inr (Some r)"
proof -
  have eq: "ls_fill_price y = Some e" "ls_side y = side (terms s)" "ls_original_stop y = original_stop (terms s)"
    "ls_cost_rate y = estimated_round_trip_cost_rate (terms s)"
    using assms(1,2) by (simp_all add: risk_ok_def terms_of_def)
  have c: "dmul (dmul e (ls_cost_rate y)) 1 = dmul e (ls_cost_rate y)"
    by (simp add: dmul_def rnd28_exact [OF dec28_rnd28])
  have "dabs (dsub e (ls_original_stop y)) = gross_risk (ls_side y) e (ls_original_stop y)"
  proof (cases "ls_side y")
    case LONG
    then have "0 \<le> dsub e (ls_original_stop y)" using assms(1) by (simp add: risk_ok_def dsub_def dec.nonneg)
    then show ?thesis using LONG by (simp add: gross_risk_def dabs_def dsub_def rnd28_exact [OF dec28_rnd28])
  next
    case SHORT
    then have "e < ls_original_stop y" using assms(1) by (simp add: risk_ok_def)
    then have "dsub e (ls_original_stop y) < 0" by (simp add: dsub_def dec.neg)
    moreover have "- dsub e (ls_original_stop y) = dsub (ls_original_stop y) e"
      by (simp add: dsub_def rnd28_minus [symmetric])
    ultimately show ?thesis using SHORT by (simp add: gross_risk_def dabs_def dsub_def rnd28_exact [OF dec28_rnd28])
  qed
  then show ?thesis
    using assms(3) t c by (simp add: result_at_cost_multiplier_def sim_result_r_def Let_def eq)
qed

subsection \<open>The record of a settled trade\<close>

text \<open>A valid signal makes every trade record the simulation of the fixed track asks for.\<close>

definition trade_matches :: "backtest_trade \<Rightarrow> backtest_outcome \<Rightarrow> instant \<Rightarrow> decimal option \<Rightarrow> decimal option \<Rightarrow> decimal option \<Rightarrow> bool" where
  "trade_matches t outcome at_time r entry exit_price \<longleftrightarrow> bt_outcome t = outcome \<and> bt_terminal_at t = at_time
     \<and> bt_result_r t = r \<and> bt_entry_price t = entry \<and> bt_exit_price t = exit_price"

lemma signal_fields:
  assumes "valid_signal s"
  shows "signal_id s \<noteq> []" "\<not> blank (strategy_version s)" "0 \<le> setup_score s" "setup_score s \<le> 100"
    "2 \<le> planned_r_for (terms s) (hd (targets (terms s)))" "0 < original_stop (terms s)"
    "0 \<le> estimated_round_trip_cost_rate (terms s)" "estimated_round_trip_cost_rate (terms s) \<le> 1 / 100"
    "created_at (terms s) < expires_at (terms s)"
proof -
  have v: "check_signal s = Inr s" "check_signal_terms (terms s) = Inr (terms s)" using assms by (auto simp: valid_signal_def)
  note t = check_signal_terms_Inr [OF v(2)]
  show "2 \<le> planned_r_for (terms s) (hd (targets (terms s)))" "0 < original_stop (terms s)"
    "0 \<le> estimated_round_trip_cost_rate (terms s)" "estimated_round_trip_cost_rate (terms s) \<le> 1 / 100"
    "created_at (terms s) < expires_at (terms s)"
    using t by auto
  obtain u where "validate_signal_id (signal_id s) = Inr u" using v(1) by (auto simp: check_signal_def bind_result_eq_Inr)
  then show "signal_id s \<noteq> []" by (auto simp: validate_signal_id_def match_signal_id_def split: if_splits option.splits)
  show "\<not> blank (strategy_version s)" "0 \<le> setup_score s" "setup_score s \<le> 100"
    using v(1) by (auto simp: check_signal_def bind_result_eq_Inr split: if_splits)
qed

lemma open_trade_made:
  assumes "valid_signal s" "created_at (terms s) < at_time"
  shows "\<exists>t. make_trade s v BT_UNRESOLVED at_time e None False = Inr t \<and> trade_matches t BT_UNRESOLVED at_time None e None"
    "\<exists>t. make_trade s v BT_NO_FILL at_time None None False = Inr t \<and> trade_matches t BT_NO_FILL at_time None None None"
  using signal_fields [OF assms(1)] assms(2)
  by (simp_all add: make_trade_def check_backtest_trade_def bt_resolved_def trade_matches_def value_or_def Let_def not_less not_le split: option.split)

lemma closed_trade_made:
  assumes "valid_signal s" "created_at (terms s) < at_time" "risk_ok y e" "terms_of y (terms s)" "sim_result_r s e p = Inr r"
    and "outcome = BT_LOSS \<and> r < 0 \<or> outcome = BT_WIN \<and> r = planned_r_for (terms s) (hd (targets (terms s)))"
  shows "\<exists>t. make_trade s v outcome at_time (Some e) (Some p) amb = Inr t
    \<and> trade_matches t outcome at_time (Some r) (Some e) (Some p)"
proof -
  note f = signal_fields [OF assms(1)]
  define t where "t = \<lparr>bt_signal_id = signal_id s, bt_created_at = created_at (terms s), bt_terminal_at = at_time,
        bt_side = side (terms s), bt_regime = regime s, bt_variant = v, bt_setup_score = setup_score s,
        bt_strategy_version = strategy_version s, bt_planned_rr = planned_r_for (terms s) (hd (targets (terms s))),
        bt_outcome = outcome, bt_result_r = Some r, bt_entry_price = Some e, bt_exit_price = Some p,
        bt_original_stop = original_stop (terms s), bt_cost_rate = estimated_round_trip_cost_rate (terms s),
        bt_ambiguous = amb\<rparr>"
  have res: "bt_resolved t" using assms(6) by (auto simp: t_def bt_resolved_def)
  have m: "result_at_cost_multiplier t 1 = Inr (Some r)"
    by (rule recomputed_result [OF assms(3-5) res]) (simp_all add: t_def)
  have z: "dabs (dsub r r) = 0" by (simp add: dabs_def dsub_def)
  have "check_backtest_trade t = Inr t"
    using f assms(2,6) res m z by (auto simp: check_backtest_trade_def t_def value_or_def Let_def not_less not_le)
  then show ?thesis
    by (intro exI [of _ t]) (simp add: make_trade_def assms(5) t_def [symmetric], simp add: t_def trade_matches_def)
qed

subsection \<open>One candle\<close>

definition pending_view :: "signal \<Rightarrow> lifecycle_signal \<Rightarrow> bool" where
  "pending_view s x \<longleftrightarrow> terms_of x (terms s) \<and> ls_status x = PENDING \<and> ls_created_at x = created_at (terms s)
     \<and> ls_expires_at x = expires_at (terms s) \<and> ls_active_tracks x = [] \<and> ls_activated_at x = None"

definition follows_sim :: "signal \<Rightarrow> trade_replay \<Rightarrow> lifecycle_signal \<Rightarrow> bool" where
  "follows_sim s r y \<longleftrightarrow> ir_signal r = s \<and> ir_variant r = FIXED \<and> ir_trade r = None
     \<and> ir_current_stop r = original_stop (terms s) \<and> terms_of y (terms s) \<and> ls_expires_at y = expires_at (terms s) \<and> distinct (active_variants y)
     \<and> (case ir_entry r of
          None \<Rightarrow> ls_status y = PENDING \<and> ls_active_tracks y = [] \<and> ls_activated_at y = None
        | Some e \<Rightarrow> e = conservative_entry (terms s) \<and> ls_status y \<in> {ACTIVE, CLOSED} \<and> ls_fill_price y = Some e
            \<and> ls_activated_at y = ir_activated_at r \<and> open_track FIXED y = Some (fresh_track y FIXED))"

lemma follows_risk:
  assumes "follows_sim s r y" "ir_entry r = Some e"
  shows "risk_ok y e" "e = conservative_entry (terms s)" "ls_fill_price y = Some e"
proof -
  have t: "terms_of y (terms s)" "ls_fill_price y = Some e" "e = conservative_entry (terms s)"
    using assms by (simp_all add: follows_sim_def)
  then show "e = conservative_entry (terms s)" "ls_fill_price y = Some e" by simp_all
  have "e = ls_conservative_entry y" using conservative_entry_eq [OF t(1)] t(3) by simp
  then show "risk_ok y e" using terms_geometry [OF t(1)] t(2)
    by (cases "ls_side y") (auto simp: risk_ok_def ls_conservative_entry_def)
qed

lemma advance_open_eq:
  assumes "follows_sim s r y" "ir_entry r = Some e"
  shows "advance_open c e r =
    (case candle_exit y c (fresh_track y FIXED) of
       None \<Rightarrow> (Inr None, r)
     | Some (p, amb, target) \<Rightarrow> settle (make_trade s FIXED (if target then BT_WIN else BT_LOSS) (close_time c) (Some e) (Some p) amb) r)"
proof -
  have f: "terms_of y (terms s)" "ir_signal r = s" "ir_variant r = FIXED" "ir_current_stop r = original_stop (terms s)"
    "ls_activated_at y = ir_activated_at r"
    using assms by (simp_all add: follows_sim_def)
  have eq: "ls_side y = side (terms s)" "ls_original_stop y = original_stop (terms s)" "ls_targets y = targets (terms s)"
    using f(1) by (simp_all add: terms_of_def)
  note risk = follows_risk [OF assms]
  obtain q where q: "sim_result_r s e p = Inr (q p)" for p
    using result_r_value [OF risk(1)] by (simp add: sim_result_eq [OF f(1) risk(3)])
  show ?thesis
    by (cases "side (terms s)")
      (simp_all add: advance_open_def candle_exit_def touches_stop_def touches_tp1_def activation_candle_def stop_fill_def
        fresh_track_def f(2-5) eq Let_def q)
qed

lemma open_step:
  assumes "follows_sim s r y" "ir_entry r = Some e" "valid_signal s" "created_at (terms s) < close_time c"
  shows "case candle_exit y c (fresh_track y FIXED) of
      None \<Rightarrow> advance_open c e r = (Inr None, r)
    | Some (p, amb, target) \<Rightarrow> \<exists>t req r'. advance_open c e r = (Inr (Some t), r') \<and> exit_request y c (fresh_track y FIXED) = Inr req
        \<and> tc_result req = (if target then WIN else LOSS) \<and> tc_variant req = FIXED \<and> tc_price req = p \<and> tc_occurred_at req = close_time c
        \<and> trade_matches t (if target then BT_WIN else BT_LOSS) (close_time c) (Some (tc_result_r req)) (Some e) (Some p)"
proof (cases "candle_exit y c (fresh_track y FIXED)")
  case None
  then show ?thesis by (simp add: advance_open_eq [OF assms(1,2)])
next
  case (Some a)
  obtain p amb target where a: "a = (p, amb, target)" by (cases a) auto
  note risk = follows_risk [OF assms(1,2)]
  have t: "terms_of y (terms s)" using assms(1) by (simp add: follows_sim_def)
  obtain q where q: "result_r y p = Inr q" using result_r_value [OF risk(1)] by blast
  have track: "ts_current_stop (fresh_track y FIXED) = ls_original_stop y" "ts_variant (fresh_track y FIXED) = FIXED"
    by (simp_all add: fresh_track_def)
  have case1: "(if target then BT_WIN else BT_LOSS) = BT_LOSS \<and> q < 0
    \<or> (if target then BT_WIN else BT_LOSS) = BT_WIN \<and> q = planned_r_for (terms s) (hd (targets (terms s)))"
  proof (cases target)
    case True
    then have "p = t_price (hd (ls_targets y))" using Some a by (auto simp: candle_exit_def split: if_splits)
    then show ?thesis using True target_pays_at(1) [OF risk(1) t risk(2)] q t by (auto simp: terms_of_def)
  next
    case False
    then have p: "p = stop_fill y (fresh_track y FIXED) c (activation_candle y c)"
      using Some a by (auto simp: candle_exit_def split: if_splits)
    have "case ls_side y of LONG \<Rightarrow> p < e | SHORT \<Rightarrow> e < p"
      using stop_fill_worse [of y "fresh_track y FIXED" c "activation_candle y c"] risk(1)
      by (cases "ls_side y") (auto simp: p track(1) risk_ok_def)
    then show ?thesis using False result_r_losing [OF risk(1) q] by simp
  qed
  have sim: "sim_result_r s e p = Inr q" using q by (simp add: sim_result_eq [OF t risk(3)])
  obtain tr where tr: "make_trade s FIXED (if target then BT_WIN else BT_LOSS) (close_time c) (Some e) (Some p) amb = Inr tr"
    "trade_matches tr (if target then BT_WIN else BT_LOSS) (close_time c) (Some q) (Some e) (Some p)"
    using closed_trade_made [OF assms(3,4) risk(1) t sim case1] by blast
  obtain req where req: "exit_request y c (fresh_track y FIXED) = Inr req" "tc_result_r req = q" "tc_variant req = FIXED"
    "tc_price req = p" "tc_occurred_at req = close_time c" "tc_result req = fst (close_verdict y (fresh_track y FIXED) q amb target)"
    by (simp add: exit_request_def Some a close_request_def fresh_track_result [OF q] case_prod_unfold Let_def track(2))
  have "tc_result req = (if target then WIN else LOSS)" by (simp add: req(6) close_verdict_def Let_def track(1))
  then show ?thesis
    using req tr by (simp add: Some a advance_open_eq [OF assms(1,2)] settle_def)
qed

lemma find_filter: "List.find P xs = Some t \<Longrightarrow> Q t \<Longrightarrow> List.find P (filter Q xs) = Some t"
  by (induction xs) (auto split: if_splits)

lemma open_trackD: "open_track v y = Some t \<Longrightarrow> t \<in> set (ls_active_tracks y) \<and> ts_variant t = v"
  unfolding open_track_def by (rule find_SomeD)

lemma signal_step_keeps:
  assumes "open_track FIXED (entry_step y c) = Some t" "candle_exit (entry_step y c) c t = None"
    "ls_status (entry_step y c) \<in> {ACTIVE, CLOSED}" "distinct (active_variants (entry_step y c))"
  shows "open_track FIXED (signal_step c y) = Some t" "ls_status (signal_step c y) \<in> {ACTIVE, CLOSED}"
    "distinct (active_variants (signal_step c y))"
proof -
  let ?y = "entry_step y c"
  let ?es = "exits ?y c (ls_active_tracks ?y)"
  have s: "signal_step c y = shut_all ?es ?y" by (simp add: signal_step_def Let_def)
  show "ls_status (signal_step c y) \<in> {ACTIVE, CLOSED}" using assms(3) by (auto simp: s shut_all_status)
  show "distinct (active_variants (signal_step c y))"
    using assms(4) by (simp add: s active_variants_def shut_all_tracks distinct_map_filter)
  note t = open_trackD [OF assms(1)]
  have "u = t" if "u \<in> set (ls_active_tracks ?y)" "ts_variant u = FIXED" for u
    using assms(4) t that unfolding active_variants_def distinct_map by (metis inj_onD)
  then have "FIXED \<notin> ts_variant ` set ?es" using assms(2) by (auto simp: exits_def)
  then show "open_track FIXED (signal_step c y) = Some t"
    using t assms(1) unfolding s open_track_def shut_all_tracks by (intro find_filter) auto
qed

lemma signal_step_terms:
  "terms_of (signal_step c y) = terms_of y" "ls_expires_at (signal_step c y) = ls_expires_at y"
  "ls_original_stop (signal_step c y) = ls_original_stop y"
proof -
  have e: "ls_side (entry_step y c) = ls_side y" "ls_entry_low (entry_step y c) = ls_entry_low y" "ls_entry_high (entry_step y c) = ls_entry_high y"
    "ls_original_stop (entry_step y c) = ls_original_stop y" "ls_targets (entry_step y c) = ls_targets y" "ls_cost_rate (entry_step y c) = ls_cost_rate y"
    "ls_risk_percent (entry_step y c) = ls_risk_percent y" "ls_expires_at (entry_step y c) = ls_expires_at y"
    by (simp_all add: entry_step_def moved_signal_def opened_signal_def)
  have s: "ls_side (shut_all ts z) = ls_side z" "ls_entry_low (shut_all ts z) = ls_entry_low z" "ls_entry_high (shut_all ts z) = ls_entry_high z"
    "ls_original_stop (shut_all ts z) = ls_original_stop z" "ls_targets (shut_all ts z) = ls_targets z" "ls_cost_rate (shut_all ts z) = ls_cost_rate z"
    "ls_risk_percent (shut_all ts z) = ls_risk_percent z" "ls_expires_at (shut_all ts z) = ls_expires_at z" for ts z
    by (induction ts arbitrary: z) simp_all
  show "ls_expires_at (signal_step c y) = ls_expires_at y" "ls_original_stop (signal_step c y) = ls_original_stop y"
    by (simp_all add: signal_step_def Let_def e s)
  show "terms_of (signal_step c y) = terms_of y"
    by (intro ext) (simp add: terms_of_def signal_step_def Let_def e s)
qed

subsection \<open>The whole case\<close>

definition sim_agrees :: "backtest_trade \<Rightarrow> lifecycle_signal \<Rightarrow> candle list \<Rightarrow> bool" where
  "sim_agrees t y cs \<longleftrightarrow>
     (case track_exit FIXED y cs of
        Some ex \<Rightarrow> \<exists>req. ex = Inr req \<and> tc_variant req = FIXED
          \<and> (bt_outcome t = BT_WIN \<and> tc_result req = WIN \<or> bt_outcome t = BT_LOSS \<and> tc_result req = LOSS)
          \<and> bt_result_r t = Some (tc_result_r req) \<and> bt_exit_price t = Some (tc_price req) \<and> bt_terminal_at t = tc_occurred_at req
      | None \<Rightarrow> bt_result_r t = None
          \<and> bt_outcome t = (if ls_status (fold signal_step cs y) = EXPIRED then BT_NO_FILL else BT_UNRESOLVED))"

lemma sim_agrees_step:
  "track_exit FIXED y (c # cs) = track_exit FIXED (signal_step c y) cs \<Longrightarrow> sim_agrees t y (c # cs) = sim_agrees t (signal_step c y) cs"
  by (simp only: sim_agrees_def fold_simps)

lemma expired_stays:
  assumes "ls_status y = EXPIRED" "ls_active_tracks y = []"
  shows "track_exit v y cs = None" "fold signal_step cs y = y"
proof -
  have e: "entry_step y c = y" "signal_step c y = y" for c
    using assms by (simp_all add: entry_step_def signal_step_def)
  show "track_exit v y cs = None" by (induction cs) (simp_all add: e open_track_def assms)
  show "fold signal_step cs y = y" by (induction cs) (simp_all add: e)
qed

fun minutes_from :: "instant \<Rightarrow> candle list \<Rightarrow> bool" where
  "minutes_from t [] = True"
| "minutes_from t (c # cs) \<longleftrightarrow> open_time c = t \<and> minutes_from (t + usec_minute) cs"

lemma follows_after:
  assumes "follows_sim s r y" "ir_entry r = Some e" "candle_exit y c (fresh_track y FIXED) = None" "entry_step z c = y"
  shows "follows_sim s r (signal_step c z)"
proof -
  have f: "open_track FIXED y = Some (fresh_track y FIXED)" "ls_status y \<in> {ACTIVE, CLOSED}" "distinct (active_variants y)"
    using assms(1,2) by (auto simp: follows_sim_def)
  note k = signal_step_keeps [where y = z and c = c, unfolded assms(4), OF f(1) assms(3) f(2,3)]
  have step: "signal_step c z = shut_all (exits y c (ls_active_tracks y)) y" by (simp add: signal_step_def Let_def assms(4))
  have "entry_step y c = y" using f(2) by (auto simp: entry_step_def)
  then have same: "signal_step c z = signal_step c y" by (simp add: signal_step_def Let_def assms(4))
  have "fresh_track (signal_step c y) FIXED = fresh_track y FIXED" by (simp add: fresh_track_def signal_step_terms)
  moreover have "ls_fill_price (signal_step c y) = ls_fill_price y" "ls_activated_at (signal_step c y) = ls_activated_at y"
    by (simp_all add: step [unfolded same])
  ultimately show ?thesis
    using assms(1,2) k unfolding same by (auto simp: follows_sim_def signal_step_terms)
qed

lemma minute_close: "minute_ok c \<Longrightarrow> open_time c < close_time c"
  using candle_minute(1) [of c] by (auto simp: minute_ok_def usec_defs)

lemma run_agrees:
  assumes "follows_sim s r y" "valid_signal s" "list_all (\<lambda>c. minute_ok c \<and> c_venue c = SPOT) cs" "minutes_from (ir_next_open r) cs"
    and "created_at (terms s) \<le> ir_next_open r" "created_at (terms s) < as_of"
  shows "\<exists>t r'. run_replay cs as_of r = (Inr t, r') \<and> sim_agrees t y cs"
  using assms
proof (induction cs arbitrary: r y)
  case Nil
  have r: "ir_signal r = s" "ir_variant r = FIXED" "ir_trade r = None" using Nil.prems(1) by (simp_all add: follows_sim_def)
  obtain t where t: "make_trade s FIXED BT_UNRESOLVED as_of (ir_entry r) None False = Inr t"
    "trade_matches t BT_UNRESOLVED as_of None (ir_entry r) None"
    using open_trade_made(1) [OF Nil.prems(2,6)] by blast
  have "ls_status y \<noteq> EXPIRED" using Nil.prems(1) by (auto simp: follows_sim_def split: option.splits)
  then show ?case using t Nil.prems(6) by (simp add: finish_replay_def r not_le sim_agrees_def trade_matches_def)
next
  case (Cons c cs)
  have c: "minute_ok c" "c_venue c = SPOT" "open_time c = ir_next_open r" "c_interval c = ONE_MINUTE"
    and rest: "list_all (\<lambda>c. minute_ok c \<and> c_venue c = SPOT) cs" "minutes_from (open_time c + usec_minute) cs"
    using Cons.prems(3,4) by (auto simp: minute_ok_def)
  have late: "created_at (terms s) < close_time c" "created_at (terms s) \<le> open_time c + usec_minute"
    using Cons.prems(5) c(3) minute_close [OF c(1)] by (simp_all add: usec_defs)
  define r0 where "r0 = r\<lparr>ir_next_open := open_time c + usec_minute\<rparr>"
  have f0: "follows_sim s r0 y" using Cons.prems(1) by (auto simp: follows_sim_def r0_def split: option.splits)
  have adv: "advance_replay c r = (case ir_entry r of
      Some e \<Rightarrow> advance_open c e r0
    | None \<Rightarrow> if must_expire y c then settle (make_trade s FIXED BT_NO_FILL (expires_at (terms s)) None None False) r0
              else if \<not> touches_entry y c then (Inr None, r0)
              else advance_open c (conservative_entry (terms s)) (r0\<lparr>ir_entry := Some (conservative_entry (terms s)), ir_activated_at := Some (open_time c)\<rparr>))"
    using Cons.prems(1) c
    by (auto simp: advance_replay_def r0_def follows_sim_def must_expire_def touches_entry_def terms_of_def Let_def split: option.splits)
  have opened: ?case
    if f: "follows_sim s q y1" "ir_entry q = Some e" "entry_step y c = y1" "advance_replay c r = advance_open c e q"
      "ir_next_open q = open_time c + usec_minute" for q y1 e
  proof -
    have tr: "open_track FIXED y1 = Some (fresh_track y1 FIXED)" using f(1,2) by (simp add: follows_sim_def)
    note st = open_step [OF f(1,2) Cons.prems(2) late(1)]
    show ?thesis
    proof (cases "candle_exit y1 c (fresh_track y1 FIXED)")
      case None
      have "follows_sim s q (signal_step c y)" by (rule follows_after [OF f(1,2) None f(3)])
      then obtain t r' where "run_replay cs as_of q = (Inr t, r')" "sim_agrees t (signal_step c y) cs"
        using Cons.IH [OF _ Cons.prems(2) rest(1) _ _ Cons.prems(6)] rest(2) late(2) f(5) by fastforce
      moreover have "sim_agrees t y (c # cs) = sim_agrees t (signal_step c y) cs"
        by (rule sim_agrees_step) (simp add: f(3) tr None)
      ultimately show ?thesis using st None f(4) by (simp add: bind_p_def)
    next
      case (Some a)
      obtain p amb target where a: "a = (p, amb, target)" by (cases a) auto
      show ?thesis using st tr f(3,4) Some
        by (auto simp: a bind_p_def sim_agrees_def trade_matches_def split: if_splits)
    qed
  qed
  show ?case
  proof (cases "ir_entry r")
    case (Some e)
    have "entry_step y c = y" using Cons.prems(1) Some by (auto simp: follows_sim_def entry_step_def)
    then show ?thesis using opened [of r0 y e] f0 Some adv by (simp add: r0_def)
  next
    case None
    have p: "ls_status y = PENDING" "ls_active_tracks y = []" "ls_activated_at y = None" "terms_of y (terms s)"
      "ls_expires_at y = expires_at (terms s)"
      using Cons.prems(1) None by (simp_all add: follows_sim_def)
    show ?thesis
    proof (cases "must_expire y c")
      case True
      obtain t where t: "make_trade s FIXED BT_NO_FILL (expires_at (terms s)) None None False = Inr t"
        "trade_matches t BT_NO_FILL (expires_at (terms s)) None None None"
        using open_trade_made(2) [OF Cons.prems(2) signal_fields(9) [OF Cons.prems(2)]] by blast
      have e: "entry_step y c = moved_signal EXPIRED y" using p True by (simp add: entry_step_def)
      have x: "ls_status (moved_signal EXPIRED y) = EXPIRED" "ls_active_tracks (moved_signal EXPIRED y) = []"
        by (simp_all add: moved_signal_def p)
      have "signal_step c y = moved_signal EXPIRED y" by (simp add: signal_step_def e x(2))
      then have "track_exit FIXED y (c # cs) = None" "ls_status (fold signal_step (c # cs) y) = EXPIRED"
        using expired_stays [OF x] x by (simp_all add: e open_track_def)
      then show ?thesis using t adv None True by (simp add: bind_p_def settle_def sim_agrees_def trade_matches_def)
    next
      case ne: False
      show ?thesis
      proof (cases "touches_entry y c")
        case False
        have e: "entry_step y c = y" using ne False by (simp add: entry_step_def)
        have s: "signal_step c y = y" by (simp add: signal_step_def e p)
        obtain t r' where "run_replay cs as_of r0 = (Inr t, r')" "sim_agrees t y cs"
          using Cons.IH [OF f0 Cons.prems(2) rest(1) _ _ Cons.prems(6)] rest(2) late(2) by (fastforce simp: r0_def)
        moreover have "sim_agrees t y (c # cs) = sim_agrees t y cs"
          using sim_agrees_step [of y c cs t] by (simp add: e s open_track_def p)
        ultimately show ?thesis using adv None ne False by (simp add: bind_p_def)
      next
        case True
        let ?e = "conservative_entry (terms s)"
        let ?q = "r0\<lparr>ir_entry := Some ?e, ir_activated_at := Some (open_time c)\<rparr>"
        define y1 where "y1 = opened_signal ?e (open_time c) y"
        have e: "entry_step y c = y1"
          using p ne True conservative_entry_eq [OF p(4)] by (simp add: entry_step_def y1_def)
        have "fresh_track y1 FIXED = fresh_track y FIXED" "terms_of y1 (terms s)"
          using p(4) by (simp_all add: y1_def opened_signal_def fresh_track_def terms_of_def)
        then have "follows_sim s ?q y1"
          using f0 p minute_whole [OF c(1)]
          by (auto simp: follows_sim_def y1_def opened_signal_def active_variants_def fresh_track_def open_track_def)
        then show ?thesis using opened [of ?q y1 ?e] adv None ne True e by (simp add: r0_def)
      qed
    qed
  qed
qed

subsection \<open>The outcomes a replay stores\<close>

lemma open_track_None: "open_track v y = None \<longleftrightarrow> v \<notin> set (active_variants y)"
  by (auto simp: open_track_def find_None_iff active_variants_def)

lemma shaped_open_track:
  assumes "signal_shape y" "t \<in> set (ls_active_tracks y)"
  shows "open_track (ts_variant t) y = Some t"
proof -
  have d: "distinct (map ts_variant (ls_active_tracks y))"
    using assms(1) by (simp add: signal_shape_def strict_sorted_iff active_variants_def)
  obtain u where u: "open_track (ts_variant t) y = Some u"
    using assms(2) open_track_None [of "ts_variant t" y] by (auto simp: active_variants_def)
  then have "u \<in> set (ls_active_tracks y)" "ts_variant u = ts_variant t" by (simp_all add: open_trackD)
  then have "u = t" using d assms(2) by (metis distinct_map inj_onD)
  then show ?thesis using u by simp
qed

context signal_store begin

lemma candle_outcome:
  assumes "good s" "signal_at s sid = Inr x" "minute_ok c" "replay_candle port sid c s = (Inr acts, s')"
  shows "case open_track v (entry_step x c) of
      None \<Rightarrow> outcome_at s' (sid, v) = outcome_at s (sid, v)
    | Some t \<Rightarrow> if candle_exit (entry_step x c) c t = None then outcome_at s' (sid, v) = outcome_at s (sid, v)
        else \<exists>req. exit_request (entry_step x c) c t = Inr req \<and> outcome_at s' (sid, v) = Some (outcome_row_of req)"
proof -
  let ?y = "entry_step x c"
  note r = candle_run [OF assms]
  have shape_y: "signal_shape ?y"
  proof -
    obtain acts1 now s1 where "replay_entry port sid x c s = (Inr (acts1, now), s1)"
      using candle_entry [OF assms(4,2)] by blast
    from entry_run [OF assms(1-3) this] show ?thesis using shape by blast
  qed
  have mem: "v \<in> ts_variant ` set (exits ?y c (ls_active_tracks ?y)) \<longleftrightarrow>
      (\<exists>t. open_track v ?y = Some t \<and> candle_exit ?y c t \<noteq> None)"
    using shaped_open_track [OF shape_y] open_trackD by (fastforce simp: exits_def simp del: not_None_eq)
  show ?thesis
  proof (cases "open_track v ?y")
    case None
    then show ?thesis using r mem by (auto simp: image_iff)
  next
    case (Some t)
    show ?thesis
    proof (cases "candle_exit ?y c t = None")
      case True
      then show ?thesis using r mem Some by (auto simp: image_iff)
    next
      case False
      have "t \<in> set (exits ?y c (ls_active_tracks ?y))" "ts_variant t = v" using open_trackD [OF Some] False by (simp_all add: exits_def)
      then show ?thesis using r Some False by auto
    qed
  qed
qed

lemma closed_track_stays:
  assumes "good s" "signal_at s sid = Inr x" "list_all minute_ok cs" "ls_status x \<noteq> PENDING" "open_track v x = None"
    "replay_candles port sid cs n m acts s = (Inr r, s')"
  shows "outcome_at s' (sid, v) = outcome_at s (sid, v)"
  using assms
proof (induction cs arbitrary: s x n m acts)
  case (Cons c cs)
  obtain more s1 where c: "replay_candle port sid c s = (Inr more, s1)"
    "replay_candles port sid cs (n + 1) (Some (open_time c)) (acts @ more) s1 = (Inr r, s')"
    using Cons.prems(6) by (auto simp: bind_p_eq_Inr)
  have ok: "minute_ok c" "list_all minute_ok cs" using Cons.prems(3) by simp_all
  have e: "entry_step x c = x" using Cons.prems(4) by (simp add: entry_step_def)
  note one = candle_run [OF Cons.prems(1,2) ok(1) c(1)] and out = candle_outcome [OF Cons.prems(1,2) ok(1) c(1), of v]
  have "ls_status (signal_step c x) \<noteq> PENDING" using Cons.prems(4) by (simp add: signal_step_def Let_def e shut_all_status)
  moreover have "open_track v (signal_step c x) = None"
    using Cons.prems(5) by (auto simp: open_track_None active_variants_def signal_step_def Let_def e shut_all_tracks)
  ultimately show ?case using Cons.IH [OF _ _ ok(2) _ _ c(2)] one out Cons.prems(5) e by simp
qed simp

lemma candles_outcome:
  assumes "good s" "signal_at s sid = Inr x" "list_all minute_ok cs" "replay_candles port sid cs n m acts s = (Inr r, s')"
  shows "case track_exit v x cs of
      None \<Rightarrow> outcome_at s' (sid, v) = outcome_at s (sid, v)
    | Some ex \<Rightarrow> \<exists>req. ex = Inr req \<and> outcome_at s' (sid, v) = Some (outcome_row_of req)"
  using assms
proof (induction cs arbitrary: s x n m acts)
  case (Cons c cs)
  obtain more s1 where c: "replay_candle port sid c s = (Inr more, s1)"
    "replay_candles port sid cs (n + 1) (Some (open_time c)) (acts @ more) s1 = (Inr r, s')"
    using Cons.prems(4) by (auto simp: bind_p_eq_Inr)
  have ok: "minute_ok c" "list_all minute_ok cs" using Cons.prems(3) by simp_all
  note one = candle_run [OF Cons.prems(1,2) ok(1) c(1)] and out = candle_outcome [OF Cons.prems(1,2) ok(1) c(1), of v]
  have g: "good s1" "signal_at s1 sid = Inr (signal_step c x)" using one by simp_all
  note IH = Cons.IH [OF g ok(2) c(2)]
  let ?y = "entry_step x c"
  show ?case
  proof (cases "open_track v ?y")
    case None
    then show ?thesis using IH out by (simp split: option.splits)
  next
    case (Some t)
    show ?thesis
    proof (cases "candle_exit ?y c t = None")
      case True
      then show ?thesis using IH out Some by (simp split: option.splits)
    next
      case False
      then obtain req where req: "exit_request ?y c t = Inr req" "outcome_at s1 (sid, v) = Some (outcome_row_of req)"
        using out Some by auto
      have t: "t \<in> set (ls_active_tracks ?y)" "ts_variant t = v" using open_trackD [OF Some] by simp_all
      have gone: "v \<notin> set (active_variants (signal_step c x))"
      proof -
        have "t \<in> set (exits ?y c (ls_active_tracks ?y))" using t(1) False by (simp add: exits_def)
        then have "v \<in> ts_variant ` set (exits ?y c (ls_active_tracks ?y))" using t(2) by blast
        then have "open_track v (signal_step c x) = None"
          unfolding open_track_def find_None_iff signal_step_def Let_def shut_all_tracks by (intro notI, elim exE conjE) simp
        then show ?thesis by (simp add: open_track_None)
      qed
      have np: "ls_status (signal_step c x) \<noteq> PENDING"
      proof -
        have "ls_status ?y \<noteq> PENDING"
        proof
          assume p: "ls_status ?y = PENDING"
          obtain acts1 now s2 where e: "replay_entry port sid x c s = (Inr (acts1, now), s2)"
            using candle_entry [OF c(1) Cons.prems(2)] by blast
          have "signal_shape ?y" using entry_run [OF Cons.prems(1,2) ok(1) e] shape by blast
          then have "ls_active_tracks ?y = []" using p by (simp add: signal_shape_def tracks_fit_def)
          then show False using t(1) by simp
        qed
        then show ?thesis by (simp add: signal_step_def Let_def shut_all_status)
      qed
      have "open_track v (signal_step c x) = None" using gone by (simp add: open_track_None)
      then have "outcome_at s' (sid, v) = Some (outcome_row_of req)"
        using closed_track_stays [OF g ok(2) np _ c(2)] req(2) by simp
      then show ?thesis using Some False req(1) by simp
    qed
  qed
qed simp

end

subsection \<open>Properties\<close>

lemma series_market:
  assumes "pairwise_all follows (c # cs)" "d \<in> set cs"
  shows "c_venue d = c_venue c" "c_interval d = c_interval c"
  using assms
proof (induction cs arbitrary: c)
  case (Cons b bs)
  { case 1 then show ?case using Cons.IH(1) [of b] by (auto simp: follows_def same_market_def) }
  { case 2 then show ?case using Cons.IH(2) [of b] by (auto simp: follows_def same_market_def) }
qed simp_all

lemma series_consecutive:
  assumes "pairwise_all follows cs" "list_all minute_ok cs" "cs \<noteq> [] \<Longrightarrow> open_time (hd cs) = t"
  shows "minutes_from t cs"
  using assms
proof (induction cs arbitrary: t)
  case (Cons c cs)
  have "minutes_from (t + usec_minute) cs"
  proof (rule Cons.IH)
    assume ne: "cs \<noteq> []"
    then have "follows c (hd cs)" using Cons.prems(1) by (cases cs) auto
    moreover have "minute_ok c" "open_time c = t" using Cons.prems(2,3) by simp_all
    ultimately show "open_time (hd cs) = t + usec_minute"
      using candle_minute(1) [of c] by (simp add: follows_def minute_ok_def)
  next
    show "pairwise_all follows cs" using Cons.prems(1) by (cases cs) auto
  qed (use Cons.prems(2) in simp)
  then show ?case using Cons.prems(3) by simp
qed simp

lemma minutes_from_late: "minutes_from t cs \<Longrightarrow> c \<in> set cs \<Longrightarrow> t \<le> open_time c"
proof (induction cs arbitrary: t)
  case (Cons d ds)
  show ?case
  proof (cases "c = d")
    case False
    then have "t + usec_minute \<le> open_time c" using Cons.IH [of "t + usec_minute"] Cons.prems by simp
    then show ?thesis by (simp add: usec_defs)
  qed (use Cons.prems in simp)
qed simp

lemma pending_no_outcome:
  assumes "db_ok db" "get_lifecycle_signal db sid = Inr x" "ls_status x = PENDING"
  shows "find_outcome db sid v = None"
proof -
  obtain r where r: "find_signal db sid = Some r" "x = signal_view db sid r"
    using assms(2) by (auto simp: signal_read_Inr [OF assms(1)])
  have "r_status r = PENDING" using assms(3) r(2) by simp
  then have "untraded db sid" using assms(1) r(1) by (auto simp: db_ok_def sid_ok_def dest!: spec [of _ sid])
  then show ?thesis by (simp add: untraded_def)
qed

lemma first_safe_open_le: "t \<le> first_safe_open t"
proof (cases "t = floor_minute t")
  case False
  have "t mod usec_minute < usec_minute" by (simp add: usec_defs)
  then show ?thesis using False by (simp add: first_safe_open_def Let_def floor_minute_def)
qed (simp add: first_safe_open_def Let_def)

definition case_ready :: "historical_case \<Rightarrow> bool" where
  "case_ready hc \<longleftrightarrow> valid_signal (hc_signal hc) \<and> check_historical_case hc = Inr hc \<and> series_ok (hc_future_candles hc)
     \<and> series_venue (hc_future_candles hc) = SPOT \<and> series_interval (hc_future_candles hc) = ONE_MINUTE
     \<and> list_all (\<lambda>c. is_closed_at c (hc_as_of hc)) (hc_future_candles hc)
     \<and> open_time (hd (hc_future_candles hc)) = first_safe_open (created_at (terms (hc_signal hc)))"

lemma case_facts:
  assumes "case_ready hc"
  shows "list_all (\<lambda>c. minute_ok c \<and> c_venue c = SPOT) (hc_future_candles hc)"
    "minutes_from (first_safe_open (created_at (terms (hc_signal hc)))) (hc_future_candles hc)"
    "list_all minute_ok (hc_future_candles hc)"
proof -
  let ?cs = "hc_future_candles hc"
  have r: "series_ok ?cs" "series_venue ?cs = SPOT" "series_interval ?cs = ONE_MINUTE"
    "open_time (hd ?cs) = first_safe_open (created_at (terms (hc_signal hc)))"
    using assms by (simp_all add: case_ready_def)
  show m: "list_all minute_ok ?cs" by (rule series_minutes [OF r(1,3)])
  obtain c cs where cs: "?cs = c # cs" using r(1) by (cases ?cs) (auto simp: series_ok_def)
  have v: "c_venue c = SPOT" "pairwise_all follows (c # cs)" using r(1,2) by (simp_all add: cs series_venue_def series_ok_def)
  then have "c_venue d = SPOT" if "d \<in> set ?cs" for d
    using series_market(1) [OF v(2), of d] that by (auto simp: cs)
  then show "list_all (\<lambda>c. minute_ok c \<and> c_venue c = SPOT) ?cs" using m by (simp add: list_all_iff)
  show "minutes_from (first_safe_open (created_at (terms (hc_signal hc)))) ?cs"
    by (rule series_consecutive) (use r m in \<open>simp_all add: series_ok_def\<close>)
qed

lemma simulation_agrees:
  assumes "case_ready hc" "pending_view (hc_signal hc) x"
  shows "\<exists>t. simulate_fixed_case hc = Inr t \<and> sim_agrees t x (hc_future_candles hc)"
proof -
  let ?s = "hc_signal hc" and ?cs = "hc_future_candles hc"
  have r: "valid_signal ?s" "created_at (terms ?s) < hc_as_of hc" "series_venue ?cs = SPOT" "series_interval ?cs = ONE_MINUTE"
    "list_all (\<lambda>c. is_closed_at c (hc_as_of hc)) ?cs" "open_time (hd ?cs) = first_safe_open (created_at (terms ?s))"
    using assms(1) by (auto simp: case_ready_def check_historical_case_def split: if_splits)
  note f = case_facts [OF assms(1)]
  have "follows_sim ?s (new_replay ?s FIXED) x"
    using assms(2) by (simp add: follows_sim_def new_replay_def pending_view_def active_variants_def)
  then obtain t r' where t: "run_replay ?cs (hc_as_of hc) (new_replay ?s FIXED) = (Inr t, r')" "sim_agrees t x ?cs"
    using run_agrees [OF _ r(1) f(1), of "new_replay ?s FIXED" x "hc_as_of hc"] f(2) r(2) first_safe_open_le
    by (auto simp: new_replay_def)
  have "\<not> list_ex (\<lambda>c. \<not> is_closed_at c (hc_as_of hc)) ?cs" using r(5) by (simp add: list_ex_iff list_all_iff)
  then show ?thesis using t r by (simp add: simulate_fixed_case_def simulate_case_def)
qed

text \<open>
  C5: the backtest measures what the live engine does.  For a stored pending signal and the
  Spot minutes that follow its creation, the simulation of the fixed track returns a trade, and
  a lifecycle replay of the same minutes over the repository stores the same outcome for the
  fixed track: the same result, the same R and the same time, or no outcome where the simulation
  reports no fill (the signal has expired) or an unresolved trade.
\<close>

theorem backtest_matches_live:
  assumes "repo_reachable db" "get_lifecycle_signal db (signal_id (hc_signal hc)) = Inr x" "pending_view (hc_signal hc) x"
    and "case_ready hc" "get_checkpoint db (lifecycle_mark (signal_id (hc_signal hc))) = None"
    and "lifecycle_replay sqlite_port (signal_id (hc_signal hc)) (hc_future_candles hc) now db = (Inr res, db')"
  shows "\<exists>t. simulate_fixed_case hc = Inr t \<and>
    (case find_outcome db' (signal_id (hc_signal hc)) FIXED of
       Some row \<Rightarrow> bt_result_r t = Some (o_result_r row) \<and> o_closed_at row = whole_seconds (bt_terminal_at t)
         \<and> (bt_outcome t = BT_WIN \<and> o_result row = WIN \<or> bt_outcome t = BT_LOSS \<and> o_result row = LOSS)
     | None \<Rightarrow> bt_result_r t = None \<and> bt_outcome t = (if rr_final_status res = EXPIRED then BT_NO_FILL else BT_UNRESOLVED))"
proof -
  let ?s = "hc_signal hc" and ?cs = "hc_future_candles hc" and ?sid = "signal_id (hc_signal hc)"
  have ok: "db_ok db" by (rule reachable_ok [OF assms(1)])
  note f = case_facts [OF assms(4)]
  have sok: "series_ok ?cs" using assms(4) by (simp add: case_ready_def)
  have p: "ls_status x = PENDING" "ls_created_at x = created_at (terms ?s)" using assms(3) by (simp_all add: pending_view_def)
  have e: "expected_open None x = first_safe_open (created_at (terms ?s))" by (simp add: expected_open_def p)
  have w: "replay_window None x ?cs = ?cs"
    using minutes_from_late [OF f(2)] by (simp add: replay_window_def e filter_id_conv)
  have run: "rr_final_status res = ls_status (fold signal_step ?cs x)"
    using sqlite.replay_run [OF ok assms(2) sok assms(6)] by (simp add: assms(5) w)
  obtain r db1 where r: "replay_candles sqlite_port ?sid ?cs 0 None [] db = (Inr r, db1)" "db1 = db'"
  proof -
    have "bind_p (replay_candles sqlite_port ?sid ?cs 0 None []) (replay_finish sqlite_port ?sid) db = (Inr res, db')"
      using assms(2,6) w unfolding sqlite.replay_eq assms(5) by (auto simp: Let_def replay_finish_def split: sum.splits if_splits)
    then obtain r db1 where r: "replay_candles sqlite_port ?sid ?cs 0 None [] db = (Inr r, db1)"
      "replay_finish sqlite_port ?sid r db1 = (Inr res, db')" by (auto simp: bind_p_eq_Inr)
    moreover have "db1 = db'" using r(2) by (auto simp: replay_finish_def bind_p_eq_Inr split: prod.splits sum.splits)
    ultimately show thesis using that by blast
  qed
  note out = sqlite.candles_outcome [OF ok assms(2) f(3) r(1), of FIXED, unfolded r(2)]
  obtain t where t: "simulate_fixed_case hc = Inr t" "sim_agrees t x ?cs" using simulation_agrees [OF assms(4,3)] by blast
  have none: "outcome_view db (?sid, FIXED) = None"
    using pending_no_outcome [OF ok assms(2) p(1)] by (simp add: outcome_view_def)
  show ?thesis
    using t out none run by (auto simp: sim_agrees_def outcome_view_def outcome_row_of_def split: option.splits)
qed

definition sample_case :: historical_case where
  "sample_case = \<lparr>hc_signal = sample_signal, hc_future_candles = sample_series, hc_as_of = 300000000\<rparr>"

lemma sample_case_ready: "case_ready sample_case"
proof -
  have "first_safe_open 60000000 = 60000000" by (simp add: first_safe_open_def Let_def floor_minute_def usec_defs)
  then show ?thesis
    using sample_signal_valid sample_series_ok
    by (simp add: case_ready_def sample_case_def check_historical_case_def series_venue_def series_interval_def)
      (simp add: sample_series_def sample_signal_def sample_terms_def is_closed_at_def usec_defs)
qed

lemma sample_pending: "pending_view sample_signal sample_view"
proof -
  have rows: "target_rows_at sample_db sample_id = target_rows_for sample_signal"
    using create_effect(8) [OF sample_db_created empty_ok sample_signal_valid, of sample_id]
    by (simp add: sample_id_def sample_signal_def)
  have "map (\<lambda>g. \<lparr>t_ordinal = g_ordinal g, t_price = g_price g\<rparr>) (target_rows_for sample_signal) = targets sample_terms"
    by (simp add: target_rows_for_def sample_signal_def sample_terms_def)
  moreover have "check_signal_terms sample_terms = Inr sample_terms" by (rule sample_terms_ok)
  ultimately have "terms_of sample_view (terms sample_signal)"
    by (simp add: terms_of_def sample_view_def signal_view_def lifecycle_signal_of_def rows)
      (simp add: sample_signal_def sample_terms_def signal_row_of_def Let_def)
  moreover have "signal_shape sample_view" using sample_view_engine by (simp add: engine_signal_def)
  ultimately show ?thesis
    using sample_view_fields by (simp add: pending_view_def signal_shape_def tracks_fit_def)
      (simp add: sample_signal_def sample_terms_def)
qed

theorem backtest_matches_live_witness:
  "\<exists>t res db'. simulate_fixed_case sample_case = Inr t
     \<and> lifecycle_replay sqlite_port (signal_id (hc_signal sample_case)) (hc_future_candles sample_case) 300000000 sample_db = (Inr res, db')"
proof -
  have s: "hc_signal sample_case = sample_signal" "hc_future_candles sample_case = sample_series" "signal_id sample_signal = sample_id"
    by (simp_all add: sample_case_def sample_id_def sample_signal_def)
  obtain res db' where r: "lifecycle_replay sqlite_port sample_id sample_series 300000000 sample_db = (Inr res, db')" by (rule sample_replay)
  have cp: "get_checkpoint sample_db k = None" for k
  proof -
    have "checkpoints sample_db = []"
      using sample_db_created
      by (auto simp: create_signal_def bind_result_eq_Inr insert_signal_row_def empty_database_def
          dest!: checkpoint_frame(1) insert_targets_law(1) split: if_splits)
    then show ?thesis by (simp add: get_checkpoint_def find_checkpoint_def)
  qed
  show ?thesis
    using backtest_matches_live [of sample_db sample_case sample_view 300000000 res db', unfolded s]
      sample_db_reachable sample_view_read sample_pending sample_case_ready cp r by (auto simp: s)
qed

end
