(* ===== verification/PyText.thy ===== *)
theory PyText
  imports Domain
begin

section \<open>Text as Python writes it\<close>

text \<open>
  \<^verbatim>\<open>str\<close> of an integer, of a tuple, and \<^verbatim>\<open>join\<close>: what the reasons and messages of the engines are
  built from.
\<close>

fun nat_text :: "nat \<Rightarrow> string" where
  "nat_text n = (if n < 10 then [digit_char n] else nat_text (n div 10) @ [digit_char (n mod 10)])"

declare nat_text.simps [simp del]

definition int_text :: "int \<Rightarrow> string" where
  "int_text n = (if n < 0 then ''-'' @ nat_text (nat (- n)) else nat_text (nat n))"

fun join_text :: "string \<Rightarrow> string list \<Rightarrow> string" where
  "join_text sep [] = []"
| "join_text sep [x] = x"
| "join_text sep (x # y # ys) = x @ sep @ join_text sep (y # ys)"

definition tuple_text :: "string list \<Rightarrow> string" where
  "tuple_text xs = (case xs of [x] \<Rightarrow> ''('' @ x @ '',)'' | _ \<Rightarrow> ''('' @ join_text '', '' xs @ '')'')"

text \<open>The value of a \<^verbatim>\<open>MarketRegime\<close>.\<close>

definition regime_value :: "market_regime \<Rightarrow> string" where
  "regime_value r = (case r of BULLISH_TREND \<Rightarrow> ''BULLISH_TREND'' | BEARISH_TREND \<Rightarrow> ''BEARISH_TREND'' | RANGE \<Rightarrow> ''RANGE''
     | TRANSITION \<Rightarrow> ''TRANSITION'' | ABNORMALLY_VOLATILE \<Rightarrow> ''ABNORMALLY_VOLATILE'' | NO_RELIABLE_REGIME \<Rightarrow> ''NO_RELIABLE_REGIME'')"

lemma nat_text_not_Nil [simp]: "nat_text n \<noteq> []"
  by (subst nat_text.simps) simp

lemma nat_text_digits: "list_all is_digit (nat_text n)"
proof (induction n rule: nat_text.induct)
  case (1 n)
  then show ?case by (subst nat_text.simps) (auto simp: is_digit_def [abs_def])
qed

end
