(* ===== verification/WalkForward.thy ===== *)
theory WalkForward
  imports Backtest PyText
begin

section \<open>The walk-forward engine\<close>

text \<open>
  \<^verbatim>\<open>backtesting/engine.py\<close> and the policy, fold and report records of \<^verbatim>\<open>backtesting/models.py\<close>.
  The loop over the folds advances by the test size, which the policy's constructor keeps
  positive; it is a \<open>partial_function\<close>, and that it returns is proved.  The text of a
  decimal in a reason is the argument \<open>show_dec\<close>.
\<close>

subsection \<open>Policy and report records\<close>

record walk_policy =
  train_size :: int
  test_size :: int
  purge_size :: int
  minimum_train_trades :: int
  minimum_oos_trades :: int
  minimum_folds :: int
  minimum_regime_trades :: int
  score_thresholds :: "int list"
  primary_score_threshold :: int
  target_win_rate_percent :: decimal
  required_planned_rr :: decimal
  cost_multipliers :: "decimal list"

definition default_walk_policy :: walk_policy where
  "default_walk_policy =
     \<lparr>train_size = 120, test_size = 40, purge_size = 4, minimum_train_trades = 30, minimum_oos_trades = 100,
      minimum_folds = 3, minimum_regime_trades = 20, score_thresholds = [75, 80, 85], primary_score_threshold = 80,
      target_win_rate_percent = 60, required_planned_rr = 2, cost_multipliers = [1, 3 / 2, 2]\<rparr>"

definition check_walk_policy :: "walk_policy \<Rightarrow> walk_policy result" where
  "check_walk_policy p =
     (if list_ex (\<lambda>n. n < 1) [train_size p, test_size p, minimum_train_trades p, minimum_oos_trades p,
           minimum_folds p, minimum_regime_trades p]
      then Inl (DomainValidationError ''Walk-forward sizes and minimums must be positive'')
      else if purge_size p < 0 \<or> score_thresholds p = []
      then Inl (DomainValidationError ''Purge size and score thresholds are invalid'')
      else if sort (remdups (score_thresholds p)) \<noteq> score_thresholds p
      then Inl (DomainValidationError ''Score thresholds must be unique and increasing'')
      else if \<not> list_all (\<lambda>v. 60 \<le> v \<and> v \<le> 100) (score_thresholds p)
      then Inl (DomainValidationError ''Score thresholds must be between 60 and 100'')
      else if primary_score_threshold p \<notin> set (score_thresholds p)
      then Inl (DomainValidationError ''Primary score threshold must be in sensitivity thresholds'')
      else if \<not> (0 < target_win_rate_percent p \<and> target_win_rate_percent p < 100)
      then Inl (DomainValidationError ''Target win rate must be between zero and 100'')
      else if required_planned_rr p < 2 then Inl (DomainValidationError ''Required planned R:R cannot be below 2'')
      else if cost_multipliers p = [] \<or> hd (cost_multipliers p) \<noteq> 1
           \<or> sort (remdups (cost_multipliers p)) \<noteq> cost_multipliers p
      then Inl (DomainValidationError ''Cost multipliers must be unique, increasing, and start at one'')
      else Inr p)"

record walk_fold =
  fd_number :: int
  fd_train_start :: instant
  fd_train_end :: instant
  fd_test_start :: instant
  fd_test_end :: instant
  fd_selected_threshold :: int
  fd_training_resolved :: nat
  fd_testing_resolved :: nat
  fd_testing_net_r :: decimal

record sensitivity_result =
  se_threshold :: int
  se_resolved :: nat
  se_average_r :: "decimal option"
  se_net_r :: decimal

record cost_stress_result =
  cs_multiplier :: decimal
  cs_resolved :: nat
  cs_average_r :: "decimal option"
  cs_net_r :: decimal

record backtest_report =
  br_verdict :: backtest_verdict
  br_variant :: outcome_variant
  br_generated_at :: instant
  br_statistics :: variant_statistics
  br_folds :: "walk_fold list"
  br_sensitivity :: "sensitivity_result list"
  br_cost_stress :: "cost_stress_result list"
  br_regime_counts :: "(market_regime \<times> nat) list"
  br_candidate_count :: nat
  br_no_fill_count :: nat
  br_unresolved_count :: nat
  br_reasons :: "string list"
  br_policy :: walk_policy
  br_run_spec :: run_spec

definition check_backtest_report :: "backtest_report \<Rightarrow> backtest_report result" where
  "check_backtest_report r =
     (if br_candidate_count r < br_no_fill_count r + br_unresolved_count r
      then Inl (DomainValidationError ''Backtest report candidate counts are contradictory'')
      else if br_verdict r \<noteq> PASSED \<and> br_reasons r = []
      then Inl (DomainValidationError ''Non-passing backtest report requires reasons'')
      else Inr r)"

record backtest_comparison =
  bc_fixed :: backtest_report
  bc_managed :: backtest_report
  bc_completed_pairs :: int
  bc_managed_better :: int
  bc_fixed_better :: int
  bc_ties :: int
  bc_unresolved_fixed :: int
  bc_unresolved_managed :: int
  bc_average_managed_delta_r :: "decimal option"

definition check_backtest_comparison :: "backtest_comparison \<Rightarrow> backtest_comparison result" where
  "check_backtest_comparison c =
     (if list_ex (\<lambda>n. n < 0) [bc_completed_pairs c, bc_managed_better c, bc_fixed_better c, bc_ties c,
           bc_unresolved_fixed c, bc_unresolved_managed c]
      then Inl (DomainValidationError ''Backtest comparison counts cannot be negative'')
      else if bc_managed_better c + bc_fixed_better c + bc_ties c \<noteq> bc_completed_pairs c
      then Inl (DomainValidationError ''Backtest comparison pair counts are contradictory'')
      else if (bc_completed_pairs c = 0) \<noteq> (bc_average_managed_delta_r c = None)
      then Inl (DomainValidationError ''Backtest comparison average requires completed pairs'')
      else Inr c)"

subsection \<open>Statistics of a set of trades\<close>

definition trade_category :: "backtest_trade \<Rightarrow> decimal \<Rightarrow> outcome_result" where
  "trade_category t r =
     (if bt_outcome t = BT_WIN then WIN else if bt_outcome t = BT_LOSS then LOSS
      else if r = 0 then BREAK_EVEN else EARLY_EXIT)"

definition trade_sample :: "outcome_variant \<Rightarrow> decimal \<Rightarrow> backtest_trade \<Rightarrow> outcome_sample result" where
  "trade_sample variant multiplier t =
     bind_result (result_at_cost_multiplier t multiplier) (\<lambda>ro. let r = value_or 0 ro in
       check_outcome_sample
         \<lparr>sm_signal_id = bt_signal_id t, sm_variant = variant, sm_result = trade_category t r, sm_result_r = r,
          sm_closed_at = bt_terminal_at t, sm_strategy_version = ''backtest-v0.11.0''\<rparr>)"

definition trade_statistics :: "backtest_trade list \<Rightarrow> instant \<Rightarrow> outcome_variant \<Rightarrow> decimal \<Rightarrow> variant_statistics result" where
  "trade_statistics ts as_of variant multiplier =
     bind_result (map_result (trade_sample variant multiplier) (filter bt_resolved ts)) (\<lambda>samples.
     bind_result (calculate_statistics samples as_of) (\<lambda>report.
       Inr (if variant = FIXED then sr_fixed report else sr_managed report)))"

definition eligible :: "backtest_trade list \<Rightarrow> int \<Rightarrow> backtest_trade list" where
  "eligible ts threshold = filter (\<lambda>t. bt_resolved t \<and> threshold \<le> bt_setup_score t) ts"

subsection \<open>Simulating and validating the trades\<close>

definition case_le :: "historical_case \<Rightarrow> historical_case \<Rightarrow> bool" where
  "case_le a b \<longleftrightarrow> created_at (terms (hc_signal a)) < created_at (terms (hc_signal b))
     \<or> created_at (terms (hc_signal a)) = created_at (terms (hc_signal b)) \<and> signal_id (hc_signal a) \<le> signal_id (hc_signal b)"

definition trade_le :: "backtest_trade \<Rightarrow> backtest_trade \<Rightarrow> bool" where
  "trade_le a b \<longleftrightarrow> bt_created_at a < bt_created_at b
     \<or> bt_created_at a = bt_created_at b \<and> bt_signal_id a \<le> bt_signal_id b"

definition apart :: "outcome_variant \<Rightarrow> backtest_trade \<Rightarrow> backtest_trade \<Rightarrow> bool" where
  "apart variant previous current \<longleftrightarrow> \<not> (variant = MANAGED \<and> bt_created_at current < bt_terminal_at previous)"

definition simulate_cases :: "outcome_variant \<Rightarrow> historical_case list \<Rightarrow> backtest_trade list result" where
  "simulate_cases variant cases =
     (let ordered = sort_by case_le cases in
      if cases \<noteq> ordered then Inl (DomainValidationError ''Historical cases must be chronological'')
      else bind_result (map_result (if variant = FIXED then simulate_fixed_case else simulate_managed_case) ordered) (\<lambda>ts.
        if \<not> pairwise_all (apart variant) ts
        then Inl (DomainValidationError ''Managed historical cases overlap and violate one-active-trade policy'')
        else Inr ts))"

definition validated_trades :: "outcome_variant \<Rightarrow> backtest_trade list \<Rightarrow> instant \<Rightarrow> run_spec \<Rightarrow> backtest_trade list result" where
  "validated_trades variant ts now spec =
     (let ordered = sort_by trade_le ts in
      if ts \<noteq> ordered then Inl (DomainValidationError ''Backtest trades must be chronological'')
      else if \<not> distinct (map bt_signal_id ts) then Inl (DomainValidationError ''Backtest signal IDs must be unique'')
      else if list_ex (\<lambda>t. bt_variant t \<noteq> variant) ts
      then Inl (DomainValidationError ''Backtest trades do not match the selected track variant'')
      else if list_ex (\<lambda>t. now < bt_terminal_at t) ts
      then Inl (DomainValidationError ''Backtest cannot include outcomes after generation time'')
      else if now < coverage_end spec
      then Inl (DomainValidationError ''Backtest generation time precedes dataset coverage end'')
      else if list_ex (\<lambda>t. bt_created_at t < coverage_start spec \<or> coverage_end spec < bt_terminal_at t) ts
      then Inl (DomainValidationError ''Backtest trade falls outside declared dataset coverage'')
      else if list_ex (\<lambda>t. bt_strategy_version t \<noteq> run_strategy_version spec) ts
      then Inl (DomainValidationError ''Backtest mixes undeclared strategy versions'')
      else if \<not> pairwise_all (apart variant) ordered
      then Inl (DomainValidationError ''Managed backtest trades overlap one-active-trade policy'')
      else Inr ordered)"

text \<open>A mapping from thresholds to trades is an association list with distinct keys.\<close>

type_synonym universes = "(int \<times> backtest_trade list) list"

definition universe_at :: "universes \<Rightarrow> int \<Rightarrow> backtest_trade list" where
  "universe_at m k = value_or [] (map_of m k)"

definition validated_sensitivity ::
  "outcome_variant \<Rightarrow> walk_policy \<Rightarrow> universes option \<Rightarrow> backtest_trade list \<Rightarrow> instant \<Rightarrow> run_spec \<Rightarrow> universes option result" where
  "validated_sensitivity variant p given primary_trades now spec =
     (case given of
        None \<Rightarrow> Inr None
      | Some m \<Rightarrow>
        if sort (map fst m) \<noteq> score_thresholds p
        then Inl (DomainValidationError ''Independent sensitivity universes must match every declared score threshold'')
        else bind_result (map_result (\<lambda>threshold.
               bind_result (validated_trades variant (universe_at m threshold) now spec) (\<lambda>ts. Inr (threshold, ts)))
               (score_thresholds p)) (\<lambda>validated.
          if universe_at validated (primary_score_threshold p) \<noteq> primary_trades
          then Inl (DomainValidationError ''Primary sensitivity universe does not match the evaluated trade universe'')
          else Inr (Some validated)))"

definition trades_in_fold_windows :: "backtest_trade list \<Rightarrow> walk_fold list \<Rightarrow> backtest_trade list" where
  "trades_in_fold_windows ts folds =
     filter (\<lambda>t. list_ex (\<lambda>f. fd_test_start f \<le> bt_created_at t \<and> bt_terminal_at t \<le> fd_test_end f) folds) ts"

subsection \<open>The folds\<close>

definition python_slice :: "int \<Rightarrow> int \<Rightarrow> 'a list \<Rightarrow> 'a list" where
  "python_slice a b xs = take (nat (b - a)) (drop (nat a) xs)"

definition make_fold :: "outcome_variant \<Rightarrow> walk_policy \<Rightarrow> backtest_trade list \<Rightarrow> instant \<Rightarrow> int \<Rightarrow> int
    \<Rightarrow> (walk_fold \<times> backtest_trade list \<times> backtest_trade list) result" where
  "make_fold variant p ts now test_start fold_number =
     (let train = python_slice (test_start - purge_size p - train_size p) (test_start - purge_size p) ts;
          test = python_slice test_start (test_start + test_size p) ts;
          training_cutoff = bt_created_at (hd test);
          available_train = filter (\<lambda>t. bt_terminal_at t \<le> training_cutoff) train;
          threshold = primary_score_threshold p;
          test_selected = eligible test threshold
      in bind_result (trade_statistics test_selected now variant 1) (\<lambda>stats.
        Inr (\<lparr>fd_number = fold_number, fd_train_start = bt_created_at (hd train),
              fd_train_end = (if available_train = [] then bt_created_at (hd train)
                              else Max (bt_terminal_at ` set available_train)),
              fd_test_start = bt_created_at (hd test), fd_test_end = Max (bt_terminal_at ` set test),
              fd_selected_threshold = threshold, fd_training_resolved = length (eligible available_train threshold),
              fd_testing_resolved = vs_resolved stats, fd_testing_net_r = net_r stats\<rparr>, test_selected, test)))"

partial_function (option) walk_loop ::
  "outcome_variant \<Rightarrow> walk_policy \<Rightarrow> backtest_trade list \<Rightarrow> instant \<Rightarrow> int \<Rightarrow> int
    \<Rightarrow> walk_fold list \<Rightarrow> backtest_trade list \<Rightarrow> backtest_trade list
    \<Rightarrow> (walk_fold list \<times> backtest_trade list \<times> backtest_trade list) result option" where
  "walk_loop variant p ts now test_start fold_number folds selected all_test =
     (if test_start + test_size p \<le> int (length ts) then
        (case make_fold variant p ts now test_start fold_number of
           Inl e \<Rightarrow> Some (Inl e)
         | Inr (fd, test_selected, test) \<Rightarrow>
             walk_loop variant p ts now (test_start + test_size p) (fold_number + 1)
               (folds @ [fd]) (selected @ test_selected) (all_test @ test))
      else Some (Inr (folds, selected, all_test)))"

definition walk_forward :: "outcome_variant \<Rightarrow> walk_policy \<Rightarrow> backtest_trade list \<Rightarrow> instant
    \<Rightarrow> (walk_fold list \<times> backtest_trade list \<times> backtest_trade list) result option" where
  "walk_forward variant p ts now =
     walk_loop variant p ts now (train_size p + purge_size p) 1 [] [] []"

subsection \<open>Sensitivity, cost stress and verdict\<close>

definition sensitivity_of :: "outcome_variant \<Rightarrow> backtest_trade list \<Rightarrow> int \<Rightarrow> instant \<Rightarrow> sensitivity_result result" where
  "sensitivity_of variant ts threshold now =
     bind_result (trade_statistics (eligible ts threshold) now variant 1) (\<lambda>stats.
       Inr \<lparr>se_threshold = threshold, se_resolved = vs_resolved stats, se_average_r = average_r stats, se_net_r = net_r stats\<rparr>)"

definition cost_stress_of :: "outcome_variant \<Rightarrow> backtest_trade list \<Rightarrow> instant \<Rightarrow> decimal \<Rightarrow> cost_stress_result result" where
  "cost_stress_of variant ts now multiplier =
     bind_result (trade_statistics ts now variant multiplier) (\<lambda>stats.
       Inr \<lparr>cs_multiplier = multiplier, cs_resolved = vs_resolved stats, cs_average_r = average_r stats, cs_net_r = net_r stats\<rparr>)"

definition regime_count :: "backtest_trade list \<Rightarrow> market_regime \<Rightarrow> nat" where
  "regime_count ts r = length (filter (\<lambda>t. bt_resolved t \<and> bt_regime t = r) ts)"

definition all_regimes :: "market_regime list" where
  "all_regimes = [BULLISH_TREND, BEARISH_TREND, RANGE, TRANSITION, ABNORMALLY_VOLATILE, NO_RELIABLE_REGIME]"

definition directional_regimes :: "market_regime list" where
  "directional_regimes = [BULLISH_TREND, BEARISH_TREND]"

text \<open>\<^verbatim>\<open>None\<close> or at most the bound.\<close>

definition not_above :: "decimal \<Rightarrow> decimal option \<Rightarrow> bool" where
  "not_above bound v = (case v of None \<Rightarrow> True | Some x \<Rightarrow> x \<le> bound)"

definition thin_training :: "walk_policy \<Rightarrow> walk_fold list \<Rightarrow> int list" where
  "thin_training p folds = map fd_number (filter (\<lambda>f. int (fd_training_resolved f) < minimum_train_trades p) folds)"

text \<open>The reasons that leave a backtest without a verdict.\<close>

definition evidence_gaps ::
  "walk_policy \<Rightarrow> variant_statistics \<Rightarrow> walk_fold list \<Rightarrow> (market_regime \<Rightarrow> nat) \<Rightarrow> string list" where
  "evidence_gaps p metrics folds regimes =
     (if int (length folds) < minimum_folds p
      then [''only '' @ int_text (int (length folds)) @ '' walk-forward folds; need '' @ int_text (minimum_folds p)] else [])
   @ (if thin_training p folds \<noteq> []
      then [''insufficient resolved training trades in folds '' @ tuple_text (map int_text (thin_training p folds))] else [])
   @ (if int (vs_resolved metrics) < minimum_oos_trades p
      then [''only '' @ int_text (int (vs_resolved metrics)) @ '' out-of-sample trades; need '' @ int_text (minimum_oos_trades p)] else [])
   @ map (\<lambda>r. regime_value r @ '' has '' @ int_text (int (regimes r)) @ '' out-of-sample trades; need '' @ int_text (minimum_regime_trades p))
       (filter (\<lambda>r. int (regimes r) < minimum_regime_trades p) directional_regimes)"

definition unstable_thresholds :: "walk_policy \<Rightarrow> sensitivity_result list \<Rightarrow> int list" where
  "unstable_thresholds p items =
     map se_threshold (filter (\<lambda>i. minimum_regime_trades p \<le> int (se_resolved i) \<and> not_above 0 (se_average_r i)) items)"

definition failed_costs :: "cost_stress_result list \<Rightarrow> decimal list" where
  "failed_costs items = map cs_multiplier (filter (\<lambda>i. not_above 0 (cs_average_r i)) items)"

text \<open>The reasons that fail a backtest with enough evidence.\<close>

definition verdict_failures ::
  "(decimal \<Rightarrow> string) \<Rightarrow> walk_policy \<Rightarrow> variant_statistics \<Rightarrow> sensitivity_result list \<Rightarrow> cost_stress_result list
    \<Rightarrow> backtest_trade list \<Rightarrow> string list" where
  "verdict_failures show_dec p metrics sensitivity cost_stress selected_oos =
     (let target = target_win_rate_percent p in
      (if not_above target (strict_win_rate_percent metrics)
       then [''observed strict win rate does not exceed '' @ show_dec target @ ''%''] else [])
    @ (if not_above target (strict_win_rate_95_low_percent metrics)
       then [''95% lower confidence bound does not exceed '' @ show_dec target @ ''%''] else [])
    @ (if not_above 0 (average_r metrics) \<or> net_r metrics \<le> 0
       then [''out-of-sample expectancy is not positive''] else [])
    @ (if list_ex (\<lambda>t. bt_planned_rr t < required_planned_rr p) selected_oos
       then [''an out-of-sample trade planned less than '' @ show_dec (required_planned_rr p) @ ''R''] else [])
    @ (if unstable_thresholds p sensitivity \<noteq> []
       then [''score-threshold sensitivity is negative at '' @ tuple_text (map int_text (unstable_thresholds p sensitivity))] else [])
    @ (if failed_costs cost_stress \<noteq> []
       then [''expectancy is not positive under cost multipliers ''
               @ tuple_text (map (\<lambda>m. ''Decimal('' @ [CHR 39] @ show_dec m @ [CHR 39] @ '')'') (failed_costs cost_stress))] else []))"

definition backtest_verdict_of ::
  "(decimal \<Rightarrow> string) \<Rightarrow> walk_policy \<Rightarrow> variant_statistics \<Rightarrow> walk_fold list \<Rightarrow> sensitivity_result list \<Rightarrow> cost_stress_result list
    \<Rightarrow> (market_regime \<Rightarrow> nat) \<Rightarrow> backtest_trade list \<Rightarrow> string list \<times> backtest_verdict" where
  "backtest_verdict_of show_dec p metrics folds sensitivity cost_stress regimes selected_oos =
     (let gaps = evidence_gaps p metrics folds regimes;
          failures = verdict_failures show_dec p metrics sensitivity cost_stress selected_oos
      in if gaps \<noteq> [] then (gaps, INCONCLUSIVE)
         else if failures \<noteq> [] then (failures, FAILED) else ([], PASSED))"

subsection \<open>Evaluation and comparison\<close>

definition bind_option :: "'a result option \<Rightarrow> ('a \<Rightarrow> 'b result option) \<Rightarrow> 'b result option" where
  "bind_option m f = (case m of None \<Rightarrow> None | Some (Inl e) \<Rightarrow> Some (Inl e) | Some (Inr x) \<Rightarrow> f x)"

definition evaluate_trades ::
  "(decimal \<Rightarrow> string) \<Rightarrow> outcome_variant \<Rightarrow> walk_policy \<Rightarrow> backtest_trade list \<Rightarrow> instant \<Rightarrow> run_spec \<Rightarrow> universes option
    \<Rightarrow> backtest_report result option" where
  "evaluate_trades show_dec variant p ts now spec given =
     bind_option (Some (validated_trades variant ts now spec)) (\<lambda>ordered.
     bind_option (Some (validated_sensitivity variant p given ordered now spec)) (\<lambda>universes.
     bind_option (walk_forward variant p ordered now) (\<lambda>(folds, selected_oos, all_oos). Some (
     bind_result (trade_statistics selected_oos now variant 1) (\<lambda>metrics.
     bind_result (map_result (\<lambda>threshold. sensitivity_of variant
         (case universes of None \<Rightarrow> all_oos | Some m \<Rightarrow> trades_in_fold_windows (universe_at m threshold) folds) threshold now)
         (score_thresholds p)) (\<lambda>sensitivity.
     bind_result (map_result (cost_stress_of variant selected_oos now) (cost_multipliers p)) (\<lambda>cost_stress.
       let regimes = regime_count selected_oos;
           (reasons, verdict) = backtest_verdict_of show_dec p metrics folds sensitivity cost_stress regimes selected_oos
       in check_backtest_report
            \<lparr>br_verdict = verdict, br_variant = variant, br_generated_at = now, br_statistics = metrics, br_folds = folds,
             br_sensitivity = sensitivity, br_cost_stress = cost_stress,
             br_regime_counts = map (\<lambda>r. (r, regimes r)) (filter (\<lambda>r. regimes r \<noteq> 0) all_regimes),
             br_candidate_count = length ordered,
             br_no_fill_count = length (filter (\<lambda>t. bt_outcome t = BT_NO_FILL) ordered),
             br_unresolved_count = length (filter (\<lambda>t. bt_outcome t = BT_UNRESOLVED) ordered),
             br_reasons = reasons, br_policy = p, br_run_spec = spec\<rparr>)))))))"

definition trades_by_id :: "int \<Rightarrow> backtest_trade list \<Rightarrow> (string \<times> backtest_trade) list" where
  "trades_by_id threshold ts =
     rev (map (\<lambda>t. (bt_signal_id t, t)) (filter (\<lambda>t. threshold \<le> bt_setup_score t) ts))"

definition resolved_id :: "(string \<times> backtest_trade) list \<Rightarrow> string \<Rightarrow> bool" where
  "resolved_id m k = (case map_of m k of None \<Rightarrow> False | Some t \<Rightarrow> bt_resolved t)"

definition id_result :: "(string \<times> backtest_trade) list \<Rightarrow> string \<Rightarrow> decimal" where
  "id_result m k = (case map_of m k of None \<Rightarrow> 0 | Some t \<Rightarrow> value_or 0 (bt_result_r t))"

definition compare_trades ::
  "(decimal \<Rightarrow> string) \<Rightarrow> walk_policy \<Rightarrow> backtest_trade list \<Rightarrow> backtest_trade list \<Rightarrow> instant \<Rightarrow> run_spec
    \<Rightarrow> universes option \<Rightarrow> universes option \<Rightarrow> backtest_comparison result option" where
  "compare_trades show_dec p fixed_trades managed_trades now spec fixed_given managed_given =
     (if map bt_signal_id fixed_trades \<noteq> map bt_signal_id managed_trades
      then Some (Inl (DomainValidationError ''Fixed and managed backtest universes do not match''))
      else if (fixed_given = None) \<noteq> (managed_given = None)
      then Some (Inl (DomainValidationError ''Fixed and managed sensitivity universes must be supplied together''))
      else if (case (fixed_given, managed_given) of
          (Some fm, Some mm) \<Rightarrow> list_ex (\<lambda>k. map bt_signal_id (universe_at fm k) \<noteq> map bt_signal_id (universe_at mm k)) (score_thresholds p)
        | _ \<Rightarrow> False)
      then Some (Inl (DomainValidationError ''Fixed and managed sensitivity universes do not match''))
      else
        bind_option (evaluate_trades show_dec FIXED p fixed_trades now spec fixed_given) (\<lambda>fixed_report.
        bind_option (evaluate_trades show_dec MANAGED p managed_trades now spec managed_given) (\<lambda>managed_report.
        bind_option (walk_forward FIXED p fixed_trades now) (\<lambda>(_, _, fixed_test).
        bind_option (walk_forward MANAGED p managed_trades now) (\<lambda>(_, _, managed_test). Some (
          let threshold = primary_score_threshold p;
              fixed_by_id = trades_by_id threshold fixed_test;
              managed_by_id = trades_by_id threshold managed_test;
              ids = fromkeys (map fst fixed_by_id @ map fst managed_by_id);
              paired_ids = sort (filter (\<lambda>k. resolved_id fixed_by_id k \<and> resolved_id managed_by_id k) ids);
              deltas = map (\<lambda>k. dsub (id_result managed_by_id k) (id_result fixed_by_id k)) paired_ids
          in bind_result (if deltas = [] then Inr None
                 else bind_result (ddiv (dsum deltas) (of_nat (length deltas))) (\<lambda>m. Inr (Some m))) (\<lambda>average.
             check_backtest_comparison
               \<lparr>bc_fixed = fixed_report, bc_managed = managed_report, bc_completed_pairs = int (length deltas),
                bc_managed_better = int (length (filter (\<lambda>d. 0 < d) deltas)),
                bc_fixed_better = int (length (filter (\<lambda>d. d < 0) deltas)),
                bc_ties = int (length (filter (\<lambda>d. d = 0) deltas)),
                bc_unresolved_fixed = int (length (filter (\<lambda>k. resolved_id managed_by_id k \<and> \<not> resolved_id fixed_by_id k) ids)),
                bc_unresolved_managed = int (length (filter (\<lambda>k. resolved_id fixed_by_id k \<and> \<not> resolved_id managed_by_id k) ids)),
                bc_average_managed_delta_r = average\<rparr>)))))))"

definition compare_variants ::
  "(decimal \<Rightarrow> string) \<Rightarrow> walk_policy \<Rightarrow> historical_case list \<Rightarrow> instant \<Rightarrow> run_spec \<Rightarrow> backtest_comparison result option" where
  "compare_variants show_dec p cases now spec =
     bind_option (Some (simulate_cases FIXED cases)) (\<lambda>fixed_trades.
     bind_option (Some (simulate_cases MANAGED cases)) (\<lambda>managed_trades.
       compare_trades show_dec p fixed_trades managed_trades now spec None None))"

subsection \<open>The loop over the folds\<close>

definition walk_policy_ok :: "walk_policy \<Rightarrow> bool" where
  "walk_policy_ok p \<longleftrightarrow> check_walk_policy p = Inr p"

lemma walk_policy_okD:
  assumes "walk_policy_ok p"
  shows "1 \<le> train_size p" "1 \<le> test_size p" "0 \<le> purge_size p" "score_thresholds p \<noteq> []"
    "1 \<le> minimum_folds p" "hd (cost_multipliers p) = 1" "cost_multipliers p \<noteq> []"
  using assms by (auto simp: walk_policy_ok_def check_walk_policy_def split: if_splits)

lemma default_walk_policy_ok: "walk_policy_ok default_walk_policy"
  by (simp add: walk_policy_ok_def check_walk_policy_def default_walk_policy_def)

lemma walk_loop_returns:
  assumes "1 \<le> test_size p"
  shows "\<exists>r. walk_loop variant p ts now start n folds sel every = Some r"
proof (induction "nat (int (length ts) - start)" arbitrary: start n folds sel every rule: less_induct)
  case less
  show ?case
  proof (cases "start + test_size p \<le> int (length ts)")
    case True
    have IH: "\<exists>r. walk_loop variant p ts now (start + test_size p) (n + 1) fs ss es = Some r" for fs ss es
      using less [of "start + test_size p"] True assms by simp
    show ?thesis
    proof (cases "make_fold variant p ts now start n")
      case (Inr q)
      then show ?thesis using IH True by (subst walk_loop.simps) (auto split: prod.split)
    qed (use True in \<open>simp add: walk_loop.simps\<close>)
  qed (simp add: walk_loop.simps)
qed

lemma python_slice_append:
  assumes "0 \<le> a" "a \<le> b" "b \<le> c"
  shows "python_slice a b xs @ python_slice b c xs = python_slice a c xs"
proof -
  have n: "nat (b - a) + nat a = nat b" "nat (c - a) = nat (b - a) + nat (c - b)" using assms by (simp_all add: nat_add_distrib [symmetric])
  have "drop (nat b) xs = drop (nat (b - a)) (drop (nat a) xs)" by (simp add: n)
  then show ?thesis by (simp add: python_slice_def n(2) take_add)
qed

lemma length_slice: "0 \<le> a \<Longrightarrow> a \<le> b \<Longrightarrow> b \<le> int (length xs) \<Longrightarrow> length (python_slice a b xs) = nat (b - a)"
  by (simp add: python_slice_def)

lemma nth_slice: "0 \<le> a \<Longrightarrow> int i < b - a \<Longrightarrow> b \<le> int (length xs) \<Longrightarrow> python_slice a b xs ! i = xs ! (nat a + i)"
  by (simp add: python_slice_def)

lemma eligible_append: "eligible (xs @ ys) k = eligible xs k @ eligible ys k"
  by (simp add: eligible_def)

lemma make_fold_parts:
  assumes "make_fold variant p ts now start n = Inr (f, sel, test)"
  shows "test = python_slice start (start + test_size p) ts" "sel = eligible test (primary_score_threshold p)"
    "fd_number f = n" "fd_test_start f = bt_created_at (hd test)" "fd_test_end f = Max (bt_terminal_at ` set test)"
    "fd_train_start f = bt_created_at (hd (python_slice (start - purge_size p - train_size p) (start - purge_size p) ts))"
    "fd_train_end f \<le> max (fd_train_start f) (fd_test_start f)"
    "fd_selected_threshold f = primary_score_threshold p"
    "\<exists>stats. trade_statistics sel now variant 1 = Inr stats \<and> fd_testing_resolved f = vs_resolved stats \<and> fd_testing_net_r f = net_r stats"
proof -
  show "fd_train_end f \<le> max (fd_train_start f) (fd_test_start f)"
  proof -
    define train where "train = python_slice (start - purge_size p - train_size p) (start - purge_size p) ts"
    define cutoff where "cutoff = bt_created_at (hd test)"
    define av where "av = filter (\<lambda>t. bt_terminal_at t \<le> cutoff) train"
    have f: "fd_test_start f = cutoff" "fd_train_end f = (if av = [] then fd_train_start f else Max (bt_terminal_at ` set av))"
      using assms by (auto simp: make_fold_def Let_def bind_result_eq_Inr av_def cutoff_def train_def)
    have "Max (bt_terminal_at ` set av) \<le> cutoff" if "av \<noteq> []"
    proof -
      have "Max (bt_terminal_at ` set av) \<in> bt_terminal_at ` set av" by (rule Max_in) (use that in simp_all)
      then show ?thesis by (auto simp: av_def)
    qed
    then have "av \<noteq> [] \<Longrightarrow> fd_train_end f \<le> fd_test_start f" using f by (simp only: if_False not_False_eq_True)
    then show ?thesis using f(2) by (cases "av = []") (simp_all add: max.coboundedI2)
  qed
qed (use assms in \<open>auto simp: make_fold_def Let_def bind_result_eq_Inr\<close>)

lemma walk_loop_run:
  assumes "1 \<le> test_size p" "0 \<le> start"
    and "walk_loop variant p ts now start n folds sel every = Some (Inr (folds', sel', every'))"
  shows "\<exists>k fs. folds' = folds @ fs \<and> length fs = k
    \<and> (0 < k \<longrightarrow> start + int k * test_size p \<le> int (length ts))
    \<and> int (length ts) < start + int k * test_size p + test_size p
    \<and> every' = every @ python_slice start (start + int k * test_size p) ts
    \<and> sel' = sel @ eligible (python_slice start (start + int k * test_size p) ts) (primary_score_threshold p)
    \<and> (\<forall>i < k. \<exists>s e. make_fold variant p ts now (start + int i * test_size p) (n + int i) = Inr (fs ! i, s, e))"
  using assms(2,3)
proof (induction "nat (int (length ts) - start)" arbitrary: start n folds sel every rule: less_induct)
  case less
  show ?case
  proof (cases "start + test_size p \<le> int (length ts)")
    case False
    then show ?thesis using less.prems
      by (intro exI [of _ 0] exI [of _ "[]"]) (simp add: walk_loop.simps python_slice_def eligible_def)
  next
    case True
    obtain f s e where f: "make_fold variant p ts now start n = Inr (f, s, e)"
      "walk_loop variant p ts now (start + test_size p) (n + 1) (folds @ [f]) (sel @ s) (every @ e) = Some (Inr (folds', sel', every'))"
      using less.prems(2) True by (subst (asm) walk_loop.simps) (auto split: sum.splits prod.splits)
    note mf = make_fold_parts(1,2) [OF f(1)]
    obtain k fs where IH: "folds' = (folds @ [f]) @ fs" "length fs = k"
      "0 < k \<longrightarrow> start + test_size p + int k * test_size p \<le> int (length ts)"
      "int (length ts) < start + test_size p + int k * test_size p + test_size p"
      "every' = (every @ e) @ python_slice (start + test_size p) (start + test_size p + int k * test_size p) ts"
      "sel' = (sel @ s) @ eligible (python_slice (start + test_size p) (start + test_size p + int k * test_size p) ts) (primary_score_threshold p)"
      "\<forall>i < k. \<exists>s e. make_fold variant p ts now (start + test_size p + int i * test_size p) (n + 1 + int i) = Inr (fs ! i, s, e)"
      using less.hyps [OF _ _ f(2)] less.prems(1) assms(1) True by fastforce
    let ?m = "start + test_size p" and ?z = "start + test_size p + int k * test_size p"
    have z: "start + int (Suc k) * test_size p = ?z" by (simp add: algebra_simps)
    have sl: "python_slice start ?m ts @ python_slice ?m ?z ts = python_slice start ?z ts"
      by (rule python_slice_append) (use less.prems(1) assms(1) in auto)
    have "\<exists>s e. make_fold variant p ts now (start + int i * test_size p) (n + int i) = Inr ((f # fs) ! i, s, e)" if "i < Suc k" for i
    proof (cases i)
      case 0
      then show ?thesis using f(1) by auto
    next
      case (Suc j)
      have eqs: "start + int i * test_size p = start + test_size p + int j * test_size p" "n + int i = n + 1 + int j" "(f # fs) ! i = fs ! j"
        using Suc by (simp_all add: algebra_simps)
      show ?thesis unfolding eqs using IH(7) that Suc by auto
    qed
    moreover have "?z \<le> int (length ts)" using IH(3) True by (cases k) auto
    ultimately show ?thesis
      using IH(1,2,4-6) mf sl
      by (intro exI [of _ "Suc k"] exI [of _ "f # fs"]) (simp only: z, simp add: eligible_append [symmetric])
  qed
qed

lemma trade_le_order: "trade_le a b \<or> trade_le b a" "trade_le a b \<Longrightarrow> trade_le b c \<Longrightarrow> trade_le a c"
  by (auto simp: trade_le_def)

lemma validated_facts:
  assumes "validated_trades variant ts now spec = Inr us"
  shows "us = ts" "distinct (map bt_signal_id ts)"
    "\<And>i j. i < j \<Longrightarrow> j < length ts \<Longrightarrow> bt_created_at (ts ! i) \<le> bt_created_at (ts ! j)"
    "\<And>i j. variant = MANAGED \<Longrightarrow> i < j \<Longrightarrow> j < length ts \<Longrightarrow> bt_terminal_at (ts ! i) \<le> bt_created_at (ts ! j)"
    "\<And>t. t \<in> set ts \<Longrightarrow> bt_variant t = variant \<and> bt_terminal_at t \<le> now \<and> bt_strategy_version t = run_strategy_version spec
      \<and> coverage_start spec \<le> bt_created_at t \<and> bt_terminal_at t \<le> coverage_end spec"
proof -
  have s: "ts = sort_by trade_le ts" and us: "us = ts" and ap: "pairwise_all (apart variant) ts" and d: "distinct (map bt_signal_id ts)"
    using assms by (auto simp: validated_trades_def Let_def split: if_splits)
  show "us = ts" "distinct (map bt_signal_id ts)" by (fact us d)+
  show "bt_variant t = variant \<and> bt_terminal_at t \<le> now \<and> bt_strategy_version t = run_strategy_version spec
      \<and> coverage_start spec \<le> bt_created_at t \<and> bt_terminal_at t \<le> coverage_end spec" if "t \<in> set ts" for t
    using assms that by (auto simp: validated_trades_def Let_def list_ex_iff not_less split: if_splits)
  have "sorted_wrt trade_le (sort_by trade_le ts)"
    by (rule sorted_wrt_sort_by) (use trade_le_order in blast)+
  then have w: "sorted_wrt trade_le ts" using s by simp
  show c: "bt_created_at (ts ! i) \<le> bt_created_at (ts ! j)" if "i < j" "j < length ts" for i j
    using sorted_wrt_nth_less [OF w that] by (auto simp: trade_le_def)
  show "bt_terminal_at (ts ! i) \<le> bt_created_at (ts ! j)" if m: "variant = MANAGED" and ij: "i < j" "j < length ts" for i j
  proof -
    have "apart variant (ts ! i) (ts ! Suc i)" using ap ij by (simp add: pairwise_all_nth)
    then have t: "bt_terminal_at (ts ! i) \<le> bt_created_at (ts ! Suc i)" using m by (simp add: apart_def)
    show ?thesis
    proof (cases "Suc i = j")
      case False
      then show ?thesis using t c [of "Suc i" j] ij by linarith
    qed (use t in simp)
  qed
qed

lemma map_result_label:
  assumes "map_result f xs = Inr ys" and label: "\<And>x y. f x = Inr y \<Longrightarrow> g y = x"
  shows "map g ys = xs"
proof (rule nth_equalityI)
  show "length (map g ys) = length xs" using map_result_Inr_length [OF assms(1)] by simp
  show "map g ys ! i = xs ! i" if "i < length (map g ys)" for i
    using map_result_Inr_length [OF assms(1)] that by (simp add: label [OF map_result_Inr_nth [OF assms(1)]])
qed

lemma returns_bind: "m \<noteq> None \<Longrightarrow> (\<And>x. f x \<noteq> None) \<Longrightarrow> bind_option m f \<noteq> None"
  by (auto simp: bind_option_def split: option.splits sum.splits)

lemma returns_if: "a \<noteq> None \<Longrightarrow> b \<noteq> None \<Longrightarrow> (if P then a else b) \<noteq> None"
  by simp

lemma returns_triple: "(\<And>x y z. f x y z \<noteq> None) \<Longrightarrow> (case q of (x, y, z) \<Rightarrow> f x y z) \<noteq> None"
  by (cases q) simp

subsection \<open>Properties\<close>

text \<open>
  C11: the walk-forward evaluation terminates.  For every policy its constructor accepts, the
  loop over the folds ends for every list of trades, and so do the evaluation of a track and
  the comparison of both tracks: each returns a report or raises.
\<close>

theorem walk_forward_terminates:
  assumes "walk_policy_ok p"
  shows "walk_forward variant p ts now \<noteq> None \<and> evaluate_trades show_dec variant p ts now spec given \<noteq> None
    \<and> compare_trades show_dec p fixed_ts managed_ts now spec fixed_given managed_given \<noteq> None"
proof -
  have w: "walk_forward v p xs now \<noteq> None" for v xs
    using walk_loop_returns [OF walk_policy_okD(2) [OF assms]] by (simp add: walk_forward_def)
  have e: "evaluate_trades show_dec v p xs now spec g \<noteq> None" for v xs g
    unfolding evaluate_trades_def by (intro returns_bind returns_triple option.distinct(2) w)
  have "compare_trades show_dec p fixed_ts managed_ts now spec fixed_given managed_given \<noteq> None"
    unfolding compare_trades_def by (intro returns_if returns_bind returns_triple option.distinct(2) w e)
  then show ?thesis using w e by blast
qed


definition small_policy :: walk_policy where
  "small_policy = default_walk_policy\<lparr>train_size := 1, test_size := 1, purge_size := 0\<rparr>"

definition unfilled_trade :: "int \<Rightarrow> string \<Rightarrow> backtest_trade" where
  "unfilled_trade k sid =
     \<lparr>bt_signal_id = sid, bt_created_at = k, bt_terminal_at = k + 1, bt_side = LONG, bt_regime = BULLISH_TREND,
      bt_variant = MANAGED, bt_setup_score = 80, bt_strategy_version = ''v1'', bt_planned_rr = 2, bt_outcome = BT_NO_FILL,
      bt_result_r = None, bt_entry_price = None, bt_exit_price = None, bt_original_stop = 98, bt_cost_rate = 1 / 100,
      bt_ambiguous = False\<rparr>"

definition small_spec :: run_spec where
  "small_spec = \<lparr>dataset_id = ''d'', coverage_start = 0, coverage_end = 100, run_strategy_version = ''v1'',
     source_coverage = [''SPOT_1m''], excluded_features = [], exhaustive_candidate_scan = True,
     fill_policy = ''conservative-one-minute-v2''\<rparr>"

lemma small_policy_ok: "walk_policy_ok small_policy"
  by (simp add: walk_policy_ok_def check_walk_policy_def default_walk_policy_def small_policy_def)

lemma small_trades_valid:
  "validated_trades MANAGED [unfilled_trade 0 ''a'', unfilled_trade 2 ''b''] 100 small_spec
     = Inr [unfilled_trade 0 ''a'', unfilled_trade 2 ''b'']"
  by (simp add: validated_trades_def Let_def trade_le_def unfilled_trade_def small_spec_def apart_def)

lemma small_walk:
  obtains folds selected all_oos where
    "walk_forward MANAGED small_policy [unfilled_trade 0 ''a'', unfilled_trade 2 ''b''] 100 = Some (Inr (folds, selected, all_oos))"
    "length folds = 1"
proof -
  let ?ts = "[unfilled_trade 0 ''a'', unfilled_trade 2 ''b'']"
  have p: "train_size small_policy = 1" "test_size small_policy = 1" "purge_size small_policy = 0"
    by (simp_all add: small_policy_def)
  obtain report where "calculate_statistics [] 100 = Inr report" using calculate_statistics_total [of "[]" 100] by auto
  then obtain f s e where f: "make_fold MANAGED small_policy ?ts 100 1 1 = Inr (f, s, e)"
    by (simp add: make_fold_def Let_def trade_statistics_def eligible_def python_slice_def p bt_resolved_def unfilled_trade_def)
  have "walk_forward MANAGED small_policy ?ts 100 = Some (Inr ([f], s, e))"
    unfolding walk_forward_def
    by (subst walk_loop.simps) (simp add: p f walk_loop.simps)
  then show thesis by (rule that) simp
qed

theorem walk_forward_terminates_witness:
  "evaluate_trades (\<lambda>_. ''x'') MANAGED small_policy [unfilled_trade 0 ''a'', unfilled_trade 2 ''b''] 100 small_spec None \<noteq> None"
  using walk_forward_terminates [OF small_policy_ok] by blast


text \<open>
  C29: what a pass means.  A report with verdict PASSED has at least the required folds, each
  trained on enough resolved trades, enough resolved out-of-sample trades in all and in both
  directional regimes; its observed win rate and the lower end of its 95% interval exceed the
  target, its mean and net R are positive, also at every cost multiplier, no selected trade
  planned less than the required R, and no threshold with enough trades has a mean R that is
  not positive.  A report with another verdict gives its reasons.
\<close>

theorem passed_means:
  assumes "evaluate_trades show_dec variant p ts now spec given = Some (Inr r)"
  shows "(br_verdict r = PASSED \<longrightarrow>
      minimum_folds p \<le> int (length (br_folds r)) \<and> minimum_oos_trades p \<le> int (vs_resolved (br_statistics r))
    \<and> (\<forall>f \<in> set (br_folds r). minimum_train_trades p \<le> int (fd_training_resolved f))
    \<and> (\<exists>low rate mean. strict_win_rate_95_low_percent (br_statistics r) = Some low \<and> target_win_rate_percent p < low
        \<and> strict_win_rate_percent (br_statistics r) = Some rate \<and> target_win_rate_percent p < rate
        \<and> average_r (br_statistics r) = Some mean \<and> 0 < mean)
    \<and> 0 < net_r (br_statistics r)
    \<and> map cs_multiplier (br_cost_stress r) = cost_multipliers p
    \<and> (\<forall>c \<in> set (br_cost_stress r). \<exists>mean. cs_average_r c = Some mean \<and> 0 < mean)
    \<and> map se_threshold (br_sensitivity r) = score_thresholds p
    \<and> (\<forall>s \<in> set (br_sensitivity r). minimum_regime_trades p \<le> int (se_resolved s) \<longrightarrow> (\<exists>mean. se_average_r s = Some mean \<and> 0 < mean))
    \<and> (\<exists>folds selected every. walk_forward variant p ts now = Some (Inr (folds, selected, every))
        \<and> (\<forall>t \<in> set selected. required_planned_rr p \<le> bt_planned_rr t)
        \<and> (\<forall>g \<in> {BULLISH_TREND, BEARISH_TREND}. minimum_regime_trades p \<le> int (regime_count selected g))))
    \<and> (br_verdict r \<noteq> PASSED \<longrightarrow> br_reasons r \<noteq> [])"
proof -
  obtain ordered universes folds selected every metrics sens costs where e:
    "validated_trades variant ts now spec = Inr ordered" "walk_forward variant p ordered now = Some (Inr (folds, selected, every))"
    "trade_statistics selected now variant 1 = Inr metrics"
    "map_result (\<lambda>threshold. sensitivity_of variant
         (case universes of None \<Rightarrow> every | Some m \<Rightarrow> trades_in_fold_windows (universe_at m threshold) folds) threshold now)
         (score_thresholds p) = Inr sens"
    "map_result (cost_stress_of variant selected now) (cost_multipliers p) = Inr costs"
    and r: "(let regimes = regime_count selected;
           (reasons, verdict) = backtest_verdict_of show_dec p metrics folds sens costs regimes selected
       in check_backtest_report
            \<lparr>br_verdict = verdict, br_variant = variant, br_generated_at = now, br_statistics = metrics, br_folds = folds,
             br_sensitivity = sens, br_cost_stress = costs,
             br_regime_counts = map (\<lambda>r. (r, regimes r)) (filter (\<lambda>r. regimes r \<noteq> 0) all_regimes),
             br_candidate_count = length ordered,
             br_no_fill_count = length (filter (\<lambda>t. bt_outcome t = BT_NO_FILL) ordered),
             br_unresolved_count = length (filter (\<lambda>t. bt_outcome t = BT_UNRESOLVED) ordered),
             br_reasons = reasons, br_policy = p, br_run_spec = spec\<rparr>) = Inr r"
    using assms unfolding evaluate_trades_def
    by (auto simp: bind_option_def bind_result_eq_Inr split: option.splits sum.splits prod.splits)
  note same = validated_facts(1) [OF e(1)]
  obtain reasons verdict where v: "backtest_verdict_of show_dec p metrics folds sens costs (regime_count selected) selected = (reasons, verdict)"
    by (cases "backtest_verdict_of show_dec p metrics folds sens costs (regime_count selected) selected") auto
  have f: "br_verdict r = verdict" "br_statistics r = metrics" "br_folds r = folds" "br_sensitivity r = sens" "br_cost_stress r = costs"
    "br_reasons r = reasons" "verdict \<noteq> PASSED \<longrightarrow> reasons \<noteq> []"
    using r v by (auto simp: Let_def check_backtest_report_def split: if_splits)
  have ms: "map se_threshold sens = score_thresholds p"
    by (rule map_result_label [OF e(4)]) (auto simp: sensitivity_of_def bind_result_eq_Inr)
  have mc: "map cs_multiplier costs = cost_multipliers p"
    by (rule map_result_label [OF e(5)]) (auto simp: cost_stress_of_def bind_result_eq_Inr)
  have above: "\<not> not_above b o1 \<longleftrightarrow> (\<exists>x. o1 = Some x \<and> b < x)" for b o1 by (cases o1) (auto simp: not_above_def)
  show ?thesis
  proof (intro conjI impI)
    assume "br_verdict r = PASSED"
    then have "evidence_gaps p metrics folds (regime_count selected) = []" "verdict_failures show_dec p metrics sens costs selected = []"
      using v f(1) by (auto simp: backtest_verdict_of_def Let_def split: if_splits)
    then have gaps: "minimum_folds p \<le> int (length folds)" "thin_training p folds = []" "minimum_oos_trades p \<le> int (vs_resolved metrics)"
        "filter (\<lambda>g. int (regime_count selected g) < minimum_regime_trades p) directional_regimes = []"
      and fails: "\<not> not_above (target_win_rate_percent p) (strict_win_rate_percent metrics)"
        "\<not> not_above (target_win_rate_percent p) (strict_win_rate_95_low_percent metrics)"
        "\<not> not_above 0 (average_r metrics)" "0 < net_r metrics" "\<not> list_ex (\<lambda>t. bt_planned_rr t < required_planned_rr p) selected"
        "unstable_thresholds p sens = []" "failed_costs costs = []"
      by (auto simp: evidence_gaps_def verdict_failures_def Let_def split: if_splits)
    show "minimum_folds p \<le> int (length (br_folds r))" "minimum_oos_trades p \<le> int (vs_resolved (br_statistics r))" "0 < net_r (br_statistics r)"
      "map cs_multiplier (br_cost_stress r) = cost_multipliers p" "map se_threshold (br_sensitivity r) = score_thresholds p"
      using gaps fails ms mc f by simp_all
    show "\<forall>fd \<in> set (br_folds r). minimum_train_trades p \<le> int (fd_training_resolved fd)"
      using gaps(2) f(3) by (auto simp: thin_training_def filter_empty_conv)
    show "\<exists>low rate mean. strict_win_rate_95_low_percent (br_statistics r) = Some low \<and> target_win_rate_percent p < low
        \<and> strict_win_rate_percent (br_statistics r) = Some rate \<and> target_win_rate_percent p < rate
        \<and> average_r (br_statistics r) = Some mean \<and> 0 < mean"
      using fails(1-3) unfolding above f(2) by blast
    show "\<forall>c \<in> set (br_cost_stress r). \<exists>mean. cs_average_r c = Some mean \<and> 0 < mean"
      using fails(7) unfolding f(5) failed_costs_def by (auto simp: filter_empty_conv above)
    show "\<forall>s \<in> set (br_sensitivity r). minimum_regime_trades p \<le> int (se_resolved s) \<longrightarrow> (\<exists>mean. se_average_r s = Some mean \<and> 0 < mean)"
      using fails(6) unfolding f(4) unstable_thresholds_def by (auto simp: filter_empty_conv above)
    show "\<exists>folds selected every. walk_forward variant p ts now = Some (Inr (folds, selected, every))
        \<and> (\<forall>t \<in> set selected. required_planned_rr p \<le> bt_planned_rr t)
        \<and> (\<forall>g \<in> {BULLISH_TREND, BEARISH_TREND}. minimum_regime_trades p \<le> int (regime_count selected g))"
      using e(2) same gaps(4) fails(5) by (intro exI conjI) (auto simp: list_ex_iff directional_regimes_def not_less split: if_splits)
  next
    assume "br_verdict r \<noteq> PASSED"
    then show "br_reasons r \<noteq> []" using f by simp
  qed
qed

theorem passed_means_witness:
  "\<exists>r. evaluate_trades (\<lambda>_. ''x'') MANAGED small_policy [unfilled_trade 0 ''a'', unfilled_trade 2 ''b''] 100 small_spec None = Some (Inr r)
     \<and> br_verdict r \<noteq> PASSED \<and> br_reasons r \<noteq> []"
proof -
  let ?ts = "[unfilled_trade 0 ''a'', unfilled_trade 2 ''b'']"
  obtain folds selected every where w: "walk_forward MANAGED small_policy ?ts 100 = Some (Inr (folds, selected, every))"
    by (rule small_walk)
  note sound = walk_loop_run [OF _ _ w [unfolded walk_forward_def]]
  have none: "\<not> bt_resolved (unfilled_trade k sid)" for k sid by (simp add: bt_resolved_def unfilled_trade_def)
  have empty: "eligible (python_slice a b ?ts) k = []" for a b k
    using none by (auto simp: eligible_def filter_empty_conv python_slice_def dest!: in_set_takeD in_set_dropD)
  obtain n where "every = python_slice 1 n ?ts" "selected = []"
    using sound by (auto simp: small_policy_def default_walk_policy_def empty)
  moreover obtain report where stats: "calculate_statistics [] 100 = Inr report"
    using calculate_statistics_total [of "[]" 100] by auto
  ultimately have e: "selected = []" "eligible every k = []" for k by (simp_all add: empty)
  obtain reasons verdict metrics sens costs where v:
    "backtest_verdict_of (\<lambda>_. ''x'') small_policy metrics folds sens costs (regime_count []) [] = (reasons, verdict)"
    "trade_statistics [] 100 MANAGED 1 = Inr metrics"
    "map_result (\<lambda>threshold. sensitivity_of MANAGED every threshold 100) (score_thresholds small_policy) = Inr sens"
    "map_result (cost_stress_of MANAGED [] 100) (cost_multipliers small_policy) = Inr costs"
    using stats by (simp add: trade_statistics_def sensitivity_of_def cost_stress_of_def e small_policy_def default_walk_policy_def)
      (metis surj_pair)
  have "evidence_gaps small_policy metrics folds (regime_count []) \<noteq> []"
    by (simp add: evidence_gaps_def directional_regimes_def regime_count_def small_policy_def default_walk_policy_def)
  then have "verdict \<noteq> PASSED" "reasons \<noteq> []" using v(1) by (auto simp: backtest_verdict_of_def Let_def)
  moreover have "bt_outcome (unfilled_trade k sid) = BT_NO_FILL" for k sid by (simp add: unfilled_trade_def)
  ultimately obtain r where r: "evaluate_trades (\<lambda>_. ''x'') MANAGED small_policy ?ts 100 small_spec None = Some (Inr r)" "br_verdict r \<noteq> PASSED"
    by (simp add: evaluate_trades_def bind_option_def small_trades_valid validated_sensitivity_def w e v Let_def
        check_backtest_report_def)
  then show ?thesis using passed_means [OF r(1)] by blast
qed

end
