(* ===== verification/Indicators.thy ===== *)
theory Indicators
  imports MarketData Statistics PyText
begin

section \<open>Technical indicators\<close>

text \<open>
  \<^verbatim>\<open>analysis/indicators.py\<close> and \<^verbatim>\<open>IndicatorSnapshot\<close> of \<^verbatim>\<open>analysis/models.py\<close>: averages, RSI, ADX,
  MACD, bands, VWAP and relative volatility of a candle series in rounded decimal arithmetic.
  A period is a natural number (the code passes constants).

  The lemmas show that every division of the routine has a non-zero divisor on a valid series
  of at least 50 candles, and the ranges of the values.
\<close>

subsection \<open>Averages\<close>

definition mean_of :: "decimal list \<Rightarrow> decimal result" where
  "mean_of xs =
     (if xs = [] then Inl (ValueError ''Cannot average an empty sequence'')
      else ddiv (dsum xs) (of_nat (length xs)))"

fun ema_from :: "decimal \<Rightarrow> decimal \<Rightarrow> decimal list \<Rightarrow> decimal list" where
  "ema_from multiplier previous [] = [previous]"
| "ema_from multiplier previous (x # xs) =
     previous # ema_from multiplier (dadd (dmul (dsub x previous) multiplier) previous) xs"

definition ema_values :: "decimal list \<Rightarrow> nat \<Rightarrow> decimal list result" where
  "ema_values xs period =
     (if period < 1 \<or> length xs < period
      then Inl (ValueError (''EMA '' @ nat_text period @ '' requires at least '' @ nat_text period @ '' values''))
      else bind_result (ddiv 2 (of_nat (period + 1))) (\<lambda>multiplier.
           bind_result (mean_of (take period xs)) (\<lambda>seed. Inr (ema_from multiplier seed (drop period xs)))))"

fun wilder_from :: "nat \<Rightarrow> decimal \<Rightarrow> decimal list \<Rightarrow> decimal list result" where
  "wilder_from period previous [] = Inr [previous]"
| "wilder_from period previous (x # xs) =
     bind_result (ddiv (dadd (dmul previous (of_nat period - 1)) x) (of_nat period)) (\<lambda>next_value.
     bind_result (wilder_from period next_value xs) (\<lambda>rest. Inr (previous # rest)))"

definition wilder :: "decimal list \<Rightarrow> nat \<Rightarrow> decimal list result" where
  "wilder xs period =
     (if length xs < period
      then Inl (ValueError (''Wilder average '' @ nat_text period @ '' requires at least '' @ nat_text period @ '' values''))
      else bind_result (mean_of (take period xs)) (\<lambda>seed. wilder_from period seed (drop period xs)))"

text \<open>\<^verbatim>\<open>zip(xs, ys, strict=True)\<close>.\<close>

definition zip_strict :: "'a list \<Rightarrow> 'b list \<Rightarrow> ('a \<times> 'b) list result" where
  "zip_strict xs ys =
     (if length ys < length xs then Inl (ValueError ''zip() argument 2 is shorter than argument 1'')
      else if length xs < length ys then Inl (ValueError ''zip() argument 2 is longer than argument 1'')
      else Inr (zip xs ys))"

subsection \<open>Ranges, strength and volatility\<close>

definition true_range :: "candle \<Rightarrow> candle \<Rightarrow> decimal" where
  "true_range previous c =
     max (dsub (c_high c) (c_low c))
       (max (dabs (dsub (c_high c) (c_close previous))) (dabs (dsub (c_low c) (c_close previous))))"

definition true_ranges :: "candle_series \<Rightarrow> decimal list" where
  "true_ranges s = dsub (c_high (hd s)) (c_low (hd s)) # pairwise_map true_range s"

definition rsi :: "decimal list \<Rightarrow> nat \<Rightarrow> decimal result" where
  "rsi closes period =
     (let changes = pairwise_map (\<lambda>previous current. dsub current previous) closes;
          gains = map (\<lambda>x. max x 0) changes;
          losses = map (\<lambda>x. max (dneg x) 0) changes
      in bind_result (wilder gains period) (\<lambda>gs.
         bind_result (wilder losses period) (\<lambda>ls.
           let average_gain = last gs; average_loss = last ls in
           if average_loss = 0 then Inr (if 0 < average_gain then 100 else 50)
           else bind_result (ddiv average_gain average_loss) (\<lambda>rs.
                bind_result (ddiv 100 (dadd 1 rs)) (\<lambda>q. Inr (dsub 100 q))))))"

definition plus_move :: "candle \<Rightarrow> candle \<Rightarrow> decimal" where
  "plus_move previous c =
     (let up = dsub (c_high c) (c_high previous); down = dsub (c_low previous) (c_low c)
      in if down < up \<and> 0 < up then up else 0)"

definition minus_move :: "candle \<Rightarrow> candle \<Rightarrow> decimal" where
  "minus_move previous c =
     (let up = dsub (c_high c) (c_high previous); down = dsub (c_low previous) (c_low c)
      in if up < down \<and> 0 < down then down else 0)"

definition dx_value :: "decimal \<Rightarrow> decimal \<Rightarrow> decimal \<Rightarrow> decimal result" where
  "dx_value atr positive negative =
     (if atr = 0 then Inr 0
      else bind_result (ddiv (dmul 100 positive) atr) (\<lambda>plus_di.
           bind_result (ddiv (dmul 100 negative) atr) (\<lambda>minus_di.
             let denominator = dadd plus_di minus_di in
             if denominator = 0 then Inr 0
             else ddiv (dmul 100 (dabs (dsub plus_di minus_di))) denominator)))"

definition adx :: "candle_series \<Rightarrow> nat \<Rightarrow> decimal result" where
  "adx s period =
     bind_result (wilder (tl (true_ranges s)) period) (\<lambda>atrs.
     bind_result (wilder (pairwise_map plus_move s) period) (\<lambda>plus.
     bind_result (wilder (pairwise_map minus_move s) period) (\<lambda>minus.
     bind_result (zip_strict plus minus) (\<lambda>moves.
     bind_result (zip_strict atrs moves) (\<lambda>rows.
     bind_result (map_result (\<lambda>(atr, positive, negative). dx_value atr positive negative) rows) (\<lambda>dx.
       if period \<le> length dx then bind_result (wilder dx period) (\<lambda>ws. Inr (last ws)) else mean_of dx))))))"

definition historical_atr_ratios :: "candle_series \<Rightarrow> nat \<Rightarrow> (decimal \<times> decimal) result" where
  "historical_atr_ratios s period =
     bind_result (wilder (true_ranges s) period) (\<lambda>atrs.
     bind_result (zip_strict atrs (drop (period - 1) (map c_close s))) (\<lambda>rows.
     bind_result (map_result (\<lambda>(atr, close). ddiv atr close) rows) (\<lambda>ratios.
       let ordered = sort (take_last 100 ratios) in
       Inr (last ratios, ordered ! (length ordered div 2)))))"

subsection \<open>The snapshot of a series\<close>

record indicators =
  ema_20 :: decimal
  ema_50 :: decimal
  ema_100 :: "decimal option"
  ema_200 :: "decimal option"
  rsi_14 :: decimal
  macd :: decimal
  macd_signal :: decimal
  macd_histogram :: decimal
  adx_14 :: decimal
  atr_14 :: decimal
  normalized_atr :: decimal
  bollinger_upper :: decimal
  bollinger_middle :: decimal
  bollinger_lower :: decimal
  rolling_vwap :: decimal
  volume_ratio :: decimal
  abnormal_volatility :: bool

text \<open>
  \<^verbatim>\<open>x ** 2\<close> is computed with three more digits before it is rounded to the 28 of the context.
\<close>

definition rnd31 :: "rat \<Rightarrow> rat" where
  "rnd31 x = of_int (round_half_even (x / 10 powi (adjusted x - 30))) * 10 powi (adjusted x - 30)"

definition dsquare :: "decimal \<Rightarrow> decimal" where
  "dsquare x = rnd28 (rnd31 (x * x))"

definition last_of :: "decimal list result \<Rightarrow> decimal result" where
  "last_of r = bind_result r (\<lambda>xs. Inr (last xs))"

definition optional_ema :: "decimal list \<Rightarrow> nat \<Rightarrow> decimal option result" where
  "optional_ema closes period =
     (if period \<le> length closes then bind_result (last_of (ema_values closes period)) (\<lambda>x. Inr (Some x)) else Inr None)"

definition macd_series :: "decimal list \<Rightarrow> decimal list result" where
  "macd_series closes =
     bind_result (ema_values closes 12) (\<lambda>fast.
     bind_result (ema_values closes 26) (\<lambda>slow.
     bind_result (zip_strict (drop (length fast - length slow) fast) slow) (\<lambda>rows.
       Inr (map (\<lambda>(l, r). dsub l r) rows))))"

definition typical_volume :: "candle \<Rightarrow> decimal" where
  "typical_volume c = dmul (dquot (dadd (dadd (c_high c) (c_low c)) (c_close c)) 3) (c_volume c)"

definition rolling_vwap_of :: "candle_series \<Rightarrow> decimal result" where
  "rolling_vwap_of s =
     (let volume_sum = dsum (take_last 20 (map c_volume s)) in
      if volume_sum = 0 then Inr (c_close (last s))
      else ddiv (dsum (map typical_volume (take_last 20 s))) volume_sum)"

definition calculate_indicators :: "candle_series \<Rightarrow> indicators result" where
  "calculate_indicators s =
     (if length s < 50
      then Inl (ValueError (interval_value (series_interval s) @ '' analysis requires 50 completed candles''))
      else
        let closes = map c_close s; volumes = map c_volume s in
        bind_result (last_of (ema_values closes 20)) (\<lambda>e20.
        bind_result (last_of (ema_values closes 50)) (\<lambda>e50.
        bind_result (optional_ema closes 100) (\<lambda>e100.
        bind_result (optional_ema closes 200) (\<lambda>e200.
        bind_result (macd_series closes) (\<lambda>macds.
        bind_result (last_of (ema_values macds 9)) (\<lambda>signal_line.
        bind_result (last_of (wilder (true_ranges s) 14)) (\<lambda>atr.
        bind_result (mean_of (take_last 20 closes)) (\<lambda>middle.
        bind_result (mean_of (map (\<lambda>x. dsquare (dsub x middle)) (take_last 20 closes))) (\<lambda>variance.
        bind_result (dsqrt variance) (\<lambda>deviation.
        bind_result (rolling_vwap_of s) (\<lambda>vwap.
        bind_result (mean_of (take_last 20 volumes)) (\<lambda>average_volume.
        bind_result (historical_atr_ratios s 14) (\<lambda>(normalized, median_atr).
        bind_result (rsi closes 14) (\<lambda>strength.
        bind_result (adx s 14) (\<lambda>trend.
        bind_result (if average_volume = 0 then Inr 0 else ddiv (last volumes) average_volume) (\<lambda>ratio.
          Inr \<lparr>ema_20 = e20, ema_50 = e50, ema_100 = e100, ema_200 = e200, rsi_14 = strength,
               macd = last macds, macd_signal = signal_line, macd_histogram = dsub (last macds) signal_line,
               adx_14 = trend, atr_14 = atr, normalized_atr = normalized,
               bollinger_upper = dadd middle (dmul 2 deviation), bollinger_middle = middle,
               bollinger_lower = dsub middle (dmul 2 deviation), rolling_vwap = vwap, volume_ratio = ratio,
               abnormal_volatility = (0 < median_atr \<and> dmul median_atr (5 / 2) < normalized)\<rparr>)))))))))))))))))"

subsection \<open>Ranges of sums and averages\<close>

lemma dsum_from_pos: "0 \<le> a \<Longrightarrow> xs \<noteq> [] \<Longrightarrow> (\<And>x. x \<in> set xs \<Longrightarrow> 0 < x) \<Longrightarrow> 0 < dsum_from a xs"
proof (induction xs arbitrary: a)
  case (Cons x xs)
  have "0 < dadd a x" using Cons.prems(1,3) by (simp add: dadd_def dec.pos add_nonneg_pos)
  then show ?case using Cons by (cases xs) (auto intro: less_imp_le)
qed simp

lemma mean_of_Inr: "xs \<noteq> [] \<Longrightarrow> mean_of xs = Inr (dquot (dsum xs) (of_nat (length xs)))"
  by (simp add: mean_of_def)

lemma quotient_nonneg: "0 \<le> x \<Longrightarrow> 0 < y \<Longrightarrow> 0 \<le> dquot x y"
  by (simp add: dquot_def dec.nonneg)

lemma mean_of_nonneg: "mean_of xs = Inr m \<Longrightarrow> (\<And>x. x \<in> set xs \<Longrightarrow> 0 \<le> x) \<Longrightarrow> 0 \<le> m"
  by (auto simp: mean_of_def ddiv_eq_Inr split: if_splits intro!: quotient_nonneg dsum_nonneg)

lemma mean_of_pos: "mean_of xs = Inr m \<Longrightarrow> (\<And>x. x \<in> set xs \<Longrightarrow> 0 < x) \<Longrightarrow> 0 < m"
  by (auto simp: mean_of_def ddiv_eq_Inr dquot_sign dsum_def split: if_splits intro!: dsum_from_pos [OF order.refl])

lemma rnd28_hundreds: "int k \<le> 10 ^ 20 \<Longrightarrow> rnd28 (100 * of_nat k) = 100 * of_nat k"
  using rnd28_exact [OF dec28_of_int [of "100 * int k"]] by simp

lemma dsum_from_hundred:
  assumes "a \<le> 100 * of_nat k" "\<And>x. x \<in> set xs \<Longrightarrow> x \<le> 100" "int (k + length xs) \<le> 10 ^ 20"
  shows "dsum_from a xs \<le> 100 * of_nat (k + length xs)"
  using assms
proof (induction xs arbitrary: a k)
  case (Cons x xs)
  have "a + x \<le> 100 * of_nat (Suc k)" using Cons.prems(1) Cons.prems(2) [of x] by simp
  then have "dadd a x \<le> 100 * of_nat (Suc k)"
    unfolding dadd_def by (rule dec.upper [OF rnd28_hundreds, rotated]) (use Cons.prems(3) in simp)
  then show ?case using Cons.IH [of "dadd a x" "Suc k"] Cons.prems by simp
qed simp

lemma quotient_hundred:
  assumes "x \<le> 100 * of_nat n" "0 < n"
  shows "dquot x (of_nat n) \<le> 100"
  unfolding dquot_def by (rule dec.upper) (use assms in \<open>simp_all add: dec_eval divide_le_eq\<close>)

lemma mean_of_hundred:
  assumes "mean_of xs = Inr m" "\<And>x. x \<in> set xs \<Longrightarrow> x \<le> 100" "int (length xs) \<le> 10 ^ 20"
  shows "m \<le> 100"
  using assms dsum_from_hundred [of 0 0 xs] quotient_hundred [of "dsum xs" "length xs"]
  by (auto simp: mean_of_def ddiv_eq_Inr dsum_def split: if_splits)

lemma length_ema_from [simp]: "length (ema_from m a xs) = Suc (length xs)"
  by (induction xs arbitrary: a) auto

lemma ema_values_ok:
  assumes "1 \<le> period" "period \<le> length xs"
  shows "\<exists>ys. ema_values xs period = Inr ys \<and> length ys = Suc (length xs - period)"
proof -
  have "take period xs \<noteq> []" using assms by (cases xs) auto
  moreover have "(1 + rat_of_nat period) \<noteq> 0" by linarith
  ultimately show ?thesis using assms by (simp add: ema_values_def mean_of_Inr)
qed

lemma wilder_from_ok: "0 < period \<Longrightarrow> \<exists>ys. wilder_from period a xs = Inr ys \<and> length ys = Suc (length xs)"
proof (induction xs arbitrary: a)
  case (Cons x xs)
  obtain ys where "wilder_from period (dquot (dadd (dmul a (of_nat period - 1)) x) (of_nat period)) xs = Inr ys"
    "length ys = Suc (length xs)" using Cons by blast
  then show ?case using Cons.prems by simp
qed simp

lemma wilder_ok:
  assumes "1 \<le> period" "period \<le> length xs"
  shows "\<exists>ys. wilder xs period = Inr ys \<and> length ys = Suc (length xs - period)"
proof -
  have "take period xs \<noteq> []" using assms by (cases xs) auto
  then show ?thesis using assms wilder_from_ok [of period _ "drop period xs"] by (simp add: wilder_def mean_of_Inr)
qed

lemma wilder_from_range:
  assumes "0 < period" "wilder_from period a xs = Inr ys" "0 \<le> a" "\<And>x. x \<in> set xs \<Longrightarrow> 0 \<le> x" "y \<in> set ys"
  shows "0 \<le> y \<and> (a \<le> 100 \<and> (\<forall>x \<in> set xs. x \<le> 100) \<and> int period \<le> 10 ^ 20 \<longrightarrow> y \<le> 100)"
  using assms
proof (induction xs arbitrary: a ys)
  case (Cons x xs)
  let ?s = "dadd (dmul a (of_nat period - 1)) x"
  let ?n = "dquot ?s (of_nat period)"
  obtain zs where zs: "wilder_from period ?n xs = Inr zs" "ys = a # zs"
    using Cons.prems(1,2) by (auto simp: bind_result_eq_Inr ddiv_eq_Inr)
  have p1: "(0 :: rat) \<le> of_nat period - 1" using Cons.prems(1) by (cases period) auto
  have x: "0 \<le> x" using Cons.prems(4) by simp
  have s: "0 \<le> ?s" using Cons.prems(3) p1 x by (simp add: dadd_def dmul_def dec.nonneg)
  have n: "0 \<le> ?n" by (rule quotient_nonneg [OF s]) (use Cons.prems(1) in simp)
  have step: "?n \<le> 100" if h: "a \<le> 100" "x \<le> 100" "int period \<le> 10 ^ 20"
  proof -
    obtain q where q: "period = Suc q" using Cons.prems(1) by (cases period) auto
    have "a * of_nat q \<le> 100 * of_nat q" using h(1) by (intro mult_right_mono) simp_all
    then have "dmul a (of_nat period - 1) \<le> 100 * of_nat q"
      unfolding dmul_def q by (intro dec.upper rnd28_hundreds) (use h(3) q in simp_all)
    then have "dmul a (of_nat period - 1) + x \<le> 100 * of_nat period" using h(2) q by simp
    then have "?s \<le> 100 * of_nat period" unfolding dadd_def by (intro dec.upper rnd28_hundreds h(3))
    then show ?thesis by (rule quotient_hundred [OF _ Cons.prems(1)])
  qed
  show ?case
  proof (cases "y \<in> set zs")
    case True
    have "0 \<le> y \<and> (?n \<le> 100 \<and> (\<forall>x \<in> set xs. x \<le> 100) \<and> int period \<le> 10 ^ 20 \<longrightarrow> y \<le> 100)"
      by (rule Cons.IH [OF Cons.prems(1) zs(1) n _ True]) (use Cons.prems(4) in simp)
    then show ?thesis using step by auto
  next
    case False
    then show ?thesis using Cons.prems(3,5) zs(2) by auto
  qed
qed (auto simp: bind_result_eq_Inr)

lemma wilder_parts:
  assumes "1 \<le> period" "wilder xs period = Inr ys"
  obtains a where "period \<le> length xs" "mean_of (take period xs) = Inr a" "wilder_from period a (drop period xs) = Inr ys"
  using assms by (auto simp: wilder_def bind_result_eq_Inr split: if_splits)

lemma wilder_range:
  assumes "1 \<le> period" "wilder xs period = Inr ys" "\<And>x. x \<in> set xs \<Longrightarrow> 0 \<le> x" "y \<in> set ys"
  shows "0 \<le> y" "(\<And>x. x \<in> set xs \<Longrightarrow> x \<le> 100) \<Longrightarrow> int period \<le> 10 ^ 20 \<Longrightarrow> y \<le> 100"
proof -
  obtain a where a: "period \<le> length xs" "mean_of (take period xs) = Inr a" "wilder_from period a (drop period xs) = Inr ys"
    by (rule wilder_parts [OF assms(1,2)])
  have a0: "0 \<le> a" by (rule mean_of_nonneg [OF a(2)]) (use assms(3) in \<open>auto dest: in_set_takeD\<close>)
  have r: "0 \<le> y \<and> (a \<le> 100 \<and> (\<forall>x \<in> set (drop period xs). x \<le> 100) \<and> int period \<le> 10 ^ 20 \<longrightarrow> y \<le> 100)"
    by (rule wilder_from_range [OF _ a(3) a0 _ assms(4)]) (use assms(1,3) in \<open>auto dest: in_set_dropD\<close>)
  show "0 \<le> y" using r by blast
  assume h: "\<And>x. x \<in> set xs \<Longrightarrow> x \<le> 100" "int period \<le> 10 ^ 20"
  have "a \<le> 100" by (rule mean_of_hundred [OF a(2)]) (use h a(1) in \<open>auto dest: in_set_takeD\<close>)
  then show "y \<le> 100" using r h by (auto dest: in_set_dropD)
qed

subsection \<open>Every routine returns, within its range\<close>

lemma pairwise_map_elem: "x \<in> set (pairwise_map f xs) \<Longrightarrow> \<exists>a b. a \<in> set xs \<and> b \<in> set xs \<and> x = f a b"
  by (induction f xs rule: pairwise_map.induct) auto

lemma map_result_ok:
  assumes "\<And>x. x \<in> set xs \<Longrightarrow> \<exists>y. f x = Inr y \<and> P y"
  shows "\<exists>ys. map_result f xs = Inr ys \<and> length ys = length xs \<and> (\<forall>y \<in> set ys. P y)"
  using assms
proof (induction xs)
  case (Cons x xs)
  obtain y where y: "f x = Inr y" "P y" using Cons.prems [of x] by auto
  obtain ys where ys: "map_result f xs = Inr ys" "length ys = length xs" "\<forall>y \<in> set ys. P y" using Cons by auto
  show ?case using y ys by simp
qed simp

lemma dmul_hundred: "dmul 100 (rnd28 x) = 100 * rnd28 x"
proof -
  obtain c e where c: "\<bar>c\<bar> < 10 ^ 28" "rnd28 x = of_int c * 10 powi e" using dec28_rnd28 [of x] by (auto simp: dec28_def)
  have "100 * rnd28 x = of_int c * 10 powi (e + 2)" using c(2) by (simp add: power_int_add)
  then show ?thesis unfolding dmul_def by (intro rnd28_exact dec28I [OF c(1)])
qed

lemma dx_value_ok:
  assumes "0 \<le> atr" "0 \<le> p" "0 \<le> n"
  shows "\<exists>x. dx_value atr p n = Inr x \<and> 0 \<le> x \<and> x \<le> 100"
proof (cases "atr = 0")
  case False
  then have atr: "0 < atr" using assms(1) by simp
  define a where "a = dquot (dmul 100 p) atr"
  define b where "b = dquot (dmul 100 n) atr"
  have ab: "0 \<le> a" "0 \<le> b" unfolding a_def b_def
    using assms atr by (auto intro!: quotient_nonneg simp: dmul_def dec.nonneg)
  have eq: "dx_value atr p n = (if dadd a b = 0 then Inr 0 else ddiv (dmul 100 (dabs (dsub a b))) (dadd a b))"
    using False by (simp add: dx_value_def a_def b_def Let_def)
  show ?thesis
  proof (cases "dadd a b = 0")
    case False
    have den: "0 < dadd a b" using False ab by (simp add: dadd_def dec.pos dec.rnd_eq_0)
    have abs: "dabs (dsub a b) = rnd28 \<bar>a - b\<bar>" by (simp add: dabs_def dsub_def dec.abs_rnd dec.rnd_idem)
    have le: "rnd28 \<bar>a - b\<bar> \<le> dadd a b" unfolding dadd_def by (rule rnd28_mono) (use ab in linarith)
    have "0 \<le> rnd28 \<bar>a - b\<bar>" by (simp add: dec.nonneg)
    then have "0 \<le> dquot (dmul 100 (rnd28 \<bar>a - b\<bar>)) (dadd a b)" by (intro quotient_nonneg den) (simp add: dmul_hundred)
    moreover have "dquot (dmul 100 (rnd28 \<bar>a - b\<bar>)) (dadd a b) \<le> 100"
      unfolding dmul_hundred dquot_def by (rule dec.upper) (use le den in \<open>simp_all add: dec_eval divide_le_eq\<close>)
    ultimately show ?thesis using False unfolding eq abs by simp
  qed (simp add: eq)
qed (simp add: dx_value_def)

lemma true_range_nonneg: "candle_ok c \<Longrightarrow> 0 \<le> true_range p c"
  using candle_okD(4,5) [of c] by (simp add: true_range_def dsub_def dec.nonneg le_max_iff_disj)

lemma true_ranges_facts:
  assumes "series_ok s"
  shows "length (true_ranges s) = length s" "\<And>x. x \<in> set (true_ranges s) \<Longrightarrow> 0 \<le> x"
proof -
  have ne: "s \<noteq> []" and ok: "\<And>c. c \<in> set s \<Longrightarrow> candle_ok c" using assms by (auto simp: series_ok_def list_all_iff)
  show "length (true_ranges s) = length s" using ne by (cases s) (simp_all add: true_ranges_def)
  have "0 \<le> dsub (c_high (hd s)) (c_low (hd s))" using candle_okD(4,5) [OF ok [of "hd s"]] ne by (simp add: dsub_def dec.nonneg)
  then show "0 \<le> x" if "x \<in> set (true_ranges s)" for x
    using that ok by (auto simp: true_ranges_def true_range_nonneg dest!: pairwise_map_elem)
qed

lemma moves_nonneg: "0 \<le> plus_move p c" "0 \<le> minus_move p c"
  by (simp_all add: plus_move_def minus_move_def Let_def)

lemma adx_ok:
  assumes "series_ok s" "1 \<le> period" "period < length s" "int period \<le> 10 ^ 20"
  shows "\<exists>x. adx s period = Inr x \<and> 0 \<le> x \<and> x \<le> 100"
proof -
  note tr = true_ranges_facts [OF assms(1)]
  let ?n = "Suc (length s - 1 - period)"
  have le: "period \<le> length s - Suc 0" using assms(3) by simp
  obtain atrs where a: "wilder (tl (true_ranges s)) period = Inr atrs" "length atrs = ?n"
    using wilder_ok [OF assms(2), of "tl (true_ranges s)"] tr(1) le by auto
  obtain plus where p: "wilder (pairwise_map plus_move s) period = Inr plus" "length plus = ?n"
    using wilder_ok [OF assms(2), of "pairwise_map plus_move s"] le by auto
  obtain minus where m: "wilder (pairwise_map minus_move s) period = Inr minus" "length minus = ?n"
    using wilder_ok [OF assms(2), of "pairwise_map minus_move s"] le by auto
  have nonneg: "0 \<le> x" if "x \<in> set atrs \<or> x \<in> set plus \<or> x \<in> set minus" for x
  proof -
    have "set (tl (true_ranges s)) \<subseteq> set (true_ranges s)" by (cases "true_ranges s") auto
    then have "x \<in> set atrs \<Longrightarrow> 0 \<le> x"
      by (rule_tac wilder_range(1) [OF assms(2) a(1)]) (use tr(2) in blast)+
    moreover have "x \<in> set plus \<Longrightarrow> 0 \<le> x"
      by (rule wilder_range(1) [OF assms(2) p(1)]) (auto simp: moves_nonneg dest!: pairwise_map_elem)
    moreover have "x \<in> set minus \<Longrightarrow> 0 \<le> x"
      by (rule wilder_range(1) [OF assms(2) m(1)]) (auto simp: moves_nonneg dest!: pairwise_map_elem)
    ultimately show ?thesis using that by blast
  qed
  have "\<exists>dx. map_result (\<lambda>(atr, positive, negative). dx_value atr positive negative) (zip atrs (zip plus minus)) = Inr dx
      \<and> length dx = length (zip atrs (zip plus minus)) \<and> (\<forall>y \<in> set dx. 0 \<le> y \<and> y \<le> 100)"
    by (rule map_result_ok) (auto intro!: dx_value_ok nonneg elim!: in_set_zipE)
  then obtain dx where dx: "map_result (\<lambda>(atr, positive, negative). dx_value atr positive negative) (zip atrs (zip plus minus)) = Inr dx"
    "length dx = ?n" "\<forall>y \<in> set dx. 0 \<le> y \<and> y \<le> 100" using a(2) p(2) m(2) by auto
  have eq: "adx s period = (if period \<le> length dx then bind_result (wilder dx period) (\<lambda>ws. Inr (last ws)) else mean_of dx)"
    using a p m dx(1) by (simp add: adx_def zip_strict_def)
  show ?thesis
  proof (cases "period \<le> length dx")
    case True
    obtain ws where w: "wilder dx period = Inr ws" "length ws = Suc (length dx - period)" using wilder_ok [OF assms(2) True] by auto
    then have "last ws \<in> set ws" by (intro last_in_set) auto
    then show ?thesis using True eq w(1) wilder_range [OF assms(2) w(1)] dx(3) assms(3,4) by auto
  next
    case False
    obtain v where v: "mean_of dx = Inr v" using mean_of_Inr [of dx] dx(2) by (cases dx) auto
    have "0 \<le> v" by (rule mean_of_nonneg [OF v]) (use dx(3) in simp)
    moreover have "v \<le> 100" by (rule mean_of_hundred [OF v]) (use dx(3) False assms(4) in simp_all)
    ultimately show ?thesis using False eq v by simp
  qed
qed

lemma rsi_ok:
  assumes "1 \<le> period" "period < length closes"
  shows "\<exists>x. rsi closes period = Inr x \<and> 0 \<le> x \<and> x \<le> 100"
proof -
  let ?ch = "pairwise_map (\<lambda>previous current. dsub current previous) closes"
  let ?g = "map (\<lambda>x. max x 0) ?ch" and ?l = "map (\<lambda>x. max (dneg x) 0) ?ch"
  have le: "period \<le> length closes - Suc 0" using assms(2) by simp
  obtain gs where g: "wilder ?g period = Inr gs" "length gs = Suc (length ?g - period)"
    using wilder_ok [OF assms(1), of ?g] le by auto
  obtain ls where l: "wilder ?l period = Inr ls" "length ls = Suc (length ?l - period)"
    using wilder_ok [OF assms(1), of ?l] le by auto
  have "last gs \<in> set gs" "last ls \<in> set ls" using g(2) l(2) by (auto intro!: last_in_set)
  moreover have "0 \<le> x" if "x \<in> set gs" for x by (rule wilder_range(1) [OF assms(1) g(1) _ that]) auto
  moreover have "0 \<le> x" if "x \<in> set ls" for x by (rule wilder_range(1) [OF assms(1) l(1) _ that]) auto
  ultimately have pos: "0 \<le> last gs" "0 \<le> last ls" by blast+
  show ?thesis
  proof (cases "last ls = 0")
    case False
    define rs where "rs = dquot (last gs) (last ls)"
    have rs: "0 \<le> rs" unfolding rs_def using pos False by (intro quotient_nonneg) simp_all
    have one: "1 \<le> dadd 1 rs" unfolding dadd_def by (rule dec.lower) (use rs in \<open>simp_all add: dec_eval\<close>)
    define q where "q = dquot 100 (dadd 1 rs)"
    have q: "0 \<le> q" "q \<le> 100"
    proof -
      show "0 \<le> q" unfolding q_def using one by (intro quotient_nonneg) simp_all
      show "q \<le> 100" unfolding q_def dquot_def by (rule dec.upper) (use one in \<open>simp_all add: dec_eval divide_le_eq\<close>)
    qed
    have "0 \<le> dsub 100 q" "dsub 100 q \<le> 100"
      using q by (simp add: dsub_def dec.nonneg) (simp add: dsub_def, rule dec.upper, use q in \<open>simp_all add: dec_eval\<close>)
    moreover have "rsi closes period = Inr (dsub 100 q)"
      using False one g(1) l(1) by (simp add: rsi_def Let_def rs_def q_def)
    ultimately show ?thesis by simp
  qed (use g(1) l(1) in \<open>simp add: rsi_def Let_def\<close>)
qed

lemma historical_atr_ratios_ok:
  assumes "series_ok s" "1 \<le> period" "period \<le> length s"
  shows "\<exists>r m. historical_atr_ratios s period = Inr (r, m) \<and> 0 \<le> r"
proof -
  note tr = true_ranges_facts [OF assms(1)]
  have ok: "\<And>c. c \<in> set s \<Longrightarrow> 0 < c_close c" using assms(1) by (auto simp: series_ok_def list_all_iff candle_okD)
  obtain atrs where a: "wilder (true_ranges s) period = Inr atrs" "length atrs = Suc (length s - period)"
    using wilder_ok [OF assms(2), of "true_ranges s"] tr(1) assms(3) by auto
  have a0: "0 \<le> x" if "x \<in> set atrs" for x by (rule wilder_range(1) [OF assms(2) a(1) _ that]) (rule tr(2))
  let ?cs = "drop (period - 1) (map c_close s)"
  have c0: "0 < x" if "x \<in> set ?cs" for x using in_set_dropD [OF that] ok by auto
  have "\<exists>rs. map_result (\<lambda>(atr, close). ddiv atr close) (zip atrs ?cs) = Inr rs
      \<and> length rs = length (zip atrs ?cs) \<and> (\<forall>y \<in> set rs. 0 \<le> y)"
  proof (rule map_result_ok)
    fix row assume "row \<in> set (zip atrs ?cs)"
    moreover obtain x y where row: "row = (x, y)" by (cases row)
    ultimately have "0 \<le> x" "0 < y" using a0 c0 set_zip_leftD set_zip_rightD by fast+
    then show "\<exists>z. (case row of (atr, close) \<Rightarrow> ddiv atr close) = Inr z \<and> 0 \<le> z" using row by (simp add: quotient_nonneg)
  qed
  then obtain rs where r: "map_result (\<lambda>(atr, close). ddiv atr close) (zip atrs ?cs) = Inr rs" "length rs = length atrs"
    "\<forall>y \<in> set rs. 0 \<le> y" using a(2) assms(2,3) by auto
  have "last rs \<in> set rs" using r(2) a(2) by (intro last_in_set) auto
  moreover have "length atrs = length ?cs" using a(2) assms(2,3) by simp
  then have "zip_strict atrs ?cs = Inr (zip atrs ?cs)" by (simp add: zip_strict_def)
  ultimately show ?thesis using a(1) r(1,3) by (simp add: historical_atr_ratios_def Let_def)
qed

lemma macd_series_ok:
  assumes "26 \<le> length closes"
  shows "\<exists>ms. macd_series closes = Inr ms \<and> length ms = Suc (length closes - 26)"
proof -
  obtain n where n: "length closes = 26 + n" using assms le_Suc_ex by blast
  obtain fast where f: "ema_values closes 12 = Inr fast" "length fast = Suc (length closes - 12)"
    using ema_values_ok [of 12 closes] assms by auto
  obtain slow where "ema_values closes 26 = Inr slow" "length slow = Suc (length closes - 26)"
    using ema_values_ok [of 26 closes] assms by auto
  then show ?thesis using f n by (simp add: macd_series_def zip_strict_def)
qed

lemma rolling_vwap_ok:
  assumes "series_ok s"
  shows "\<exists>v. rolling_vwap_of s = Inr v \<and> 0 \<le> v"
proof -
  have ne: "s \<noteq> []" and ok: "\<And>c. c \<in> set s \<Longrightarrow> candle_ok c" using assms by (auto simp: series_ok_def list_all_iff)
  have vol: "0 \<le> dsum (take_last 20 (map c_volume s))"
  proof (rule dsum_nonneg)
    show "0 \<le> x" if x: "x \<in> set (take_last 20 (map c_volume s))" for x
    proof -
      obtain c where "c \<in> set s" "x = c_volume c" using x set_take_last by fastforce
      then show ?thesis using candle_okD(11,12) [OF ok, of c] by linarith
    qed
  qed
  have "0 \<le> typical_volume c" if "c \<in> set s" for c
    using candle_okD(3,9-12) [OF ok [OF that]] by (simp add: typical_volume_def dmul_def dquot_def dadd_def dec.nonneg)
  then have tvol: "0 \<le> dsum (map typical_volume (take_last 20 s))"
    using set_take_last [of 20 s] by (intro dsum_nonneg) auto
  show ?thesis
  proof (cases "dsum (take_last 20 (map c_volume s)) = 0")
    case True
    then show ?thesis using candle_okD(10) [OF ok [of "last s"]] ne by (simp add: rolling_vwap_of_def)
  next
    case False
    then show ?thesis using vol tvol quotient_nonneg [OF tvol, of "dsum (take_last 20 (map c_volume s))"]
      by (simp add: rolling_vwap_of_def Let_def)
  qed
qed

lemma indicators_total:
  assumes "series_ok s"
  shows "if length s < 50 then \<exists>m. calculate_indicators s = Inl (ValueError m)
    else \<exists>i. calculate_indicators s = Inr i \<and> 0 \<le> rsi_14 i \<and> rsi_14 i \<le> 100 \<and> 0 \<le> adx_14 i \<and> adx_14 i \<le> 100
      \<and> 0 \<le> atr_14 i \<and> 0 \<le> normalized_atr i \<and> 0 < bollinger_middle i
      \<and> bollinger_lower i \<le> bollinger_middle i \<and> bollinger_middle i \<le> bollinger_upper i
      \<and> 0 \<le> rolling_vwap i \<and> 0 \<le> volume_ratio i
      \<and> (ema_100 i \<noteq> None \<longleftrightarrow> 100 \<le> length s) \<and> (ema_200 i \<noteq> None \<longleftrightarrow> 200 \<le> length s)"
proof (cases "length s < 50")
  case False
  let ?c = "map c_close s"
  have ne: "s \<noteq> []" and ok: "\<And>c. c \<in> set s \<Longrightarrow> candle_ok c" using assms(1) by (auto simp: series_ok_def list_all_iff)
  have ema: "\<exists>y. last_of (ema_values ?c p) = Inr y" if "1 \<le> p" "p \<le> length s" for p
    using ema_values_ok [of p ?c] that by (auto simp: last_of_def)
  obtain e20 where e20: "last_of (ema_values ?c 20) = Inr e20" using ema [of 20] False by auto
  obtain e50 where e50: "last_of (ema_values ?c 50) = Inr e50" using ema [of 50] False by auto
  have opt: "\<exists>y. optional_ema ?c p = Inr y \<and> (y \<noteq> None \<longleftrightarrow> p \<le> length s)" if "1 \<le> p" for p
    using ema [OF that] by (auto simp: optional_ema_def)
  obtain e100 where e100: "optional_ema ?c 100 = Inr e100" "e100 \<noteq> None \<longleftrightarrow> 100 \<le> length s" using opt [of 100] by auto
  obtain e200 where e200: "optional_ema ?c 200 = Inr e200" "e200 \<noteq> None \<longleftrightarrow> 200 \<le> length s" using opt [of 200] by auto
  obtain ms where ms: "macd_series ?c = Inr ms" "length ms = Suc (length s - 26)" using macd_series_ok [of ?c] False by auto
  have "9 \<le> length ms" using ms(2) False by linarith
  then obtain sg where sg: "last_of (ema_values ms 9) = Inr sg" using ema_values_ok [of 9 ms] by (auto simp: last_of_def)
  obtain ws where ws: "wilder (true_ranges s) 14 = Inr ws" "length ws = Suc (length s - 14)"
    using wilder_ok [of 14 "true_ranges s"] true_ranges_facts(1) [OF assms(1)] False by auto
  have "last ws \<in> set ws" using ws(2) by (intro last_in_set) auto
  then have atr: "last_of (wilder (true_ranges s) 14) = Inr (last ws)" "0 \<le> last ws"
    using ws(1) wilder_range(1) [OF _ ws(1)] true_ranges_facts(2) [OF assms(1)] by (auto simp: last_of_def)
  have tne: "take_last 20 ?c \<noteq> []" "take_last 20 (map c_volume s) \<noteq> []" 
  proof -
    have "length s - 20 < length s" using False by linarith
    then show "take_last 20 ?c \<noteq> []" "take_last 20 (map c_volume s) \<noteq> []" by (simp_all add: take_last_def not_le)
  qed
  obtain mid where mid: "mean_of (take_last 20 ?c) = Inr mid" using mean_of_Inr [OF tne(1)] by simp
  have mid0: "0 < mid"
    by (rule mean_of_pos [OF mid]) (use set_take_last [of 20 ?c] ok in \<open>fastforce simp: candle_okD\<close>)
  obtain var where var: "mean_of (map (\<lambda>x. dsquare (dsub x mid)) (take_last 20 ?c)) = Inr var" using mean_of_Inr tne(1) by simp
  have "0 \<le> dsquare x" for x by (simp add: dsquare_def dec.nonneg rnd31_def round_half_even_ge)
  then have "0 \<le> var" using mean_of_nonneg [OF var] by auto
  then obtain dev where dev: "dsqrt var = Inr dev" "0 \<le> dev" using dsqrt_nonneg by blast
  have two: "0 \<le> dmul 2 dev" using dev(2) by (simp add: dmul_def dec.nonneg)
  have mid_eq: "rnd28 mid = mid" using mid by (auto simp: mean_of_def ddiv_eq_Inr dquot_def dec.rnd_idem split: if_splits)
  have bands: "dsub mid (dmul 2 dev) \<le> mid" "mid \<le> dadd mid (dmul 2 dev)"
    unfolding dsub_def dadd_def by (rule dec.upper [OF mid_eq], use two in simp) (rule dec.lower [OF mid_eq], use two in simp)
  obtain vw where vw: "rolling_vwap_of s = Inr vw" "0 \<le> vw" using rolling_vwap_ok [OF assms(1)] by blast
  obtain av where av: "mean_of (take_last 20 (map c_volume s)) = Inr av" using mean_of_Inr [OF tne(2)] by simp
  have vol: "0 \<le> c_volume c" if "c \<in> set s" for c using candle_okD(11,12) [OF ok [OF that]] by linarith
  have av0: "0 \<le> av" by (rule mean_of_nonneg [OF av]) (use set_take_last [of 20 "map c_volume s"] vol in fastforce)
  obtain hr hm where h: "historical_atr_ratios s 14 = Inr (hr, hm)" "0 \<le> hr"
    using historical_atr_ratios_ok [OF assms(1), of 14] False by auto
  obtain st where st: "rsi ?c 14 = Inr st" "0 \<le> st" "st \<le> 100" using rsi_ok [of 14 ?c] False by auto
  obtain tr where tr: "adx s 14 = Inr tr" "0 \<le> tr" "tr \<le> 100" using adx_ok [OF assms(1), of 14] False by auto
  obtain ra where ra: "(if av = 0 then Inr 0 else ddiv (last (map c_volume s)) av) = Inr ra" "0 \<le> ra"
    using av0 vol [of "last s"] ne quotient_nonneg [of "c_volume (last s)" av] by (cases "av = 0") (auto simp: last_map)
  show ?thesis
    unfolding calculate_indicators_def Let_def
    using False e20 e50 e100 e200 ms(1) sg atr mid mid0 var dev(1) bands vw av h st tr ra by simp
qed (simp add: calculate_indicators_def)

text \<open>
  C30: the indicators are total and bounded.  On every valid series of at least 50 candles the
  routine returns: no division by zero, no square root of a negative variance, no short
  average.  RSI and ADX lie between 0 and 100, the bands enclose a positive middle, ranges
  and ratios are not negative, and the slow averages are present exactly when the series is
  long enough.  A shorter series is refused.
\<close>

theorem indicators_bounded:
  assumes "series_ok s"
  shows "if length s < 50 then \<exists>m. calculate_indicators s = Inl (ValueError m)
    else \<exists>i. calculate_indicators s = Inr i \<and> 0 \<le> rsi_14 i \<and> rsi_14 i \<le> 100 \<and> 0 \<le> adx_14 i \<and> adx_14 i \<le> 100
      \<and> 0 \<le> atr_14 i \<and> 0 \<le> normalized_atr i \<and> 0 < bollinger_middle i
      \<and> bollinger_lower i \<le> bollinger_middle i \<and> bollinger_middle i \<le> bollinger_upper i
      \<and> 0 \<le> rolling_vwap i \<and> 0 \<le> volume_ratio i
      \<and> (ema_100 i \<noteq> None \<longleftrightarrow> 100 \<le> length s) \<and> (ema_200 i \<noteq> None \<longleftrightarrow> 200 \<le> length s)"
  by (rule indicators_total [OF assms])

text \<open>A flat series on which the witnesses of the analysis evaluate.\<close>

definition flat_series :: "nat \<Rightarrow> candle_series" where
  "flat_series n = map (\<lambda>k. minute_candle (int k) 100 101 99 100) [1 ..< Suc n]"

lemma pairwise_all_nthI:
  "(\<And>i. Suc i < length xs \<Longrightarrow> P (xs ! i) (xs ! Suc i)) \<Longrightarrow> pairwise_all P xs"
proof (induction P xs rule: pairwise_all.induct)
  case (3 P x y zs)
  have "pairwise_all P (y # zs)" by (rule "3.IH") (use "3.prems" [of "Suc i" for i] in simp)
  then show ?case using "3.prems" [of 0] by simp
qed simp_all

lemma flat_series_ok: "0 < n \<Longrightarrow> series_ok (flat_series n)" "length (flat_series n) = n"
proof -
  show "length (flat_series n) = n" by (simp add: flat_series_def del: upt_Suc)
  assume "0 < n"
  then show "series_ok (flat_series n)"
    by (auto simp: series_ok_def flat_series_def list_all_iff minute_candle_ok follows_def same_market_def
        algebra_simps simp del: upt_Suc intro!: pairwise_all_nthI)
qed

theorem indicators_bounded_witness: "\<exists>i. calculate_indicators (flat_series 60) = Inr i \<and> rsi_14 i \<le> 100"
  using indicators_bounded [of "flat_series 60"] flat_series_ok [of 60] by auto

end
