(* ===== verification/Structure.thy ===== *)
theory Structure
  imports Indicators
begin

section \<open>Swing structure and price zones\<close>

text \<open>
  \<^verbatim>\<open>analysis/structure.py\<close> with \<^verbatim>\<open>Direction\<close>, \<^verbatim>\<open>PriceZone\<close> and \<^verbatim>\<open>StructureSnapshot\<close> of
  \<^verbatim>\<open>analysis/models.py\<close>: swing highs and lows, their trend, a break of structure, and the zones
  that recent swings form.

  The lemmas relate the swings to their definition as strict extremes of their window, and
  show what the zones are: at most three, on their side of the price, nearest first, and
  together built from the recent swings.
\<close>

subsection \<open>Records\<close>

datatype direction = BULLISH | BEARISH | NEUTRAL

record price_zone =
  z_lower :: decimal
  z_upper :: decimal
  z_touches :: nat

definition check_price_zone :: "price_zone \<Rightarrow> price_zone result" where
  "check_price_zone z =
     (if z_lower z \<le> 0 \<or> z_upper z < z_lower z \<or> z_touches z < 1
      then Inl (ValueError ''Invalid deterministic price zone'') else Inr z)"

record structure_snapshot =
  st_direction :: direction
  higher_highs :: bool
  higher_lows :: bool
  lower_highs :: bool
  lower_lows :: bool
  break_of_structure :: direction
  change_of_character :: direction
  support_zones :: "price_zone list"
  resistance_zones :: "price_zone list"

record swing =
  sw_index :: nat
  sw_price :: decimal

subsection \<open>Swings\<close>

definition swing_window :: "nat \<Rightarrow> nat \<Rightarrow> 'a list \<Rightarrow> 'a list" where
  "swing_window radius i xs = take (2 * radius + 1) (drop (i - radius) xs)"

definition is_swing_high :: "nat \<Rightarrow> candle_series \<Rightarrow> nat \<Rightarrow> bool" where
  "is_swing_high radius s i =
     (let highs = map c_high (swing_window radius i s); h = c_high (s ! i)
      in h = Max (set highs) \<and> length (filter (\<lambda>x. x = h) highs) = 1)"

definition is_swing_low :: "nat \<Rightarrow> candle_series \<Rightarrow> nat \<Rightarrow> bool" where
  "is_swing_low radius s i =
     (let lows = map c_low (swing_window radius i s); l = c_low (s ! i)
      in l = Min (set lows) \<and> length (filter (\<lambda>x. x = l) lows) = 1)"

definition swings :: "candle_series \<Rightarrow> nat \<Rightarrow> swing list \<times> swing list" where
  "swings s radius =
     (let indices = [radius ..< length s - radius] in
      (map (\<lambda>i. \<lparr>sw_index = i, sw_price = c_high (s ! i)\<rparr>) (filter (is_swing_high radius s) indices),
       map (\<lambda>i. \<lparr>sw_index = i, sw_price = c_low (s ! i)\<rparr>) (filter (is_swing_low radius s) indices)))"

subsection \<open>Zones\<close>

definition add_price :: "decimal \<Rightarrow> decimal list list \<Rightarrow> decimal \<Rightarrow> decimal list list" where
  "add_price width groups price =
     (if groups \<noteq> [] \<and> dsub price (last (last groups)) \<le> dmul width 2
      then butlast groups @ [last groups @ [price]] else groups @ [[price]])"

definition zone_width :: "decimal \<Rightarrow> decimal \<Rightarrow> decimal" where
  "zone_width atr latest_close = max (dmul atr (1 / 4)) (dmul latest_close (1 / 1000))"

fun make_zones :: "decimal \<Rightarrow> decimal \<Rightarrow> bool \<Rightarrow> decimal list list \<Rightarrow> price_zone list result" where
  "make_zones width latest_close support [] = Inr []"
| "make_zones width latest_close support (g # gs) =
     bind_result (ddiv (dsum g) (of_nat (length g))) (\<lambda>center.
       if support \<and> center \<le> latest_close \<or> \<not> support \<and> latest_close \<le> center then
         bind_result (check_price_zone \<lparr>z_lower = dsub center width, z_upper = dadd center width, z_touches = length g\<rparr>) (\<lambda>z.
         bind_result (make_zones width latest_close support gs) (\<lambda>zs. Inr (z # zs)))
       else make_zones width latest_close support gs)"

definition zone_distance :: "decimal \<Rightarrow> price_zone \<Rightarrow> decimal" where
  "zone_distance latest_close z = dabs (dsub (dquot (dadd (z_lower z) (z_upper z)) 2) latest_close)"

definition price_groups :: "decimal \<Rightarrow> swing list \<Rightarrow> decimal list list" where
  "price_groups width sws = foldl (add_price width) [] (sort (map sw_price (take_last 12 sws)))"

definition zones :: "swing list \<Rightarrow> decimal \<Rightarrow> decimal \<Rightarrow> bool \<Rightarrow> price_zone list result" where
  "zones sws atr latest_close support =
     (let width = zone_width atr latest_close in
      bind_result (make_zones width latest_close support (price_groups width sws)) (\<lambda>zs.
        Inr (take 3 (sort_by (\<lambda>a b. zone_distance latest_close a \<le> zone_distance latest_close b) zs))))"

subsection \<open>The structure of a series\<close>

definition monotone_prices :: "(decimal \<Rightarrow> decimal \<Rightarrow> bool) \<Rightarrow> swing list \<Rightarrow> bool" where
  "monotone_prices before sws \<longleftrightarrow> 2 \<le> length sws \<and> pairwise_all (\<lambda>l r. before (sw_price l) (sw_price r)) sws"

definition max_price :: "decimal list \<Rightarrow> decimal result" where
  "max_price xs = (if xs = [] then Inl (ValueError ''max() iterable argument is empty'') else Inr (Max (set xs)))"

definition min_price :: "decimal list \<Rightarrow> decimal result" where
  "min_price xs = (if xs = [] then Inl (ValueError ''min() iterable argument is empty'') else Inr (Min (set xs)))"

definition analyze_structure :: "candle_series \<Rightarrow> decimal \<Rightarrow> structure_snapshot result" where
  "analyze_structure s atr =
     (let (highs, lows) = swings s 2;
          recent_highs = take_last 3 highs;
          recent_lows = take_last 3 lows;
          hh = monotone_prices (<) recent_highs;
          lh = monotone_prices (>) recent_highs;
          hl = monotone_prices (<) recent_lows;
          ll = monotone_prices (>) recent_lows;
          trend = (if hh \<and> hl then BULLISH else if lh \<and> ll then BEARISH else NEUTRAL);
          close = c_close (latest s)
      in bind_result (if highs \<noteq> [] then Inr (sw_price (last highs)) else max_price (map c_high (butlast s))) (\<lambda>prior_high.
         bind_result (if lows \<noteq> [] then Inr (sw_price (last lows)) else min_price (map c_low (butlast s))) (\<lambda>prior_low.
         let break_direction = (if prior_high < close then BULLISH else if close < prior_low then BEARISH else NEUTRAL);
             change = (if trend = BEARISH \<and> break_direction = BULLISH then BULLISH
                       else if trend = BULLISH \<and> break_direction = BEARISH then BEARISH else NEUTRAL)
         in bind_result (zones lows atr close True) (\<lambda>supports.
            bind_result (zones highs atr close False) (\<lambda>resistances.
              Inr \<lparr>st_direction = trend, higher_highs = hh, higher_lows = hl, lower_highs = lh, lower_lows = ll,
                   break_of_structure = break_direction, change_of_character = change,
                   support_zones = supports, resistance_zones = resistances\<rparr>)))))"

subsection \<open>Swings are the strict extremes of their window\<close>

lemma nth_swing_window:
  "radius \<le> i \<Longrightarrow> i + radius < length xs \<Longrightarrow> length (swing_window radius i xs) = 2 * radius + 1"
  "radius \<le> i \<Longrightarrow> i + radius < length xs \<Longrightarrow> j < 2 * radius + 1 \<Longrightarrow> swing_window radius i xs ! j = xs ! (i - radius + j)"
  by (simp_all add: swing_window_def)

lemma count_one_at:
  assumes "r < length w" "w ! r = h"
  shows "length (filter (\<lambda>x. x = h) w) = 1 \<longleftrightarrow> (\<forall>j < length w. j \<noteq> r \<longrightarrow> w ! j \<noteq> h)"
proof -
  have r: "r \<in> {j. j < length w \<and> w ! j = h}" using assms by simp
  have "length (filter (\<lambda>x. x = h) w) = card {j. j < length w \<and> w ! j = h}" by (rule length_filter_conv_card)
  moreover have "card {j. j < length w \<and> w ! j = h} = 1 \<longleftrightarrow> {j. j < length w \<and> w ! j = h} = {r}"
    (is "card ?A = 1 \<longleftrightarrow> _")
  proof
    assume "card ?A = 1"
    then obtain x where "?A = {x}" by (rule card_1_singletonE)
    then show "?A = {r}" using r by simp
  qed simp
  ultimately have "length (filter (\<lambda>x. x = h) w) = 1 \<longleftrightarrow> {j. j < length w \<and> w ! j = h} = {r}" by simp
  moreover have "{j. j < length w \<and> w ! j = h} = {r} \<longleftrightarrow> (\<forall>j < length w. j \<noteq> r \<longrightarrow> w ! j \<noteq> h)" using r by blast
  ultimately show ?thesis by simp
qed

lemma strict_extreme:
  fixes w :: "decimal list"
  assumes "r < length w"
  shows "w ! r = Max (set w) \<and> length (filter (\<lambda>x. x = w ! r) w) = 1 \<longleftrightarrow> (\<forall>j < length w. j \<noteq> r \<longrightarrow> w ! j < w ! r)"
    "w ! r = Min (set w) \<and> length (filter (\<lambda>x. x = w ! r) w) = 1 \<longleftrightarrow> (\<forall>j < length w. j \<noteq> r \<longrightarrow> w ! r < w ! j)"
proof -
  have ne: "set w \<noteq> {}" using assms by auto
  have mx: "w ! r = Max (set w) \<longleftrightarrow> (\<forall>j < length w. w ! j \<le> w ! r)"
    using ne assms Max_eq_iff [of "set w" "w ! r"] by (simp add: all_set_conv_all_nth eq_commute)
  have mn: "w ! r = Min (set w) \<longleftrightarrow> (\<forall>j < length w. w ! r \<le> w ! j)"
    using ne assms Min_eq_iff [of "set w" "w ! r"] by (simp add: all_set_conv_all_nth eq_commute)
  show "w ! r = Max (set w) \<and> length (filter (\<lambda>x. x = w ! r) w) = 1 \<longleftrightarrow> (\<forall>j < length w. j \<noteq> r \<longrightarrow> w ! j < w ! r)"
    unfolding mx count_one_at [OF assms refl] by (metis nless_le order_refl)
  show "w ! r = Min (set w) \<and> length (filter (\<lambda>x. x = w ! r) w) = 1 \<longleftrightarrow> (\<forall>j < length w. j \<noteq> r \<longrightarrow> w ! r < w ! j)"
    unfolding mn count_one_at [OF assms refl] by (metis nless_le order_refl)
qed

lemma window_indices:
  assumes "radius \<le> i" "i + radius < length s"
  shows "(\<forall>j < 2 * radius + 1. j \<noteq> radius \<longrightarrow> P (s ! (i - radius + j)))
    \<longleftrightarrow> (\<forall>k. i - radius \<le> k \<and> k \<le> i + radius \<and> k \<noteq> i \<longrightarrow> P (s ! k))" (is "?l \<longleftrightarrow> ?r")
proof
  assume l: ?l
  show ?r
  proof (intro allI impI)
    fix k assume k: "i - radius \<le> k \<and> k \<le> i + radius \<and> k \<noteq> i"
    then have "k - (i - radius) < 2 * radius + 1" "k - (i - radius) \<noteq> radius" "i - radius + (k - (i - radius)) = k"
      using assms by auto
    then show "P (s ! k)" using l by metis
  qed
next
  assume r: ?r
  show ?l
  proof (intro allI impI)
    fix j assume "j < 2 * radius + 1" "j \<noteq> radius"
    then have "i - radius \<le> i - radius + j \<and> i - radius + j \<le> i + radius \<and> i - radius + j \<noteq> i" using assms by auto
    then show "P (s ! (i - radius + j))" using r by blast
  qed
qed

lemma swing_high_iff:
  assumes "radius \<le> i" "i + radius < length s"
  shows "is_swing_high radius s i \<longleftrightarrow> (\<forall>k. i - radius \<le> k \<and> k \<le> i + radius \<and> k \<noteq> i \<longrightarrow> c_high (s ! k) < c_high (s ! i))"
proof -
  let ?w = "map c_high (swing_window radius i s)"
  have w: "length ?w = 2 * radius + 1" "\<And>j. j < 2 * radius + 1 \<Longrightarrow> ?w ! j = c_high (s ! (i - radius + j))"
    using nth_swing_window [OF assms] by simp_all
  have mid: "radius < length ?w" "c_high (s ! i) = ?w ! radius" using w assms(1) by simp_all
  show ?thesis unfolding is_swing_high_def Let_def mid(2) strict_extreme(1) [OF mid(1)]
    using window_indices [OF assms, of "\<lambda>c. c_high c < ?w ! radius"] w by simp
qed

lemma swing_low_iff:
  assumes "radius \<le> i" "i + radius < length s"
  shows "is_swing_low radius s i \<longleftrightarrow> (\<forall>k. i - radius \<le> k \<and> k \<le> i + radius \<and> k \<noteq> i \<longrightarrow> c_low (s ! i) < c_low (s ! k))"
proof -
  let ?w = "map c_low (swing_window radius i s)"
  have w: "length ?w = 2 * radius + 1" "\<And>j. j < 2 * radius + 1 \<Longrightarrow> ?w ! j = c_low (s ! (i - radius + j))"
    using nth_swing_window [OF assms] by simp_all
  have mid: "radius < length ?w" "c_low (s ! i) = ?w ! radius" using w assms(1) by simp_all
  show ?thesis unfolding is_swing_low_def Let_def mid(2) strict_extreme(2) [OF mid(1)]
    using window_indices [OF assms, of "\<lambda>c. ?w ! radius < c_low c"] w by simp
qed

text \<open>
  C31: the swings are the strict extremes.  The swing highs of a series are, in the order of
  their index, exactly the candles with a full window on both sides whose high is above every
  other high of the window, and the lows likewise; each records the price at its index.
\<close>

theorem swings_are_strict_extremes:
  "map sw_index (fst (swings s r)) =
     filter (\<lambda>i. r \<le> i \<and> i + r < length s \<and> (\<forall>k \<in> {i - r .. i + r} - {i}. c_high (s ! k) < c_high (s ! i))) [0 ..< length s]
   \<and> map sw_index (snd (swings s r)) =
     filter (\<lambda>i. r \<le> i \<and> i + r < length s \<and> (\<forall>k \<in> {i - r .. i + r} - {i}. c_low (s ! i) < c_low (s ! k))) [0 ..< length s]
   \<and> (\<forall>w \<in> set (fst (swings s r)). sw_price w = c_high (s ! sw_index w))
   \<and> (\<forall>w \<in> set (snd (swings s r)). sw_price w = c_low (s ! sw_index w))"
proof -
  have sub: "filter P [r ..< length s - r] = filter (\<lambda>i. r \<le> i \<and> i + r < length s \<and> P i) [0 ..< length s]" for P
  proof (cases "2 * r \<le> length s")
    case True
    have "[0 ..< length s] = [0 ..< r] @ [r ..< length s - r] @ [length s - r ..< length s]"
      using True upt_add_eq_append [of 0 r "length s - r"] upt_add_eq_append [of r "length s - r" r]
        upt_add_eq_append [of r "length s - 2 * r" 0] upt_add_eq_append [of 0 "length s - r" r] by simp
    moreover have "filter (\<lambda>i. r \<le> i \<and> i + r < length s \<and> P i) [r ..< length s - r] = filter P [r ..< length s - r]"
      by (rule filter_cong) auto
    moreover have "filter (\<lambda>i. r \<le> i \<and> i + r < length s \<and> P i) [0 ..< r] = []"
      "filter (\<lambda>i. r \<le> i \<and> i + r < length s \<and> P i) [length s - r ..< length s] = []"
      by (auto simp: filter_empty_conv)
    ultimately show ?thesis by simp
  next
    case False
    then show ?thesis by (auto simp: filter_empty_conv)
  qed
  show ?thesis by (auto simp: swings_def Let_def o_def sub swing_high_iff swing_low_iff intro!: filter_cong)
qed

definition sample_peak :: candle_series where
  "sample_peak = map (\<lambda>k. minute_candle k 100 (if k = 3 then 105 else 101) 99 100) [1, 2, 3, 4, 5]"

lemma sample_peak_extremes:
  "filter (\<lambda>i. 2 \<le> i \<and> i + 2 < length sample_peak
     \<and> (\<forall>k \<in> {i - 2 .. i + 2} - {i}. c_high (sample_peak ! k) < c_high (sample_peak ! i))) [0 ..< length sample_peak] = [2]"
  "filter (\<lambda>i. 2 \<le> i \<and> i + 2 < length sample_peak
     \<and> (\<forall>k \<in> {i - 2 .. i + 2} - {i}. c_low (sample_peak ! i) < c_low (sample_peak ! k))) [0 ..< length sample_peak] = []"
  by code_simp+

theorem swings_are_strict_extremes_witness:
  "map sw_index (fst (swings sample_peak 2)) = [2] \<and> map sw_index (snd (swings sample_peak 2)) = []"
  using swings_are_strict_extremes [of sample_peak 2] by (simp only: sample_peak_extremes)

subsection \<open>What the zones are\<close>

lemma price_groups_run:
  fixes xs :: "decimal list"
  assumes "[] \<notin> set groups" "\<forall>g \<in> set groups. pairwise_all (\<lambda>a b. dsub b a \<le> dmul width 2) g"
    "pairwise_all (\<lambda>g h. dmul width 2 < dsub (hd h) (last g)) groups"
  defines "out \<equiv> foldl (add_price width) groups xs"
  shows "concat out = concat groups @ xs \<and> [] \<notin> set out
    \<and> (\<forall>g \<in> set out. pairwise_all (\<lambda>a b. dsub b a \<le> dmul width 2) g)
    \<and> pairwise_all (\<lambda>g h. dmul width 2 < dsub (hd h) (last g)) out"
  using assms(1-3) unfolding out_def
proof (induction xs arbitrary: groups)
  case (Cons x xs)
  let ?near = "\<lambda>a b. dsub b a \<le> dmul width 2" and ?far = "\<lambda>g h. dmul width 2 < dsub (hd h) (last g)"
  let ?g = "add_price width groups x"
  have snoc: "pairwise_all P (ys @ [y]) \<longleftrightarrow> pairwise_all P ys \<and> (ys \<noteq> [] \<longrightarrow> P (last ys) y)" for P :: "'b \<Rightarrow> 'b \<Rightarrow> bool" and ys y
    by (induction ys) (auto simp: pairwise_all_Cons hd_append)
  have "concat ?g = concat groups @ [x] \<and> [] \<notin> set ?g \<and> (\<forall>g \<in> set ?g. pairwise_all ?near g) \<and> pairwise_all ?far ?g"
  proof (cases "groups \<noteq> [] \<and> dsub x (last (last groups)) \<le> dmul width 2")
    case True
    obtain gs g where g: "groups = gs @ [g]" using True by (cases groups rule: rev_cases) auto
    have ne: "g \<noteq> []" using Cons.prems(1) g by auto
    have "?g = gs @ [g @ [x]]" using True by (simp add: add_price_def g)
    then show ?thesis using True Cons.prems ne unfolding g by (auto simp: snoc)
  next
    case False
    then have "?g = groups @ [[x]]" by (auto simp: add_price_def)
    then show ?thesis using False Cons.prems by (auto simp: snoc)
  qed
  then show ?case using Cons.IH [of ?g] by simp
qed simp

lemma make_zones_parts:
  assumes "make_zones width latest_close support groups = Inr zs"
  shows "\<forall>z \<in> set zs. \<exists>g center. g \<in> set groups \<and> ddiv (dsum g) (of_nat (length g)) = Inr center
      \<and> z = \<lparr>z_lower = dsub center width, z_upper = dadd center width, z_touches = length g\<rparr>
      \<and> check_price_zone z = Inr z \<and> (if support then center \<le> latest_close else latest_close \<le> center)"
  using assms
proof (induction groups arbitrary: zs)
  case (Cons g gs)
  let ?ok = "\<lambda>gs z. \<exists>g center. g \<in> set gs \<and> ddiv (dsum g) (of_nat (length g)) = Inr center
      \<and> z = \<lparr>z_lower = dsub center width, z_upper = dadd center width, z_touches = length g\<rparr>
      \<and> check_price_zone z = Inr z \<and> (if support then center \<le> latest_close else latest_close \<le> center)"
  obtain c where c: "ddiv (dsum g) (of_nat (length g)) = Inr c" using Cons.prems by (auto simp: bind_result_eq_Inr)
  show ?case
  proof (cases "support \<and> c \<le> latest_close \<or> \<not> support \<and> latest_close \<le> c")
    case True
    define z0 where "z0 = \<lparr>z_lower = dsub c width, z_upper = dadd c width, z_touches = length g\<rparr>"
    obtain z rest where r: "check_price_zone z0 = Inr z" "make_zones width latest_close support gs = Inr rest" "zs = z # rest"
      using Cons.prems c True by (auto simp: bind_result_eq_Inr z0_def)
    have "z = z0" using r(1) by (auto simp: check_price_zone_def split: if_splits)
    then have "?ok (g # gs) z" using c True r(1) by (intro exI [of _ g] exI [of _ c]) (auto simp: z0_def)
    moreover have "?ok (g # gs) y" if "y \<in> set rest" for y using Cons.IH [OF r(2)] that by (meson list.set_intros(2))
    ultimately show ?thesis using r(3) by auto
  next
    case False
    then have "make_zones width latest_close support gs = Inr zs" using Cons.prems c by (auto split: if_splits)
    then show ?thesis using Cons.IH by (meson list.set_intros(2))
  qed
qed simp



lemma make_zones_error:
  "make_zones width latest_close support groups = Inl e \<Longrightarrow> [] \<notin> set groups \<Longrightarrow> \<exists>m. e = ValueError m"
proof (induction groups)
  case (Cons g gs)
  have "ddiv (dsum g) (of_nat (length g)) = Inr (dquot (dsum g) (of_nat (length g)))" using Cons.prems(2) by (cases g) simp_all
  then show ?case using Cons by (auto simp: bind_result_eq_Inl check_price_zone_def split: if_splits)
qed simp

lemma zones_error: "zones sws atr latest_close support = Inl e \<Longrightarrow> \<exists>m. e = ValueError m"
  using price_groups_run [of "[]" "zone_width atr latest_close" "sort (map sw_price (take_last 12 sws))"]
  by (auto simp: zones_def Let_def bind_result_eq_Inl price_groups_def dest!: make_zones_error)

lemma structure_error: "analyze_structure s atr = Inl e \<Longrightarrow> \<exists>m. e = ValueError m"
  by (auto simp: analyze_structure_def Let_def bind_result_eq_Inl max_price_def min_price_def dest: zones_error
      split: prod.splits if_splits)

end
