(* ===== verification/Analysis.thy ===== *)
theory Analysis
  imports Structure
begin

section \<open>Multi-timeframe analysis\<close>

text \<open>
  \<^verbatim>\<open>analysis/engine.py\<close> and the evidence and result records of \<^verbatim>\<open>analysis/models.py\<close>: the direction
  and regime of one timeframe, the votes of the evidence groups, the score and the reasons not
  to trade.  \<^verbatim>\<open>analysis.models.MarketRegime\<close> has the members of the domain's enum, so the type
  \<open>market_regime\<close> stands for both.  The text of a decimal is the argument \<open>show_dec\<close>.

  The lemmas show that the analysis of a valid snapshot always returns a result with a score
  between 0 and 100, and what a reliable result guarantees about its timeframes.
\<close>

subsection \<open>Records\<close>

fun direction_value :: "direction \<Rightarrow> string" where
  "direction_value BULLISH = ''BULLISH''"
| "direction_value BEARISH = ''BEARISH''"
| "direction_value NEUTRAL = ''NEUTRAL''"

datatype analysis_status = AN_ACCEPTED | AN_DEGRADED | AN_REJECTED

record timeframe_analysis =
  ta_interval :: market_interval
  ta_direction :: direction
  ta_regime :: market_regime
  ta_indicators :: indicators
  ta_structure :: structure_snapshot
  ta_reasons :: "string list"

record evidence_group =
  eg_name :: string
  eg_direction :: direction
  eg_agreement :: decimal
  eg_weight :: int
  eg_available :: bool
  eg_reasons :: "string list"

definition check_evidence_group :: "evidence_group \<Rightarrow> evidence_group result" where
  "check_evidence_group g =
     (if eg_name g = [] \<or> \<not> (0 \<le> eg_agreement g \<and> eg_agreement g \<le> 1)
      then Inl (ValueError ''Evidence agreement must be between zero and one'')
      else if \<not> (0 \<le> eg_weight g \<and> eg_weight g \<le> 100)
      then Inl (ValueError ''Evidence weight must be between zero and 100'')
      else Inr g)"

record analysis_result =
  ar_status :: analysis_status
  directional_bias :: direction
  ar_regime :: market_regime
  setup_quality_score :: int
  score_is_probability :: bool
  timeframes :: "timeframe_analysis list"
  evidence_groups :: "evidence_group list"
  no_trade_reasons :: "string list"
  ar_issues :: "string list"

definition check_analysis_result :: "analysis_result \<Rightarrow> analysis_result result" where
  "check_analysis_result r =
     (if \<not> (0 \<le> setup_quality_score r \<and> setup_quality_score r \<le> 100)
      then Inl (ValueError ''Setup-quality score must be between zero and 100'')
      else if score_is_probability r
      then Inl (ValueError ''An analysis score must never be presented as a probability'')
      else if ar_status r = AN_REJECTED \<and> ar_issues r = []
      then Inl (ValueError ''Rejected analysis requires an issue'')
      else Inr r)"

definition reliable :: "analysis_result \<Rightarrow> bool" where
  "reliable r \<longleftrightarrow> ar_status r \<noteq> AN_REJECTED \<and> no_trade_reasons r = []"

subsection \<open>One timeframe\<close>

definition analysis_intervals :: "market_interval list" where
  "analysis_intervals = [ONE_MONTH, ONE_WEEK, ONE_DAY, FOUR_HOURS, ONE_HOUR, FIFTEEN_MINUTES]"

text \<open>\<^verbatim>\<open>x or default\<close>: an absent value and a zero are both false.\<close>

definition or_decimal :: "decimal option \<Rightarrow> decimal \<Rightarrow> decimal" where
  "or_decimal x other = (case x of None \<Rightarrow> other | Some v \<Rightarrow> if v = 0 then other else v)"

definition indicator_direction :: "indicators \<Rightarrow> decimal \<Rightarrow> direction" where
  "indicator_direction i close =
     (let long_ema = or_decimal (ema_200 i) (or_decimal (ema_100 i) (ema_50 i));
          bullish = (ema_20 i < close \<and> ema_50 i < ema_20 i \<and> long_ema < close \<and> 0 < macd_histogram i \<and> 50 \<le> rsi_14 i);
          bearish = (close < ema_20 i \<and> ema_20 i < ema_50 i \<and> close < long_ema \<and> macd_histogram i < 0 \<and> rsi_14 i \<le> 50)
      in if bullish then BULLISH else if bearish then BEARISH else NEUTRAL)"

definition timeframe_regime :: "indicators \<Rightarrow> direction \<Rightarrow> direction \<Rightarrow> market_regime result" where
  "timeframe_regime i ind str =
     (if abnormal_volatility i then Inr ABNORMALLY_VOLATILE
      else let aligned = (ind \<noteq> NEUTRAL \<and> ind = str \<and> 23 \<le> adx_14 i) in
      if aligned \<and> ind = BULLISH then Inr BULLISH_TREND
      else if aligned \<and> ind = BEARISH then Inr BEARISH_TREND
      else bind_result (ddiv (dsub (bollinger_upper i) (bollinger_lower i)) (bollinger_middle i)) (\<lambda>band_width.
        if adx_14 i < 18 \<and> band_width < 12 / 100 then Inr RANGE
        else if ind \<noteq> str \<and> (ind \<noteq> NEUTRAL \<or> str \<noteq> NEUTRAL) then Inr TRANSITION
        else Inr NO_RELIABLE_REGIME))"

definition timeframe_direction :: "direction \<Rightarrow> direction \<Rightarrow> direction" where
  "timeframe_direction ind str =
     (if ind = str then ind else if ind = NEUTRAL then str else if str = NEUTRAL then ind else NEUTRAL)"

definition analyze_timeframe ::
  "(decimal \<Rightarrow> string) \<Rightarrow> market_snapshot \<Rightarrow> market_interval \<Rightarrow> timeframe_analysis result" where
  "analyze_timeframe show_dec m iv =
     bind_result (series_for m SPOT iv) (\<lambda>series.
       if \<not> is_closed_at (latest series) (captured_at m)
       then Inl (ValueError (interval_value iv @ '' analysis received an incomplete candle''))
       else
         bind_result (calculate_indicators series) (\<lambda>i.
         bind_result (analyze_structure series (atr_14 i)) (\<lambda>st.
           let ind = indicator_direction i (c_close (latest series)); str = st_direction st
           in bind_result (timeframe_regime i ind str) (\<lambda>reg.
             Inr \<lparr>ta_interval = iv, ta_direction = timeframe_direction ind str, ta_regime = reg,
                  ta_indicators = i, ta_structure = st,
                  ta_reasons = [''indicator_direction:'' @ direction_value ind, ''structure_direction:'' @ direction_value str,
                    ''adx:'' @ show_dec (adx_14 i), ''normalized_atr:'' @ show_dec (normalized_atr i)]\<rparr>))))"

definition analyze_timeframes :: "(decimal \<Rightarrow> string) \<Rightarrow> market_snapshot \<Rightarrow> timeframe_analysis list result" where
  "analyze_timeframes show_dec m = map_result (analyze_timeframe show_dec m) analysis_intervals"

subsection \<open>Evidence groups\<close>

definition count_direction :: "direction \<Rightarrow> direction list \<Rightarrow> nat" where
  "count_direction d ds = length (filter (\<lambda>x. x = d) ds)"

text \<open>The majority of a list of directions and its share, as \<^verbatim>\<open>_group\<close> and \<^verbatim>\<open>_derivatives_group\<close> take it.\<close>

definition majority :: "direction list \<Rightarrow> (direction \<times> decimal) result" where
  "majority ds =
     (let bullish = count_direction BULLISH ds; bearish = count_direction BEARISH ds; total_votes = of_nat (length ds) in
      if bearish < bullish then bind_result (ddiv (of_nat bullish) total_votes) (\<lambda>a. Inr (BULLISH, a))
      else if bullish < bearish then bind_result (ddiv (of_nat bearish) total_votes) (\<lambda>a. Inr (BEARISH, a))
      else Inr (NEUTRAL, 0))"

definition timeframe_group :: "string \<Rightarrow> timeframe_analysis list \<Rightarrow> int \<Rightarrow> evidence_group result" where
  "timeframe_group name analyses weight =
     bind_result (majority (map ta_direction analyses)) (\<lambda>(d, a).
       check_evidence_group
         \<lparr>eg_name = name, eg_direction = d, eg_agreement = a, eg_weight = weight, eg_available = True,
          eg_reasons = map (\<lambda>t. interval_value (ta_interval t) @ '':'' @ direction_value (ta_direction t) @ ''/''
            @ regime_value (ta_regime t)) analyses\<rparr>)"

definition vote_of :: "decimal \<Rightarrow> decimal \<Rightarrow> decimal \<Rightarrow> direction" where
  "vote_of low high x = (if high < x then BULLISH else if x < low then BEARISH else NEUTRAL)"

definition derivatives_votes :: "(decimal \<Rightarrow> string) \<Rightarrow> market_snapshot \<Rightarrow> direction list \<times> string list" where
  "derivatives_votes show_dec m =
     (let taker = (if taker_volume m = [] then []
            else let ratio = buy_sell_ratio (last (taker_volume m))
                 in [(vote_of (95 / 100) (105 / 100) ratio, ''taker_ratio:'' @ show_dec ratio)]);
          book = (case ms_order_book m of None \<Rightarrow> []
            | Some b \<Rightarrow> let imbalance = quantity_imbalance b
                 in [(vote_of (- (10 / 100)) (10 / 100) imbalance, ''book_imbalance:'' @ show_dec imbalance)]);
          history = open_interest_history m;
          interest = (if length history < 2 then []
            else let start = open_interest (hd history); finish = open_interest (last history);
                     change = (if start = 0 then 0 else dquot (dsub finish start) start)
                 in [''open_interest_change:'' @ show_dec change])
      in (map fst (taker @ book), map snd (taker @ book) @ interest))"

definition derivatives_group :: "(decimal \<Rightarrow> string) \<Rightarrow> market_snapshot \<Rightarrow> evidence_group result" where
  "derivatives_group show_dec m =
     (let (votes, reasons) = derivatives_votes show_dec m in
      if votes = [] then
        check_evidence_group
          \<lparr>eg_name = ''derivatives_context'', eg_direction = NEUTRAL, eg_agreement = 0, eg_weight = 10,
           eg_available = False, eg_reasons = [''optional derivatives confirmation unavailable'']\<rparr>
      else bind_result (majority votes) (\<lambda>(d, a).
        check_evidence_group
          \<lparr>eg_name = ''derivatives_context'', eg_direction = d, eg_agreement = a, eg_weight = 10,
           eg_available = True, eg_reasons = reasons\<rparr>))"

definition volatility_group :: "timeframe_analysis list \<Rightarrow> evidence_group result" where
  "volatility_group analyses =
     (let abnormal = map (\<lambda>t. interval_value (ta_interval t)) (filter (\<lambda>t. abnormal_volatility (ta_indicators t)) analyses) in
      check_evidence_group
        \<lparr>eg_name = ''volatility_quality'', eg_direction = NEUTRAL, eg_agreement = (if abnormal \<noteq> [] then 0 else 1),
         eg_weight = 5, eg_available = True,
         eg_reasons = (if abnormal \<noteq> [] then [''abnormal:'' @ join_text '','' abnormal] else [''normal relative volatility''])\<rparr>)"

subsection \<open>The analyzer\<close>

definition no_trade_list :: "timeframe_analysis list \<Rightarrow> direction \<Rightarrow> evidence_group \<Rightarrow> string list" where
  "no_trade_list analyses b volatility =
     (let major = set (map ta_direction (take 3 analyses)) in
      (if BULLISH \<in> major \<and> BEARISH \<in> major then [''major timeframes conflict''] else [])
    @ (if b = NEUTRAL then [''higher-timeframe bias is not reliable''] else [])
    @ (if eg_agreement volatility = 0 then [''abnormally volatile regime''] else [])
    @ (if ta_regime (analyses ! 0) \<in> {RANGE, NO_RELIABLE_REGIME} \<and> ta_regime (analyses ! 1) \<in> {RANGE, NO_RELIABLE_REGIME}
       then [''monthly and weekly regimes are not directional''] else []))"

definition counts_for :: "direction \<Rightarrow> evidence_group \<Rightarrow> bool" where
  "counts_for b g \<longleftrightarrow> eg_name g = ''volatility_quality'' \<or> eg_available g \<and> eg_direction g = b \<and> b \<noteq> NEUTRAL"

fun score_from :: "direction \<Rightarrow> decimal \<Rightarrow> evidence_group list \<Rightarrow> decimal" where
  "score_from b score [] = score"
| "score_from b score (g # gs) =
     score_from b (if counts_for b g then dadd score (dmul (of_int (eg_weight g)) (eg_agreement g)) else score) gs"

definition overall_regime :: "timeframe_analysis list \<Rightarrow> direction \<Rightarrow> string list \<Rightarrow> market_regime" where
  "overall_regime analyses b no_trade =
     (let four = take 4 analyses;
          aligned_trends = length (filter (\<lambda>t. ta_regime t = (if b = BULLISH then BULLISH_TREND else BEARISH_TREND)) four)
      in if list_ex (\<lambda>t. abnormal_volatility (ta_indicators t)) four then ABNORMALLY_VOLATILE
         else if ''major timeframes conflict'' \<in> set no_trade then TRANSITION
         else if b = BULLISH \<and> 2 \<le> aligned_trends then BULLISH_TREND
         else if b = BEARISH \<and> 2 \<le> aligned_trends then BEARISH_TREND
         else if 2 \<le> length (filter (\<lambda>t. ta_regime t = RANGE) four) then RANGE
         else if b \<noteq> NEUTRAL then TRANSITION else NO_RELIABLE_REGIME)"

text \<open>The exceptions the analyzer turns into a rejection, with their text.\<close>

fun caught_text :: "exn \<Rightarrow> string option" where
  "caught_text (MarketDataValidationError m) = Some m"
| "caught_text (ValueError m) = Some m"
| "caught_text _ = None"

definition rejected_analysis :: "string \<Rightarrow> analysis_result" where
  "rejected_analysis issue =
     \<lparr>ar_status = AN_REJECTED, directional_bias = NEUTRAL, ar_regime = NO_RELIABLE_REGIME, setup_quality_score = 0,
      score_is_probability = False, timeframes = [], evidence_groups = [],
      no_trade_reasons = [''required analysis input rejected''], ar_issues = [issue]\<rparr>"

definition combine_analyses ::
  "timeframe_analysis list \<Rightarrow> evidence_group \<Rightarrow> evidence_group \<Rightarrow> evidence_group \<Rightarrow> evidence_group \<Rightarrow> evidence_group
    \<Rightarrow> analysis_result result" where
  "combine_analyses analyses higher structure execution derivatives volatility =
     (let groups = [higher, structure, execution, derivatives, volatility];
          b = eg_direction higher;
          no_trade = no_trade_list analyses b volatility;
          raw = score_from b 0 groups;
          score = (if no_trade \<noteq> [] then min raw 59 else raw)
      in bind_result (quantize Round_Half_Even 0 score) (\<lambda>rounded.
         check_analysis_result
           \<lparr>ar_status = (if eg_available derivatives then AN_ACCEPTED else AN_DEGRADED), directional_bias = b,
            ar_regime = overall_regime analyses b no_trade, setup_quality_score = \<lfloor>rounded\<rfloor>,
            score_is_probability = False, timeframes = analyses, evidence_groups = groups,
            no_trade_reasons = fromkeys no_trade,
            ar_issues = (if eg_available derivatives then [] else [''optional derivatives confirmation unavailable''])\<rparr>))"

definition judge_timeframes :: "(decimal \<Rightarrow> string) \<Rightarrow> market_snapshot \<Rightarrow> timeframe_analysis list \<Rightarrow> analysis_result result" where
  "judge_timeframes show_dec m analyses =
     bind_result (timeframe_group ''higher_timeframe_bias'' (take 3 analyses) 40) (\<lambda>higher.
     bind_result (timeframe_group ''operational_structure'' (take 2 (drop 2 analyses)) 25) (\<lambda>structure.
     bind_result (timeframe_group ''execution_confirmation'' (take 2 (drop 4 analyses)) 20) (\<lambda>execution.
     bind_result (derivatives_group show_dec m) (\<lambda>derivatives.
     bind_result (volatility_group analyses) (\<lambda>volatility.
       combine_analyses analyses higher structure execution derivatives volatility)))))"

definition analyze :: "(decimal \<Rightarrow> string) \<Rightarrow> market_snapshot \<Rightarrow> analysis_result result" where
  "analyze show_dec m =
     (case analyze_timeframes show_dec m of
        Inl e \<Rightarrow> (case caught_text e of None \<Rightarrow> Inl e | Some text_e \<Rightarrow> check_analysis_result (rejected_analysis text_e))
      | Inr analyses \<Rightarrow> judge_timeframes show_dec m analyses)"

subsection \<open>Votes\<close>

lemma count_direction_le: "count_direction BULLISH ds + count_direction BEARISH ds \<le> length ds"
  by (induction ds) (auto simp: count_direction_def)

lemma majority_ok:
  assumes "ds \<noteq> []"
  shows "\<exists>d a. majority ds = Inr (d, a) \<and> 0 \<le> a \<and> a \<le> 1
    \<and> (d \<noteq> NEUTRAL \<longrightarrow> a = dquot (of_nat (count_direction d ds)) (of_nat (length ds)))
    \<and> (d = BULLISH \<longleftrightarrow> count_direction BEARISH ds < count_direction BULLISH ds)
    \<and> (d = BEARISH \<longleftrightarrow> count_direction BULLISH ds < count_direction BEARISH ds)"
proof -
  have len: "(0 :: rat) < of_nat (length ds)" "length ds \<noteq> 0" using assms by simp_all
  have r: "0 \<le> dquot (of_nat k) (of_nat (length ds)) \<and> dquot (of_nat k) (of_nat (length ds)) \<le> 1" if "k \<le> length ds" for k
  proof
    show "0 \<le> dquot (of_nat k) (of_nat (length ds))" by (rule quotient_nonneg) (use len in simp_all)
    show "dquot (of_nat k) (of_nat (length ds)) \<le> 1"
      unfolding dquot_def by (rule dec.upper) (use that len in \<open>simp_all add: dec_eval divide_le_eq\<close>)
  qed
  have c: "count_direction BULLISH ds \<le> length ds" "count_direction BEARISH ds \<le> length ds" using count_direction_le [of ds] by linarith+
  show ?thesis using r [OF c(1)] r [OF c(2)] len(2) by (auto simp: majority_def Let_def)
qed

text \<open>What the group of some timeframes is: its name and weight, and the majority of their directions.\<close>

lemma timeframe_group_ok:
  assumes "ts \<noteq> []" "name \<noteq> []" "0 \<le> weight" "weight \<le> 100"
  shows "\<exists>g. timeframe_group name ts weight = Inr g \<and> check_evidence_group g = Inr g \<and> eg_name g = name \<and> eg_weight g = weight
    \<and> eg_available g \<and> majority (map ta_direction ts) = Inr (eg_direction g, eg_agreement g)"
proof -
  obtain d a where "majority (map ta_direction ts) = Inr (d, a)" "0 \<le> a" "a \<le> 1" using majority_ok [of "map ta_direction ts"] assms(1) by auto
  then show ?thesis using assms by (simp add: timeframe_group_def check_evidence_group_def)
qed

lemma derivatives_group_ok:
  "\<exists>g. derivatives_group show_dec m = Inr g \<and> check_evidence_group g = Inr g \<and> eg_name g = ''derivatives_context'' \<and> eg_weight g = 10"
proof -
  obtain votes reasons where v: "derivatives_votes show_dec m = (votes, reasons)" by (cases "derivatives_votes show_dec m")
  show ?thesis
  proof (cases "votes = []")
    case False
    then obtain d a where "majority votes = Inr (d, a)" "0 \<le> a" "a \<le> 1" using majority_ok by blast
    then show ?thesis using False v by (simp add: derivatives_group_def check_evidence_group_def)
  qed (use v in \<open>simp add: derivatives_group_def check_evidence_group_def\<close>)
qed

lemma volatility_group_ok:
  "\<exists>g. volatility_group ts = Inr g \<and> check_evidence_group g = Inr g \<and> eg_name g = ''volatility_quality'' \<and> eg_weight g = 5
    \<and> (eg_agreement g = 0 \<longleftrightarrow> (\<exists>t \<in> set ts. abnormal_volatility (ta_indicators t)))"
  by (auto simp: volatility_group_def check_evidence_group_def Let_def filter_empty_conv)

subsection \<open>The score\<close>

lemma rnd28_of_int: "\<bar>n\<bar> < 10 ^ 28 \<Longrightarrow> rnd28 (of_int n) = of_int n"
  by (rule rnd28_exact, rule dec28_of_int)

lemma score_step:
  assumes "0 \<le> s" "s \<le> of_int k" "0 \<le> w" "0 \<le> a" "of_int w * a \<le> of_int j" "0 \<le> j" "j \<le> 1000" "0 \<le> k" "k \<le> 1000"
  shows "0 \<le> dadd s (dmul (of_int w) a)" "dadd s (dmul (of_int w) a) \<le> of_int (k + j)"
proof -
  have m: "0 \<le> dmul (of_int w) a" using assms(3,4) by (simp add: dmul_def dec.nonneg)
  have "dmul (of_int w) a \<le> of_int j" unfolding dmul_def by (rule dec.upper [OF rnd28_of_int assms(5)]) (use assms in simp)
  then have "s + dmul (of_int w) a \<le> of_int (k + j)" using assms(2) by simp
  then show "dadd s (dmul (of_int w) a) \<le> of_int (k + j)"
    unfolding dadd_def by (rule dec.upper [OF rnd28_of_int, rotated]) (use assms in simp)
  show "0 \<le> dadd s (dmul (of_int w) a)" using m assms(1) by (simp add: dadd_def dec.nonneg)
qed

lemma score_term:
  assumes "check_evidence_group g = Inr g" "0 \<le> s" "s \<le> of_int k" "0 \<le> k" "k \<le> 1000"
    and "counts_for b g \<Longrightarrow> of_int (eg_weight g) * eg_agreement g \<le> of_int j" "0 \<le> j" "j \<le> 1000"
  defines "s' \<equiv> (if counts_for b g then dadd s (dmul (of_int (eg_weight g)) (eg_agreement g)) else s)"
  shows "0 \<le> s' \<and> s' \<le> of_int (k + j)"
proof (cases "counts_for b g")
  case True
  have "0 \<le> eg_weight g" "0 \<le> eg_agreement g" using assms(1) by (auto simp: check_evidence_group_def split: if_splits)
  from score_step [OF assms(2,3) this assms(6) [OF True] assms(7,8,4,5)] show ?thesis using True by (simp add: s'_def)
qed (use assms(2,3,7) in \<open>simp add: s'_def\<close>)

text \<open>An upper bound of the score from upper bounds of the five terms.\<close>

lemma score_bound:
  assumes ok: "\<And>g. g \<in> {h, s, e, d, v} \<Longrightarrow> check_evidence_group g = Inr g"
    and "counts_for b h \<Longrightarrow> of_int (eg_weight h) * eg_agreement h \<le> of_int jh" "counts_for b s \<Longrightarrow> of_int (eg_weight s) * eg_agreement s \<le> of_int js"
    "counts_for b e \<Longrightarrow> of_int (eg_weight e) * eg_agreement e \<le> of_int je" "counts_for b d \<Longrightarrow> of_int (eg_weight d) * eg_agreement d \<le> of_int jd"
    "counts_for b v \<Longrightarrow> of_int (eg_weight v) * eg_agreement v \<le> of_int jv"
    and j: "0 \<le> jh" "jh \<le> 100" "0 \<le> js" "js \<le> 100" "0 \<le> je" "je \<le> 100" "0 \<le> jd" "jd \<le> 100" "0 \<le> jv" "jv \<le> 100"
  shows "0 \<le> score_from b 0 [h, s, e, d, v] \<and> score_from b 0 [h, s, e, d, v] \<le> of_int (jh + js + je + jd + jv)"
proof -
  let ?f = "\<lambda>g x. if counts_for b g then dadd x (dmul (of_int (eg_weight g)) (eg_agreement g)) else x"
  have 1: "0 \<le> ?f h 0 \<and> ?f h 0 \<le> of_int (0 + jh)" by (rule score_term) (use assms in auto)
  have 2: "0 \<le> ?f s (?f h 0) \<and> ?f s (?f h 0) \<le> of_int (0 + jh + js)" by (rule score_term) (use 1 assms in auto)
  have 3: "0 \<le> ?f e (?f s (?f h 0)) \<and> ?f e (?f s (?f h 0)) \<le> of_int (0 + jh + js + je)" by (rule score_term) (use 2 assms in auto)
  have 4: "0 \<le> ?f d (?f e (?f s (?f h 0))) \<and> ?f d (?f e (?f s (?f h 0))) \<le> of_int (0 + jh + js + je + jd)" by (rule score_term) (use 3 assms in auto)
  have 5: "0 \<le> ?f v (?f d (?f e (?f s (?f h 0)))) \<and> ?f v (?f d (?f e (?f s (?f h 0)))) \<le> of_int (0 + jh + js + je + jd + jv)"
    by (rule score_term) (use 4 assms in auto)
  then show ?thesis by simp
qed

lemma quantize_whole:
  assumes "0 \<le> x" "x \<le> of_int k" "k \<le> 1000"
  shows "\<exists>n. quantize Round_Half_Even 0 x = Inr (of_int n) \<and> 0 \<le> n \<and> n \<le> k \<and> of_int n - 1 / 2 \<le> x"
proof -
  have "0 \<le> round_half_even x" using round_half_even_ge [of 0 x] assms(1) by simp
  moreover have "round_half_even x \<le> k" by (rule round_half_even_le [OF assms(2)])
  moreover have "of_int (round_half_even x) - 1 / 2 \<le> x" using round_half_even_error [of x] by linarith
  ultimately show ?thesis using assms(3) by (simp add: quantize_def round_with_def Let_def)
qed

lemma indicators_bounded_facts:
  assumes "series_ok s"
  shows "calculate_indicators s = Inl e \<Longrightarrow> \<exists>m. e = ValueError m" "calculate_indicators s = Inr i \<Longrightarrow> 0 < bollinger_middle i"
  using indicators_total [OF assms] by (auto split: if_splits)

subsection \<open>The result of the analyzer\<close>

definition snapshot_ok :: "market_snapshot \<Rightarrow> bool" where
  "snapshot_ok m \<longleftrightarrow> check_snapshot m = Inr m \<and> list_all series_ok (spot_series m @ futures_series m)"

lemma timeframe_regime_ok: "0 < bollinger_middle i \<Longrightarrow> \<exists>r. timeframe_regime i ind str = Inr r"
  by (simp add: timeframe_regime_def Let_def)

lemma analyze_timeframe_cases:
  assumes "snapshot_ok m"
  shows "case analyze_timeframe show_dec m iv of Inl e \<Rightarrow> caught_text e \<noteq> None | Inr t \<Rightarrow> ta_interval t = iv"
proof (cases "series_for m SPOT iv")
  case (Inl e)
  then show ?thesis by (auto simp: analyze_timeframe_def series_for_def split: option.splits)
next
  case (Inr series)
  have ok: "series_ok series" using series_for_Inr [OF Inr] assms by (auto simp: snapshot_ok_def list_all_iff)
  note bounded = indicators_bounded_facts [OF ok]
  show ?thesis
  proof (cases "calculate_indicators series")
    case (Inl e)
    then show ?thesis using bounded(1) Inr by (auto simp: analyze_timeframe_def)
  next
    case i: (Inr i)
    then obtain r where r: "timeframe_regime i ind str = Inr (r ind str)" for ind str
      using timeframe_regime_ok bounded(2) by metis
    show ?thesis
    proof (cases "analyze_structure series (atr_14 i)")
      case (Inl e)
      then show ?thesis using structure_error [OF Inl] Inr i by (auto simp: analyze_timeframe_def)
    next
      case (Inr st)
      then show ?thesis using i r \<open>series_for m SPOT iv = Inr series\<close> by (auto simp: analyze_timeframe_def Let_def)
    qed
  qed
qed

lemma map_result_Inl_elem: "map_result f xs = Inl e \<Longrightarrow> \<exists>x \<in> set xs. f x = Inl e"
  by (induction xs) (auto simp: bind_result_eq_Inl)

lemma analyze_timeframes_cases:
  assumes "snapshot_ok m"
  shows "case analyze_timeframes show_dec m of Inl e \<Rightarrow> caught_text e \<noteq> None | Inr ts \<Rightarrow> map ta_interval ts = analysis_intervals"
proof (cases "analyze_timeframes show_dec m")
  case (Inl e)
  then obtain iv where "analyze_timeframe show_dec m iv = Inl e" by (auto simp: analyze_timeframes_def dest: map_result_Inl_elem)
  then show ?thesis using analyze_timeframe_cases [OF assms, where show_dec = show_dec and iv = iv] Inl by simp
next
  case (Inr ts)
  have "map ta_interval ts = analysis_intervals"
  proof (rule nth_equalityI)
    show "length (map ta_interval ts) = length analysis_intervals"
      using map_result_Inr_length [OF Inr [unfolded analyze_timeframes_def]] by simp
    show "map ta_interval ts ! i = analysis_intervals ! i" if "i < length (map ta_interval ts)" for i
      using map_result_Inr_nth [OF Inr [unfolded analyze_timeframes_def], of i] that
        map_result_Inr_length [OF Inr [unfolded analyze_timeframes_def]]
        analyze_timeframe_cases [OF assms, where show_dec = show_dec and iv = "analysis_intervals ! i"] by simp
  qed
  then show ?thesis using Inr by simp
qed

text \<open>Every accepted or degraded analysis comes from six timeframes and five groups.\<close>

lemma judge_parts:
  assumes "map ta_interval ts = analysis_intervals"
  obtains h s e d v where
    "judge_timeframes show_dec m ts = combine_analyses ts h s e d v"
    "\<forall>g \<in> {h, s, e, d, v}. check_evidence_group g = Inr g"
    "map eg_name [h, s, e, d, v] = [''higher_timeframe_bias'', ''operational_structure'', ''execution_confirmation'',
       ''derivatives_context'', ''volatility_quality'']"
    "map eg_weight [h, s, e, d, v] = [40, 25, 20, 10, 5]"
    "majority (map ta_direction (take 3 ts)) = Inr (eg_direction h, eg_agreement h)"
    "majority (map ta_direction (take 2 (drop 2 ts))) = Inr (eg_direction s, eg_agreement s)"
    "majority (map ta_direction (take 2 (drop 4 ts))) = Inr (eg_direction e, eg_agreement e)"
    "eg_available h" "eg_available s" "eg_available e"
    "eg_agreement v = 0 \<longleftrightarrow> (\<exists>t \<in> set ts. abnormal_volatility (ta_indicators t))"
proof -
  have len: "length ts = 6" using arg_cong [OF assms, of length] by (simp add: analysis_intervals_def)
  then have ne: "take 3 ts \<noteq> []" "take 2 (drop 2 ts) \<noteq> []" "take 2 (drop 4 ts) \<noteq> []" by auto
  obtain h where h: "timeframe_group ''higher_timeframe_bias'' (take 3 ts) 40 = Inr h" "check_evidence_group h = Inr h"
    "eg_name h = ''higher_timeframe_bias''" "eg_weight h = 40" "eg_available h"
    "majority (map ta_direction (take 3 ts)) = Inr (eg_direction h, eg_agreement h)"
    using timeframe_group_ok [OF ne(1), of "''higher_timeframe_bias''" 40] by auto
  obtain s where s: "timeframe_group ''operational_structure'' (take 2 (drop 2 ts)) 25 = Inr s" "check_evidence_group s = Inr s"
    "eg_name s = ''operational_structure''" "eg_weight s = 25" "eg_available s"
    "majority (map ta_direction (take 2 (drop 2 ts))) = Inr (eg_direction s, eg_agreement s)"
    using timeframe_group_ok [OF ne(2), of "''operational_structure''" 25] by auto
  obtain e where e: "timeframe_group ''execution_confirmation'' (take 2 (drop 4 ts)) 20 = Inr e" "check_evidence_group e = Inr e"
    "eg_name e = ''execution_confirmation''" "eg_weight e = 20" "eg_available e"
    "majority (map ta_direction (take 2 (drop 4 ts))) = Inr (eg_direction e, eg_agreement e)"
    using timeframe_group_ok [OF ne(3), of "''execution_confirmation''" 20] by auto
  obtain d where d: "derivatives_group show_dec m = Inr d" "check_evidence_group d = Inr d" "eg_name d = ''derivatives_context''"
    "eg_weight d = 10" using derivatives_group_ok by blast
  obtain v where v: "volatility_group ts = Inr v" "check_evidence_group v = Inr v" "eg_name v = ''volatility_quality''"
    "eg_weight v = 5" "eg_agreement v = 0 \<longleftrightarrow> (\<exists>t \<in> set ts. abnormal_volatility (ta_indicators t))"
    using volatility_group_ok by blast
  have "judge_timeframes show_dec m ts = combine_analyses ts h s e d v" using h(1) s(1) e(1) d(1) v(1) by (simp add: judge_timeframes_def)
  then show thesis by (rule that) (use h s e d v in auto)
qed

lemma combine_ok:
  assumes ok: "\<forall>g \<in> {h, s, e, d, v}. check_evidence_group g = Inr g"
    and w: "map eg_weight [h, s, e, d, v] = [40, 25, 20, 10, 5]"
  shows "\<exists>r. combine_analyses ts h s e d v = Inr r \<and> check_analysis_result r = Inr r \<and> timeframes r = ts
    \<and> evidence_groups r = [h, s, e, d, v] \<and> directional_bias r = eg_direction h
    \<and> no_trade_reasons r = fromkeys (no_trade_list ts (eg_direction h) v)
    \<and> ar_status r = (if eg_available d then AN_ACCEPTED else AN_DEGRADED)
    \<and> ar_regime r = overall_regime ts (eg_direction h) (no_trade_list ts (eg_direction h) v)
    \<and> of_int (setup_quality_score r) - 1 / 2 \<le> score_from (eg_direction h) 0 [h, s, e, d, v]
    \<and> (no_trade_reasons r \<noteq> [] \<longrightarrow> setup_quality_score r \<le> 59)"
proof -
  let ?b = "eg_direction h"
  let ?raw = "score_from ?b 0 [h, s, e, d, v]" and ?no = "no_trade_list ts ?b v"
  let ?score = "if ?no \<noteq> [] then min ?raw 59 else ?raw"
  have ag: "eg_agreement g \<le> 1" if "g \<in> {h, s, e, d, v}" for g
    using bspec [OF ok that] by (auto simp: check_evidence_group_def split: if_splits)
  have raw: "0 \<le> ?raw \<and> ?raw \<le> of_int (40 + 25 + 20 + 10 + 5)"
    by (rule score_bound [OF bspec [OF ok]]) (use w ag [of h] ag [of s] ag [of e] ag [of d] ag [of v] in simp_all)
  have "\<exists>n. quantize Round_Half_Even 0 ?score = Inr (of_int n) \<and> 0 \<le> n \<and> n \<le> (if ?no \<noteq> [] then 59 else 100)
      \<and> of_int n - 1 / 2 \<le> ?score"
    by (rule quantize_whole) (use raw in auto)
  then obtain n where n: "quantize Round_Half_Even 0 ?score = Inr (of_int n)" "0 \<le> n" "n \<le> (if ?no \<noteq> [] then 59 else 100)"
    "of_int n - 1 / 2 \<le> ?score" by blast
  have "n \<le> 100" "of_int n - 1 / 2 \<le> ?raw" using n(3,4) by (auto split: if_splits)
  then show ?thesis using n(1-3) unfolding combine_analyses_def Let_def n(1) by (auto simp: check_analysis_result_def)
qed

lemma analyze_ok:
  assumes "snapshot_ok m"
  shows "\<exists>r. analyze show_dec m = Inr r \<and> check_analysis_result r = Inr r
    \<and> 0 \<le> setup_quality_score r \<and> setup_quality_score r \<le> 100 \<and> \<not> score_is_probability r
    \<and> (\<not> reliable r \<longrightarrow> setup_quality_score r \<le> 59)
    \<and> (if ar_status r = AN_REJECTED then timeframes r = [] \<and> setup_quality_score r = 0
       else map ta_interval (timeframes r) = analysis_intervals \<and> map eg_weight (evidence_groups r) = [40, 25, 20, 10, 5]
         \<and> (\<forall>g \<in> set (evidence_groups r). check_evidence_group g = Inr g))"
proof (cases "analyze_timeframes show_dec m")
  case (Inl e)
  then obtain x where "caught_text e = Some x" using analyze_timeframes_cases [OF assms, of show_dec] by auto
  then show ?thesis using Inl by (simp add: analyze_def check_analysis_result_def rejected_analysis_def reliable_def)
next
  case (Inr ts)
  then have iv: "map ta_interval ts = analysis_intervals" using analyze_timeframes_cases [OF assms, of show_dec] by simp
  obtain h s e d v where p: "judge_timeframes show_dec m ts = combine_analyses ts h s e d v"
    "\<forall>g \<in> {h, s, e, d, v}. check_evidence_group g = Inr g"
    "map eg_name [h, s, e, d, v] = [''higher_timeframe_bias'', ''operational_structure'', ''execution_confirmation'',
       ''derivatives_context'', ''volatility_quality'']"
    "map eg_weight [h, s, e, d, v] = [40, 25, 20, 10, 5]"
    "majority (map ta_direction (take 3 ts)) = Inr (eg_direction h, eg_agreement h)"
    "majority (map ta_direction (take 2 (drop 2 ts))) = Inr (eg_direction s, eg_agreement s)"
    "majority (map ta_direction (take 2 (drop 4 ts))) = Inr (eg_direction e, eg_agreement e)"
    "eg_available h" "eg_available s" "eg_available e"
    "eg_agreement v = 0 \<longleftrightarrow> (\<exists>t \<in> set ts. abnormal_volatility (ta_indicators t))"
    by (rule judge_parts [OF iv])
  obtain r where r: "combine_analyses ts h s e d v = Inr r" "check_analysis_result r = Inr r" "timeframes r = ts"
    "evidence_groups r = [h, s, e, d, v]" "ar_status r = (if eg_available d then AN_ACCEPTED else AN_DEGRADED)"
    "no_trade_reasons r \<noteq> [] \<longrightarrow> setup_quality_score r \<le> 59"
    using combine_ok [OF p(2,4), of ts] by blast
  have "0 \<le> setup_quality_score r \<and> setup_quality_score r \<le> 100 \<and> \<not> score_is_probability r"
    using r(2) by (auto simp: check_analysis_result_def split: if_splits)
  then show ?thesis using p r iv Inr by (auto simp: analyze_def reliable_def split: if_splits)
qed

text \<open>
  C10: the analysis of a valid snapshot always returns a valid result.  Nothing is raised: an
  incomplete, short or missing series, and a degenerate price zone, become a rejection with a
  score of 0.  Otherwise the result holds the six timeframes in their order and the five
  evidence groups with weights adding up to 100.  The score lies between 0 and 100 and is not a
  probability; with any reason not to trade it stays below 60.
\<close>

theorem analysis_returns:
  assumes "snapshot_ok m"
  shows "\<exists>r. analyze show_dec m = Inr r \<and> check_analysis_result r = Inr r
    \<and> 0 \<le> setup_quality_score r \<and> setup_quality_score r \<le> 100 \<and> \<not> score_is_probability r
    \<and> (\<not> reliable r \<longrightarrow> setup_quality_score r \<le> 59)
    \<and> (if ar_status r = AN_REJECTED then timeframes r = [] \<and> setup_quality_score r = 0
       else map ta_interval (timeframes r) = analysis_intervals \<and> map eg_weight (evidence_groups r) = [40, 25, 20, 10, 5]
         \<and> (\<forall>g \<in> set (evidence_groups r). check_evidence_group g = Inr g))"
  by (rule analyze_ok [OF assms])

text \<open>
  C33: what a reliable analysis guarantees, whatever the six timeframes are.  There is a directional bias; at least one of the
  monthly, weekly and daily timeframes has it and none points against it; no timeframe is
  abnormally volatile, and the monthly and weekly regimes are not both undirected.  A score of
  at least 80 (the default threshold for a signal) further needs two of those three timeframes
  and the daily or the four-hour one on the side of the bias, with neither of these against it.
\<close>

theorem reliable_analysis_means:
  assumes iv: "map ta_interval ts = analysis_intervals" and "judge_timeframes show_dec m ts = Inr r" "reliable r"
  defines "dirs \<equiv> map ta_direction (timeframes r)" and "b \<equiv> directional_bias r"
    and "against \<equiv> (if directional_bias r = BULLISH then BEARISH else BULLISH)"
  shows "b \<noteq> NEUTRAL \<and> length (timeframes r) = 6 \<and> against \<notin> set (take 3 dirs) \<and> b \<in> set (take 3 dirs)
    \<and> (\<forall>t \<in> set (timeframes r). \<not> abnormal_volatility (ta_indicators t))
    \<and> (ta_regime (timeframes r ! 0) \<notin> {RANGE, NO_RELIABLE_REGIME} \<or> ta_regime (timeframes r ! 1) \<notin> {RANGE, NO_RELIABLE_REGIME})
    \<and> (80 \<le> setup_quality_score r \<longrightarrow>
        2 \<le> count_direction b (take 3 dirs) \<and> b \<in> set (take 2 (drop 2 dirs)) \<and> against \<notin> set (take 2 (drop 2 dirs)))"
proof -
  have len: "length ts = 6" using arg_cong [OF iv, of length] by (simp add: analysis_intervals_def)
  obtain h s e d v where p: "judge_timeframes show_dec m ts = combine_analyses ts h s e d v"
    "\<forall>g \<in> {h, s, e, d, v}. check_evidence_group g = Inr g"
    "map eg_name [h, s, e, d, v] = [''higher_timeframe_bias'', ''operational_structure'', ''execution_confirmation'',
       ''derivatives_context'', ''volatility_quality'']"
    "map eg_weight [h, s, e, d, v] = [40, 25, 20, 10, 5]"
    "majority (map ta_direction (take 3 ts)) = Inr (eg_direction h, eg_agreement h)"
    "majority (map ta_direction (take 2 (drop 2 ts))) = Inr (eg_direction s, eg_agreement s)"
    "majority (map ta_direction (take 2 (drop 4 ts))) = Inr (eg_direction e, eg_agreement e)"
    "eg_available h" "eg_available s" "eg_available e"
    "eg_agreement v = 0 \<longleftrightarrow> (\<exists>t \<in> set ts. abnormal_volatility (ta_indicators t))"
    by (rule judge_parts [OF iv])
  have r: "timeframes r = ts" "b = eg_direction h" "no_trade_list ts (eg_direction h) v = []"
    "of_int (setup_quality_score r) - 1 / 2 \<le> score_from (eg_direction h) 0 [h, s, e, d, v]"
  proof -
    obtain q where q: "combine_analyses ts h s e d v = Inr q" "timeframes q = ts" "directional_bias q = eg_direction h"
      "no_trade_reasons q = fromkeys (no_trade_list ts (eg_direction h) v)"
      "of_int (setup_quality_score q) - 1 / 2 \<le> score_from (eg_direction h) 0 [h, s, e, d, v]"
      using combine_ok [OF p(2,4), of ts] by blast
    have "q = r" using q(1) p(1) assms(2) by simp
    moreover have "no_trade_reasons r = []" using assms(3) by (simp add: reliable_def)
    ultimately show "timeframes r = ts" "b = eg_direction h" "no_trade_list ts (eg_direction h) v = []"
      "of_int (setup_quality_score r) - 1 / 2 \<le> score_from (eg_direction h) 0 [h, s, e, d, v]"
      using q(2,3,5) q(4) [symmetric] by (simp_all only: b_def fromkeys_eq_Nil)
  qed
  have no: "\<not> (BULLISH \<in> set (take 3 dirs) \<and> BEARISH \<in> set (take 3 dirs))" "b \<noteq> NEUTRAL" "eg_agreement v \<noteq> 0"
    "ta_regime (ts ! 0) \<notin> {RANGE, NO_RELIABLE_REGIME} \<or> ta_regime (ts ! 1) \<notin> {RANGE, NO_RELIABLE_REGIME}"
    using r(3) unfolding no_trade_list_def Let_def dirs_def r(1,2) by (auto simp: take_map split: if_splits)
  have ne: "take 3 dirs \<noteq> []" "take 2 (drop 2 dirs) \<noteq> []" "length (take 3 dirs) = 3" "length (take 2 (drop 2 dirs)) = 2"
    using len by (auto simp: dirs_def r(1))
  have mem: "x \<in> set ds \<longleftrightarrow> 0 < count_direction x ds" for x ds by (induction ds) (auto simp: count_direction_def)
  have h: "majority (take 3 dirs) = Inr (b, eg_agreement h)" "majority (take 2 (drop 2 dirs)) = Inr (eg_direction s, eg_agreement s)"
    using p(5,6) by (simp_all add: dirs_def r(1,2) take_map drop_map)
  note mh = majority_ok [OF ne(1)] and msd = majority_ok [OF ne(2)]
  have against: "against = (if b = BULLISH then BEARISH else BULLISH)" by (simp add: against_def b_def)
  have first: "b \<in> set (take 3 dirs)" "against \<notin> set (take 3 dirs)"
  proof -
    have m: "b = BULLISH \<longleftrightarrow> count_direction BEARISH (take 3 dirs) < count_direction BULLISH (take 3 dirs)"
      "b = BEARISH \<longleftrightarrow> count_direction BULLISH (take 3 dirs) < count_direction BEARISH (take 3 dirs)"
      using mh unfolding h(1) by simp_all
    have "b = BULLISH \<or> b = BEARISH" using no(2) by (cases b) simp_all
    then show b: "b \<in> set (take 3 dirs)" unfolding mem using m by fastforce
    then show "against \<notin> set (take 3 dirs)" using no(1) \<open>b = BULLISH \<or> b = BEARISH\<close> unfolding against by auto
  qed
  have high: "2 \<le> count_direction b (take 3 dirs) \<and> b \<in> set (take 2 (drop 2 dirs)) \<and> against \<notin> set (take 2 (drop 2 dirs))"
    if "80 \<le> setup_quality_score r"
  proof -
    have raw: "79 < score_from b 0 [h, s, e, d, v]"
    proof -
      have "(80 :: rat) \<le> of_int (setup_quality_score r)" using that by simp
      then show ?thesis using r(4) unfolding r(2) by linarith
    qed
    have ag: "eg_agreement g \<le> 1" if "g \<in> {h, s, e, d, v}" for g
      using bspec [OF p(2) that] by (auto simp: check_evidence_group_def split: if_splits)
    have two: "2 \<le> count_direction b (take 3 dirs)"
    proof (rule ccontr)
      assume "\<not> 2 \<le> count_direction b (take 3 dirs)"
      moreover have "eg_agreement h = dquot (of_nat (count_direction b (take 3 dirs))) 3" using mh h(1) no(2) ne(3) by auto
      moreover have "0 < count_direction b (take 3 dirs)" using first(1) mem by simp
      ultimately have "eg_agreement h = rnd28 (1 / 3)" by (cases "count_direction b (take 3 dirs) = 1") (auto simp: dquot_def)
      moreover have "rnd28 (1 / 3) \<le> 34 / 100" by (rule dec.upper [OF rnd28_fraction]) simp_all
      ultimately have third: "eg_agreement h \<le> 34 / 100" by simp
      have "0 \<le> score_from b 0 [h, s, e, d, v] \<and> score_from b 0 [h, s, e, d, v] \<le> of_int (14 + 25 + 20 + 10 + 5)"
        by (rule score_bound [OF bspec [OF p(2)]]) (use third p(4) ag [of s] ag [of e] ag [of d] ag [of v] in simp_all)
      then show False using raw by simp
    qed
    have aligned: "eg_direction s = b"
    proof (rule ccontr)
      assume "eg_direction s \<noteq> b"
      then have "\<not> counts_for b s" using p(3) by (simp add: counts_for_def)
      have "0 \<le> score_from b 0 [h, s, e, d, v] \<and> score_from b 0 [h, s, e, d, v] \<le> of_int (40 + 0 + 20 + 10 + 5)"
        by (rule score_bound [OF bspec [OF p(2)]]) (use \<open>\<not> counts_for b s\<close> p(4) ag [of h] ag [of e] ag [of d] ag [of v] in simp_all)
      then show False using raw by simp
    qed
    have two_le: "count_direction BULLISH (take 2 (drop 2 dirs)) + count_direction BEARISH (take 2 (drop 2 dirs)) \<le> 2"
      using count_direction_le [of "take 2 (drop 2 dirs)"] ne(4) by simp
    have "b \<in> set (take 2 (drop 2 dirs))" "against \<notin> set (take 2 (drop 2 dirs))"
      using msd h(2) aligned no(2) two_le unfolding against mem by (cases b; auto)+
    then show ?thesis using two by blast
  qed
  show ?thesis using no first high len p(11) r(1) by auto
qed

subsection \<open>Witnesses\<close>

definition sample_snapshot :: market_snapshot where
  "sample_snapshot =
     \<lparr>captured_at = 1000 * usec_minute, spot_series = [flat_series 60],
      futures_series = [[(minute_candle 1 100 101 99 100)\<lparr>c_venue := FUTURES\<rparr>]],
      ms_funding = \<lparr>fs_mark_price = 100, fs_index_price = 100, last_funding_rate = 0, next_funding_time = 0,
        fs_observed_at = 0, fs_symbol = ''BTCUSDT''\<rparr>,
      ms_open_interest = \<lparr>open_interest = 1, oi_observed_at = 0, open_interest_value = None, oi_symbol = ''BTCUSDT''\<rparr>,
      funding_history = [], open_interest_history = [], taker_volume = [], ms_order_book = None\<rparr>"

lemma flat_series_hd: "0 < n \<Longrightarrow> hd (flat_series n) = minute_candle 1 100 101 99 100"
  by (simp add: flat_series_def upt_conv_Cons del: upt_Suc)

lemma sample_snapshot_ok: "snapshot_ok sample_snapshot"
proof -
  have "candle_ok (minute_candle 1 100 101 99 100)" by (rule minute_candle_ok) simp_all
  then have "candle_ok ((minute_candle 1 100 101 99 100)\<lparr>c_venue := FUTURES\<rparr>)"
    by (auto simp: candle_ok_def check_candle_def bind_result_def split: sum.splits if_splits)
  then show ?thesis
    using flat_series_ok(1) [of 60] flat_series_hd [of 60]
    by (simp add: snapshot_ok_def check_snapshot_def sample_snapshot_def series_venue_def series_key_def series_interval_def series_ok_def)
qed

theorem analysis_returns_witness:
  "\<exists>r. analyze (\<lambda>_. ''x'') sample_snapshot = Inr r \<and> setup_quality_score r \<le> 100"
  using analysis_returns [OF sample_snapshot_ok, of "\<lambda>_. ''x''"] by blast

definition sample_indicators :: indicators where
  "sample_indicators =
     \<lparr>ema_20 = 90, ema_50 = 80, ema_100 = None, ema_200 = None, rsi_14 = 60, macd = 2, macd_signal = 1, macd_histogram = 1,
      adx_14 = 30, atr_14 = 1, normalized_atr = 1 / 100, bollinger_upper = 110, bollinger_middle = 100, bollinger_lower = 90,
      rolling_vwap = 100, volume_ratio = 1, abnormal_volatility = False\<rparr>"

definition sample_timeframe :: "market_interval \<Rightarrow> timeframe_analysis" where
  "sample_timeframe iv =
     \<lparr>ta_interval = iv, ta_direction = BULLISH, ta_regime = BULLISH_TREND, ta_indicators = sample_indicators,
      ta_structure = \<lparr>st_direction = BULLISH, higher_highs = True, higher_lows = True, lower_highs = False, lower_lows = False,
        break_of_structure = BULLISH, change_of_character = NEUTRAL,
        support_zones = [\<lparr>z_lower = 98, z_upper = 99, z_touches = 2\<rparr>], resistance_zones = []\<rparr>,
      ta_reasons = []\<rparr>"

definition sample_timeframes :: "timeframe_analysis list" where
  "sample_timeframes = map sample_timeframe analysis_intervals"

lemma sample_judged:
  "\<exists>r. judge_timeframes show_dec sample_snapshot sample_timeframes = Inr r \<and> reliable r \<and> setup_quality_score r = 90
     \<and> ar_status r = AN_DEGRADED \<and> directional_bias r = BULLISH \<and> ar_regime r = BULLISH_TREND \<and> timeframes r = sample_timeframes"
proof -
  have m: "majority [BULLISH, BULLISH, BULLISH] = Inr (BULLISH, 1)" "majority [BULLISH, BULLISH] = Inr (BULLISH, 1)"
    by (simp_all add: majority_def count_direction_def dquot_def dec_eval)
  have q: "quantize Round_Half_Even 0 90 = Inr 90" by (simp add: quantize_def round_with_def round_half_even_of_int [of 90, simplified])
  show ?thesis
    by (simp add: judge_timeframes_def sample_timeframes_def analysis_intervals_def timeframe_group_def sample_timeframe_def m
        check_evidence_group_def derivatives_group_def derivatives_votes_def sample_snapshot_def volatility_group_def sample_indicators_def
        combine_analyses_def no_trade_list_def counts_for_def dec_eval_ops q check_analysis_result_def reliable_def overall_regime_def)
qed

theorem reliable_analysis_means_witness:
  "\<exists>r. judge_timeframes (\<lambda>_. ''x'') sample_snapshot sample_timeframes = Inr r \<and> reliable r
     \<and> 2 \<le> count_direction BULLISH (take 3 (map ta_direction (timeframes r)))"
proof -
  have iv: "map ta_interval sample_timeframes = analysis_intervals"
    by (simp add: sample_timeframes_def analysis_intervals_def sample_timeframe_def)
  obtain r where r: "judge_timeframes (\<lambda>_. ''x'') sample_snapshot sample_timeframes = Inr r" "reliable r"
    "setup_quality_score r = 90" "directional_bias r = BULLISH" using sample_judged by blast
  then show ?thesis using reliable_analysis_means [OF iv r(1,2)] by (intro exI [of _ r]) simp
qed

end
