(* ===== verification/News.thy ===== *)
theory News
  imports Statistics PyText
begin

section \<open>News risk\<close>

text \<open>
  \<^verbatim>\<open>news/models.py\<close>, \<^verbatim>\<open>news/sources.py\<close> and \<^verbatim>\<open>news/engine.py\<close>: sources, items, events and the risk
  assessment; clustering of similar items, classification by words, and the windows in which
  new signals are blocked.  Strings are ASCII, so Unicode normalization is the identity and
  \<^verbatim>\<open>casefold\<close> lowers letters.  The functions of \<^verbatim>\<open>urllib.parse\<close> and the hash are the fields
  of a \<open>text_library\<close>, an argument of the definitions that use them.

  The lemmas show that the assessment never raises on validated items and decide exactly when
  it blocks, cautions or is clear; that the events partition the usable items; and how an
  event is confirmed.
\<close>

subsection \<open>Library functions and text\<close>

record url_parts =
  up_scheme :: string
  up_netloc :: string
  up_path :: string
  up_query :: string
  up_hostname :: "string option"
  up_username :: "string option"
  up_password :: "string option"

record text_library =
  url_split :: "string \<Rightarrow> url_parts"
  query_parse :: "string \<Rightarrow> (string \<times> string) list"
  query_encode :: "(string \<times> string) list \<Rightarrow> string"
  url_unsplit :: "string \<times> string \<times> string \<times> string \<times> string \<Rightarrow> string"
  sha256_hex :: "string \<Rightarrow> string"

definition lower_char :: "char \<Rightarrow> char" where
  "lower_char c = (let n = (of_char c :: nat) in if 65 \<le> n \<and> n \<le> 90 then char_of (n + 32) else c)"

definition casefold :: "string \<Rightarrow> string" where "casefold s = map lower_char s"

definition word_char :: "char \<Rightarrow> bool" where
  "word_char c = (let n = (of_char c :: nat) in 97 \<le> n \<and> n \<le> 122 \<or> 48 \<le> n \<and> n \<le> 57)"

text \<open>The maximal runs of characters that satisfy a predicate: \<^verbatim>\<open>re.findall("[...]+", s)\<close>.\<close>

fun runs :: "(char \<Rightarrow> bool) \<Rightarrow> string \<Rightarrow> string \<Rightarrow> string list" where
  "runs P run [] = (if run = [] then [] else [rev run])"
| "runs P run (c # cs) =
     (if P c then runs P (c # run) cs else if run = [] then runs P [] cs else rev run # runs P [] cs)"

definition find_words :: "string \<Rightarrow> string list" where "find_words s = runs word_char [] s"
definition split_space :: "string \<Rightarrow> string list" where "split_space s = runs (\<lambda>c. \<not> is_space c) [] s"

text \<open>\<^verbatim>\<open>" ".join(s.split())\<close> and \<^verbatim>\<open>term in s\<close>.\<close>

definition squeeze :: "string \<Rightarrow> string" where "squeeze s = join_text '' '' (split_space s)"

fun contains :: "string \<Rightarrow> string \<Rightarrow> bool" where
  "contains s part = (take (length part) s = part \<or> (case s of [] \<Rightarrow> False | _ # rest \<Rightarrow> contains rest part))"

declare contains.simps [simp del]

definition truthy_text :: "string option \<Rightarrow> bool" where
  "truthy_text x = (case x of None \<Rightarrow> False | Some s \<Rightarrow> s \<noteq> [])"

subsection \<open>Records\<close>

datatype source_tier = OFFICIAL | REPUTABLE | AGGREGATOR | UNKNOWN_TIER

datatype news_category =
    REGULATORY | ETF | CENTRAL_BANK | ECONOMIC | EXCHANGE | STABLECOIN | INSOLVENCY | INSTITUTIONAL
  | GEOPOLITICAL | BITCOIN | OTHER_CATEGORY

datatype news_direction = POSITIVE | NEGATIVE | NO_DIRECTION | UNCERTAIN

datatype volatility_impact = LOW | MEDIUM | HIGH | EXTREME

datatype confirmation_status = OFFICIAL_CONFIRMED | CORROBORATED | UNCONFIRMED

datatype risk_decision = CLEAR | CAUTION | BLOCK

record source_spec =
  src_id :: string
  src_name :: string
  src_url :: string
  src_tier :: source_tier
  src_required :: bool
  src_media :: string

definition check_source_spec :: "text_library \<Rightarrow> source_spec \<Rightarrow> source_spec result" where
  "check_source_spec lib s =
     (let parsed = url_split lib (src_url s) in
      if src_id s = [] \<or> src_name s = [] \<or> up_scheme parsed \<noteq> ''https'' \<or> \<not> truthy_text (up_hostname parsed)
      then Inl (NewsValidationError ''News sources require an ID, name, and HTTPS URL'')
      else if truthy_text (up_username parsed) \<or> truthy_text (up_password parsed)
        \<or> src_media s \<notin> {''rss'', ''atom'', ''ical'', ''json''}
      then Inl (NewsValidationError ''News source URL or media type is unsafe'')
      else Inr s)"

record news_item =
  ni_source :: source_spec
  ni_title :: string
  ni_url :: string
  ni_published_at :: instant
  ni_summary :: string
  ni_domain :: "string option"

definition make_news_item :: "text_library \<Rightarrow> news_item \<Rightarrow> news_item result" where
  "make_news_item lib i =
     (let title = squeeze (ni_title i); summary = squeeze (ni_summary i); parsed = url_split lib (ni_url i) in
      if title = [] \<or> 500 < length title then Inl (NewsValidationError ''News title is missing or too long'')
      else if up_scheme parsed \<noteq> ''https'' \<or> \<not> truthy_text (up_hostname parsed)
        \<or> truthy_text (up_username parsed) \<or> truthy_text (up_password parsed)
      then Inl (NewsValidationError ''News item requires a safe HTTPS URL'')
      else if 4000 < length summary then Inl (NewsValidationError ''News summary is too long'')
      else Inr (i\<lparr>ni_title := title, ni_summary := summary,
                  ni_domain := (if truthy_text (ni_domain i) then ni_domain i else up_hostname parsed)\<rparr>))"

record news_event =
  ne_fingerprint :: string
  ne_title :: string
  ne_published_at :: instant
  ne_category :: news_category
  ne_direction :: news_direction
  ne_volatility :: volatility_impact
  ne_confirmation :: confirmation_status
  ne_reliability :: int
  ne_source_ids :: "string list"
  ne_domains :: "string list"
  ne_urls :: "string list"

definition make_news_event :: "news_event \<Rightarrow> news_event result" where
  "make_news_event e =
     (if ne_fingerprint e = [] \<or> ne_title e = [] \<or> ne_urls e = []
      then Inl (NewsValidationError ''A news event requires identity, title, and evidence'')
      else if \<not> (0 \<le> ne_reliability e \<and> ne_reliability e \<le> 100)
      then Inl (NewsValidationError ''News reliability score must be between 0 and 100'')
      else Inr (e\<lparr>ne_source_ids := fromkeys (ne_source_ids e), ne_domains := fromkeys (ne_domains e),
                  ne_urls := fromkeys (ne_urls e)\<rparr>))"

record scheduled_event =
  se_external_id :: string
  se_title :: string
  se_starts_at :: instant
  se_category :: news_category
  se_volatility :: volatility_impact
  se_source :: source_spec
  se_url :: "string option"

definition check_scheduled_event :: "text_library \<Rightarrow> scheduled_event \<Rightarrow> scheduled_event result" where
  "check_scheduled_event lib e =
     (if se_external_id e = [] \<or> se_title e = [] then Inl (NewsValidationError ''Scheduled event requires an ID and title'')
      else if (case se_url e of None \<Rightarrow> False | Some u \<Rightarrow> up_scheme (url_split lib u) \<noteq> ''https'')
      then Inl (NewsValidationError ''Scheduled event URL must use HTTPS'')
      else Inr e)"

record coverage_issue =
  ci_source_id :: string
  ci_detail :: string
  ci_required :: bool

definition check_coverage_issue :: "coverage_issue \<Rightarrow> coverage_issue result" where
  "check_coverage_issue i =
     (if ci_source_id i = [] \<or> ci_detail i = []
      then Inl (NewsValidationError ''Coverage issue requires source and detail'') else Inr i)"

record news_collection =
  nc_collected_at :: instant
  nc_items :: "news_item list"
  nc_scheduled :: "scheduled_event list"
  nc_issues :: "coverage_issue list"

record risk_assessment =
  ra_evaluated_at :: instant
  ra_decision :: risk_decision
  ra_block_until :: "instant option"
  ra_events :: "news_event list"
  ra_scheduled :: "scheduled_event list"
  ra_reasons :: "string list"
  ra_issues :: "coverage_issue list"
  news_can_create_signal :: bool

definition check_risk_assessment :: "risk_assessment \<Rightarrow> risk_assessment result" where
  "check_risk_assessment r =
     (if news_can_create_signal r then Inl (NewsValidationError ''News is a risk filter and cannot create a signal'')
      else if ra_decision r = BLOCK \<and> ra_reasons r = []
      then Inl (NewsValidationError ''A blocking decision requires an auditable reason'')
      else Inr r)"

definition allows_new_signal :: "risk_assessment \<Rightarrow> bool" where
  "allows_new_signal r \<longleftrightarrow> ra_decision r \<noteq> BLOCK"

subsection \<open>The source catalog\<close>

definition fed_monetary :: source_spec where
  "fed_monetary = \<lparr>src_id = ''fed_monetary'', src_name = ''Federal Reserve monetary-policy releases'',
     src_url = ''https://www.federalreserve.gov/feeds/press_monetary.xml'', src_tier = OFFICIAL, src_required = True, src_media = ''rss''\<rparr>"

definition fed_speeches :: source_spec where
  "fed_speeches = \<lparr>src_id = ''fed_speeches'', src_name = ''Federal Reserve speeches'',
     src_url = ''https://www.federalreserve.gov/feeds/speeches.xml'', src_tier = OFFICIAL, src_required = False, src_media = ''rss''\<rparr>"

definition sec_releases :: source_spec where
  "sec_releases = \<lparr>src_id = ''sec_releases'', src_name = ''SEC press releases'',
     src_url = ''https://www.sec.gov/news/pressreleases.rss'', src_tier = OFFICIAL, src_required = True, src_media = ''rss''\<rparr>"

definition sec_statements :: source_spec where
  "sec_statements = \<lparr>src_id = ''sec_statements'', src_name = ''SEC speeches and statements'',
     src_url = ''https://www.sec.gov/news/speeches-statements.rss'', src_tier = OFFICIAL, src_required = False, src_media = ''rss''\<rparr>"

definition bls_calendar :: source_spec where
  "bls_calendar = \<lparr>src_id = ''bls_calendar'', src_name = ''BLS release calendar'',
     src_url = ''https://www.bls.gov/schedule/news_release/bls.ics'', src_tier = OFFICIAL, src_required = True, src_media = ''ical''\<rparr>"

definition coinbase_status :: source_spec where
  "coinbase_status = \<lparr>src_id = ''coinbase_status'', src_name = ''Coinbase status incidents'',
     src_url = ''https://status.coinbase.com/history.rss'', src_tier = OFFICIAL, src_required = False, src_media = ''rss''\<rparr>"

definition gdelt_discovery :: source_spec where
  "gdelt_discovery = \<lparr>src_id = ''gdelt_discovery'', src_name = ''GDELT news discovery'',
     src_url = ''https://api.gdeltproject.org/api/v2/doc/doc'', src_tier = AGGREGATOR, src_required = False, src_media = ''json''\<rparr>"

definition official_feeds :: "source_spec list" where
  "official_feeds = [fed_monetary, fed_speeches, sec_releases, sec_statements, bls_calendar, coinbase_status]"

subsection \<open>Similarity and classification\<close>

definition relevant_terms :: "string list" where
  "relevant_terms = [''bitcoin'', ''btc'', ''crypto'', ''digital asset'', ''etf'', ''exchange-traded fund'', ''federal reserve'',
     ''fomc'', ''interest rate'', ''inflation'', ''consumer price index'', ''producer price index'', ''employment situation'',
     ''payroll'', ''stablecoin'', ''tether'', ''usdt'', ''usdc'', ''coinbase'', ''binance'', ''hack'', ''exploit'', ''outage'',
     ''bankruptcy'', ''insolvency'', ''geopolitical'']"

definition positive_words :: "string list" where
  "positive_words = [''approve'', ''approves'', ''approved'', ''approval'', ''adoption'', ''inflow'', ''launch'', ''resumes'',
     ''resolved'', ''recovery'']"

definition negative_words :: "string list" where
  "negative_words = [''ban'', ''banned'', ''breach'', ''charges'', ''depeg'', ''exploit'', ''hack'', ''halted'', ''insolvency'',
     ''lawsuit'', ''outage'', ''reject'', ''rejected'', ''suspend'', ''war'', ''attack'', ''bankruptcy'']"

definition extreme_words :: "string list" where
  "extreme_words = [''depeg'', ''hack'', ''exploit'', ''insolvency'', ''bankruptcy'', ''war'', ''attack'']"

definition high_words :: "string list" where
  "high_words = [''outage'', ''halted'', ''suspend'', ''approval'', ''approved'', ''approves'', ''ban'', ''banned'', ''rejected'']"

definition canonical_title :: "string \<Rightarrow> string" where
  "canonical_title s = join_text '' '' (find_words (casefold s))"

definition tracking_keys :: "string list" where
  "tracking_keys = [''fbclid'', ''gclid'', ''ref'', ''source'']"

definition canonical_url :: "text_library \<Rightarrow> string \<Rightarrow> string" where
  "canonical_url lib s =
     (let parsed = url_split lib s;
          filtered = filter (\<lambda>(k, v). take 4 (casefold k) \<noteq> ''utm_'' \<and> casefold k \<notin> set tracking_keys) (query_parse lib (up_query parsed));
          path = rev (dropWhile (\<lambda>c. c = CHR ''/'') (rev (up_path parsed)))
      in url_unsplit lib (casefold (up_scheme parsed), casefold (up_netloc parsed), (if path = [] then ''/'' else path),
           query_encode lib filtered, []))"

definition tokens :: "news_item \<Rightarrow> string list" where
  "tokens i = remdups (split_space (canonical_title (ni_title i)))"

text \<open>
  \<^verbatim>\<open>len(a & b) / len(a | b) >= 0.62\<close>: a quotient of the sizes of two sets of words of a title
  is below 31/50 by more than a rounding of a double, or not below it.
\<close>

definition similar :: "text_library \<Rightarrow> news_item \<Rightarrow> news_item \<Rightarrow> bool" where
  "similar lib l r =
     (canonical_url lib (ni_url l) = canonical_url lib (ni_url r)
      \<or> (let common = length (filter (\<lambda>w. w \<in> set (tokens r)) (tokens l)); union_size = length (remdups (tokens l @ tokens r))
         in 0 < union_size \<and> 31 * union_size \<le> 50 * common))"

definition mentions :: "string \<Rightarrow> string list \<Rightarrow> bool" where
  "mentions s terms_list = list_ex (contains s) terms_list"

definition category_checks :: "(news_category \<times> string list) list" where
  "category_checks =
    [(ETF, [''etf'', ''exchange-traded fund'']),
     (STABLECOIN, [''stablecoin'', ''tether'', ''usdt'', ''usdc'', ''depeg'']),
     (INSOLVENCY, [''bankruptcy'', ''insolvency'']),
     (EXCHANGE, [''coinbase'', ''binance'', ''exchange outage'']),
     (CENTRAL_BANK, [''federal reserve'', ''fomc'', ''interest rate'']),
     (ECONOMIC, [''inflation'', ''consumer price index'', ''producer price index'', ''payroll'']),
     (REGULATORY, [''sec '', ''regulation'', ''regulator'', ''lawsuit'', ''ban'']),
     (GEOPOLITICAL, [''geopolitical'', ''war'', ''attack'']),
     (INSTITUTIONAL, [''institution'', ''treasury'', ''reserve asset'']),
     (BITCOIN, [''bitcoin'', ''btc''])]"

definition category_of :: "string \<Rightarrow> news_category" where
  "category_of s = (case List.find (\<lambda>(c, ts). mentions s ts) category_checks of None \<Rightarrow> OTHER_CATEGORY | Some (c, _) \<Rightarrow> c)"

definition shares :: "string list \<Rightarrow> string list \<Rightarrow> bool" where
  "shares ws vocabulary = list_ex (\<lambda>w. w \<in> set vocabulary) ws"

definition direction_of :: "string list \<Rightarrow> news_direction" where
  "direction_of ws =
     (let p = shares ws positive_words; n = shares ws negative_words
      in if p \<and> n then UNCERTAIN else if p then POSITIVE else if n then NEGATIVE else NO_DIRECTION)"

definition volatility_of :: "string list \<Rightarrow> news_category \<Rightarrow> volatility_impact" where
  "volatility_of ws category =
     (if shares ws extreme_words then EXTREME
      else if shares ws high_words \<or> category = ETF then HIGH
      else if category = CENTRAL_BANK \<and> shares ws [''fomc'', ''rate'', ''rates'', ''decision''] then HIGH
      else if category \<noteq> OTHER_CATEGORY then MEDIUM else LOW)"

definition is_relevant :: "news_item \<Rightarrow> bool" where
  "is_relevant i = mentions (casefold (ni_title i @ '' '' @ ni_summary i)) relevant_terms"

subsection \<open>Events from clusters of items\<close>

record news_policy =
  np_lookback :: duration
  np_clock_skew :: duration
  high_news_wait :: duration
  extreme_news_wait :: duration
  high_event_pre :: duration
  high_event_post :: duration
  extreme_event_pre :: duration
  extreme_event_post :: duration

definition default_news_policy :: news_policy where
  "default_news_policy =
     \<lparr>np_lookback = 24 * usec_hour, np_clock_skew = 5 * usec_minute, high_news_wait = 60 * usec_minute,
      extreme_news_wait = 3 * usec_hour, high_event_pre = 60 * usec_minute, high_event_post = 45 * usec_minute,
      extreme_event_pre = 2 * usec_hour, extreme_event_post = 2 * usec_hour\<rparr>"

definition item_le :: "news_item \<Rightarrow> news_item \<Rightarrow> bool" where
  "item_le a b \<longleftrightarrow> ni_published_at a < ni_published_at b \<or> ni_published_at a = ni_published_at b \<and> ni_title a \<le> ni_title b"

fun add_to_cluster :: "text_library \<Rightarrow> news_item \<Rightarrow> news_item list list \<Rightarrow> news_item list list" where
  "add_to_cluster lib i [] = [[i]]"
| "add_to_cluster lib i (c # cs) = (if similar lib (hd c) i then (c @ [i]) # cs else c # add_to_cluster lib i cs)"

definition clusters_of :: "text_library \<Rightarrow> news_item list \<Rightarrow> news_item list list" where
  "clusters_of lib items = foldl (\<lambda>cs i. add_to_cluster lib i cs) [] (sort_by item_le items)"

definition is_official :: "news_item \<Rightarrow> bool" where
  "is_official i \<longleftrightarrow> src_tier (ni_source i) = OFFICIAL"

definition item_domain :: "news_item \<Rightarrow> string" where
  "item_domain i = (case ni_domain i of None \<Rightarrow> [] | Some d \<Rightarrow> d)"

definition cluster_domains :: "news_item list \<Rightarrow> string list" where
  "cluster_domains c = sort (remdups (map item_domain c))"

definition cluster_confirmation :: "news_item list \<Rightarrow> confirmation_status" where
  "cluster_confirmation c =
     (if list_ex is_official c then OFFICIAL_CONFIRMED
      else if 2 \<le> length (cluster_domains c) then CORROBORATED else UNCONFIRMED)"

fun confirmation_score :: "confirmation_status \<Rightarrow> int" where
  "confirmation_score OFFICIAL_CONFIRMED = 100"
| "confirmation_score CORROBORATED = 75"
| "confirmation_score UNCONFIRMED = 35"

definition cluster_event :: "text_library \<Rightarrow> news_item list \<Rightarrow> news_event result" where
  "cluster_event lib c =
     (let preferred = (case List.find is_official c of None \<Rightarrow> hd c | Some i \<Rightarrow> i);
          combined = casefold (join_text '' '' (map (\<lambda>i. ni_title i @ '' '' @ ni_summary i) c));
          ws = find_words combined;
          category = category_of combined;
          confirmation = cluster_confirmation c
      in make_news_event
           \<lparr>ne_fingerprint = sha256_hex lib (canonical_title (ni_title preferred)), ne_title = ni_title preferred,
            ne_published_at = Max (set (map ni_published_at c)), ne_category = category, ne_direction = direction_of ws,
            ne_volatility = volatility_of ws category, ne_confirmation = confirmation,
            ne_reliability = confirmation_score confirmation, ne_source_ids = map (\<lambda>i. src_id (ni_source i)) c,
            ne_domains = cluster_domains c, ne_urls = map (\<lambda>i. canonical_url lib (ni_url i)) c\<rparr>)"

definition event_ge :: "news_event \<Rightarrow> news_event \<Rightarrow> bool" where
  "event_ge a b \<longleftrightarrow> ne_published_at b < ne_published_at a
     \<or> ne_published_at b = ne_published_at a \<and> ne_fingerprint b \<le> ne_fingerprint a"

definition news_events :: "text_library \<Rightarrow> news_item list \<Rightarrow> news_event list result" where
  "news_events lib items =
     bind_result (map_result (cluster_event lib) (clusters_of lib items)) (\<lambda>es. Inr (sort_by event_ge es))"

subsection \<open>The assessment\<close>

definition scheduled_window :: "news_policy \<Rightarrow> scheduled_event \<Rightarrow> (instant \<times> instant) option" where
  "scheduled_window p e =
     (case se_volatility e of
        EXTREME \<Rightarrow> Some (se_starts_at e - extreme_event_pre p, se_starts_at e + extreme_event_post p)
      | HIGH \<Rightarrow> Some (se_starts_at e - high_event_pre p, se_starts_at e + high_event_post p)
      | _ \<Rightarrow> None)"

fun active_scheduled :: "news_policy \<Rightarrow> scheduled_event list \<Rightarrow> instant \<Rightarrow> (scheduled_event \<times> instant) list" where
  "active_scheduled p [] now = []"
| "active_scheduled p (e # es) now =
     (case scheduled_window p e of
        None \<Rightarrow> active_scheduled p es now
      | Some (start, finish) \<Rightarrow>
          if start \<le> now \<and> now < finish then (e, finish) # active_scheduled p es now else active_scheduled p es now)"

fun volatility_lower :: "volatility_impact \<Rightarrow> string" where
  "volatility_lower LOW = ''low''"
| "volatility_lower MEDIUM = ''medium''"
| "volatility_lower HIGH = ''high''"
| "volatility_lower EXTREME = ''extreme''"

text \<open>The variables of \<^verbatim>\<open>evaluate\<close> that its loops update.\<close>

record risk_state =
  rk_decision :: risk_decision
  rk_reasons :: "string list"
  rk_until :: "instant option"
  rk_confirmed :: "news_event list"

definition later :: "instant option \<Rightarrow> instant \<Rightarrow> instant option" where
  "later u t = (case u of None \<Rightarrow> Some t | Some x \<Rightarrow> Some (max x t))"

definition blocked_by :: "string \<Rightarrow> instant \<Rightarrow> risk_state \<Rightarrow> risk_state" where
  "blocked_by reason finish s =
     s\<lparr>rk_decision := BLOCK, rk_reasons := rk_reasons s @ [reason], rk_until := later (rk_until s) finish\<rparr>"

definition coverage_risk :: "coverage_issue list \<Rightarrow> risk_state" where
  "coverage_risk issues =
     (if list_ex ci_required issues
      then \<lparr>rk_decision = BLOCK, rk_reasons = [''required news coverage is incomplete''], rk_until = None, rk_confirmed = []\<rparr>
      else if issues \<noteq> []
      then \<lparr>rk_decision = CAUTION, rk_reasons = [''optional news coverage is degraded''], rk_until = None, rk_confirmed = []\<rparr>
      else \<lparr>rk_decision = CLEAR, rk_reasons = [], rk_until = None, rk_confirmed = []\<rparr>)"

definition scheduled_risk :: "risk_state \<Rightarrow> scheduled_event \<times> instant \<Rightarrow> risk_state" where
  "scheduled_risk s ef =
     (case ef of (e, finish) \<Rightarrow>
        blocked_by (''scheduled '' @ volatility_lower (se_volatility e) @ '' event: '' @ se_title e) finish s)"

definition event_risk :: "news_policy \<Rightarrow> instant \<Rightarrow> risk_state \<Rightarrow> news_event \<Rightarrow> risk_state" where
  "event_risk p now s e =
     (let high_impact = (ne_volatility e \<in> {HIGH, EXTREME}) in
      if ne_confirmation e = UNCONFIRMED then
        (if high_impact then
           s\<lparr>rk_decision := (if rk_decision s = CLEAR then CAUTION else rk_decision s),
             rk_reasons := rk_reasons s @ [''unconfirmed high-impact headline: '' @ ne_title e]\<rparr>
         else s)
      else if \<not> high_impact then s
      else
        let s = s\<lparr>rk_confirmed := rk_confirmed s @ [e]\<rparr>;
            wait = (if ne_volatility e = EXTREME then extreme_news_wait p else high_news_wait p);
            finish = ne_published_at e + wait
        in if now < finish then blocked_by (''market-confirmation wait after: '' @ ne_title e) finish s else s)"

definition contradictory :: "instant \<Rightarrow> news_event list \<Rightarrow> bool" where
  "contradictory now es =
     (let recent = filter (\<lambda>e. now - ne_published_at e \<le> 6 * usec_hour) es
      in list_ex (\<lambda>e. ne_direction e = POSITIVE) recent \<and> list_ex (\<lambda>e. ne_direction e = NEGATIVE) recent)"

definition usable_items :: "news_policy \<Rightarrow> instant \<Rightarrow> news_item list \<Rightarrow> news_item list" where
  "usable_items p now items =
     filter (\<lambda>i. is_relevant i \<and> now - np_lookback p \<le> ni_published_at i \<and> ni_published_at i \<le> now + np_clock_skew p) items"

definition assess :: "text_library \<Rightarrow> news_policy \<Rightarrow> news_collection \<Rightarrow> instant \<Rightarrow> risk_assessment result" where
  "assess lib p c now =
     bind_result (news_events lib (usable_items p now (nc_items c))) (\<lambda>es.
       let active = active_scheduled p (nc_scheduled c) now;
           s1 = foldl scheduled_risk (coverage_risk (nc_issues c)) active;
           s2 = foldl (event_risk p now) s1 es;
           s3 = (if contradictory now (rk_confirmed s2)
                 then blocked_by ''confirmed high-impact news is directionally contradictory'' (now + high_news_wait p) s2 else s2)
       in check_risk_assessment
            \<lparr>ra_evaluated_at = now, ra_decision = rk_decision s3, ra_block_until = rk_until s3, ra_events = es,
             ra_scheduled = map fst active, ra_reasons = fromkeys (rk_reasons s3), ra_issues = nc_issues c,
             news_can_create_signal = False\<rparr>)"

subsection \<open>The clusters\<close>

lemma add_to_cluster_facts:
  "mset (concat (add_to_cluster lib i cs)) = add_mset i (mset (concat cs))"
  "[] \<notin> set cs \<Longrightarrow> [] \<notin> set (add_to_cluster lib i cs)"
  by (induction cs) auto

lemma add_to_cluster_similar:
  "[] \<notin> set cs \<Longrightarrow> \<forall>c \<in> set cs. \<forall>x \<in> set (tl c). similar lib (hd c) x \<Longrightarrow>
     \<forall>c \<in> set (add_to_cluster lib i cs). \<forall>x \<in> set (tl c). similar lib (hd c) x"
  by (induction cs) auto

lemma add_to_cluster_heads:
  "[] \<notin> set cs \<Longrightarrow>
     map hd (add_to_cluster lib i cs) = map hd cs @ (if \<exists>c \<in> set cs. similar lib (hd c) i then [] else [i])"
  by (induction cs) auto

definition clusters_ok :: "text_library \<Rightarrow> news_item list list \<Rightarrow> bool" where
  "clusters_ok lib cs \<longleftrightarrow> [] \<notin> set cs \<and> (\<forall>c \<in> set cs. \<forall>x \<in> set (tl c). similar lib (hd c) x)
     \<and> sorted_wrt (\<lambda>a b. \<not> similar lib a b) (map hd cs)"

lemma clusters_fold:
  "clusters_ok lib cs \<Longrightarrow>
     clusters_ok lib (foldl (\<lambda>cs i. add_to_cluster lib i cs) cs items)
     \<and> mset (concat (foldl (\<lambda>cs i. add_to_cluster lib i cs) cs items)) = mset (concat cs) + mset items"
proof (induction items arbitrary: cs)
  case (Cons i items)
  have "clusters_ok lib (add_to_cluster lib i cs)"
    using Cons.prems add_to_cluster_similar [of cs lib i] add_to_cluster_heads [of cs lib i] add_to_cluster_facts(2) [of cs lib i]
    by (auto simp: clusters_ok_def sorted_wrt_append)
  from Cons.IH [OF this] show ?case by (simp add: add_to_cluster_facts(1))
qed simp

lemma clusters_of_ok: "clusters_ok lib (clusters_of lib items)" "mset (concat (clusters_of lib items)) = mset items"
  using clusters_fold [of lib "[]" "sort_by item_le items"] by (simp_all add: clusters_of_def clusters_ok_def)

lemma cluster_items: "c \<in> set (clusters_of lib items) \<Longrightarrow> i \<in> set c \<Longrightarrow> i \<in> set items"
  using arg_cong [OF clusters_of_ok(2), of set_mset lib items] by auto

definition hashes :: "text_library \<Rightarrow> bool" where
  "hashes lib \<longleftrightarrow> (\<forall>s. sha256_hex lib s \<noteq> [])"

lemma cluster_event_ok:
  assumes "hashes lib" "c \<noteq> []" "\<And>i. i \<in> set c \<Longrightarrow> ni_title i \<noteq> []"
  shows "\<exists>e. cluster_event lib c = Inr e \<and> ne_confirmation e = cluster_confirmation c
    \<and> ne_reliability e = confirmation_score (cluster_confirmation c) \<and> ne_published_at e = Max (ni_published_at ` set c)
    \<and> ne_domains e = cluster_domains c \<and> set (ne_source_ids e) = (\<lambda>i. src_id (ni_source i)) ` set c"
proof -
  define p where "p = (case List.find is_official c of None \<Rightarrow> hd c | Some i \<Rightarrow> i)"
  have "p \<in> set c" using assms(2) by (auto simp: p_def split: option.split dest: find_SomeD)
  then have t: "ni_title p \<noteq> []" by (rule assms(3))
  have score: "0 \<le> confirmation_score x \<and> confirmation_score x \<le> 100" for x by (cases x) simp_all
  have d: "fromkeys (cluster_domains c) = cluster_domains c" by (rule fromkeys_id) (simp add: cluster_domains_def)
  show ?thesis
    using assms(1,2) t score [of "cluster_confirmation c"] d
    by (auto simp: cluster_event_def Let_def make_news_event_def p_def [symmetric] hashes_def)
qed

lemma events_total_partition:
  assumes "hashes lib" "\<forall>i \<in> set items. ni_title i \<noteq> []"
  shows "\<exists>cs es event_of. news_events lib items = Inr es \<and> mset es = mset (map event_of cs)
    \<and> sorted_wrt (\<lambda>a b. ne_published_at b \<le> ne_published_at a) es
    \<and> mset (concat cs) = mset items \<and> [] \<notin> set cs \<and> (\<forall>c \<in> set cs. \<forall>i \<in> set (tl c). similar lib (hd c) i)
    \<and> sorted_wrt (\<lambda>a b. \<not> similar lib a b) (map hd cs)
    \<and> (\<forall>c \<in> set cs.
        (ne_confirmation (event_of c) = OFFICIAL_CONFIRMED \<longleftrightarrow> (\<exists>i \<in> set c. is_official i))
      \<and> (ne_confirmation (event_of c) = UNCONFIRMED \<longleftrightarrow>
            (\<forall>i \<in> set c. \<not> is_official i) \<and> (\<forall>i \<in> set c. \<forall>j \<in> set c. item_domain i = item_domain j))
      \<and> ne_published_at (event_of c) = Max (ni_published_at ` set c)
      \<and> ne_reliability (event_of c) = confirmation_score (ne_confirmation (event_of c)))"
proof -
  define cs where "cs = clusters_of lib items"
  note ok = clusters_of_ok [of lib items, folded cs_def]
  have ne: "c \<noteq> []" and titles: "i \<in> set c \<Longrightarrow> ni_title i \<noteq> []" if "c \<in> set cs" for c i
    using ok(1) that cluster_items [of c lib items i] assms(2) by (auto simp: clusters_ok_def cs_def)
  have "\<forall>c \<in> set cs. \<exists>e. cluster_event lib c = Inr e \<and> ne_confirmation e = cluster_confirmation c
    \<and> ne_reliability e = confirmation_score (cluster_confirmation c) \<and> ne_published_at e = Max (ni_published_at ` set c)"
  proof
    fix c assume c: "c \<in> set cs"
    have "\<And>i. i \<in> set c \<Longrightarrow> ni_title i \<noteq> []" by (rule titles [OF c])
    from cluster_event_ok [OF assms(1) ne [OF c] this]
    show "\<exists>e. cluster_event lib c = Inr e \<and> ne_confirmation e = cluster_confirmation c
      \<and> ne_reliability e = confirmation_score (cluster_confirmation c) \<and> ne_published_at e = Max (ni_published_at ` set c)" by blast
  qed
  then obtain ev where ev: "\<forall>c \<in> set cs. cluster_event lib c = Inr (ev c) \<and> ne_confirmation (ev c) = cluster_confirmation c
    \<and> ne_reliability (ev c) = confirmation_score (cluster_confirmation c) \<and> ne_published_at (ev c) = Max (ni_published_at ` set c)"
    by (rule bchoice [THEN exE]) blast
  have events: "news_events lib items = Inr (sort_by event_ge (map ev cs))"
    using map_result_total [of cs "cluster_event lib" ev] ev by (simp add: news_events_def cs_def [symmetric])
  have "sorted_wrt event_ge (sort_by event_ge (map ev cs))" by (rule sorted_wrt_sort_by) (auto simp: event_ge_def)
  then have order: "sorted_wrt (\<lambda>a b. ne_published_at b \<le> ne_published_at a) (sort_by event_ge (map ev cs))"
    by (rule sorted_wrt_mono_rel [rotated]) (auto simp: event_ge_def)
  have domains: "length (cluster_domains c) < 2 \<longleftrightarrow> (\<forall>i \<in> set c. \<forall>j \<in> set c. item_domain i = item_domain j)"
    if "c \<noteq> []" for c
  proof -
    have "length (cluster_domains c) = card (item_domain ` set c)" by (simp add: cluster_domains_def length_remdups_card_conv)
    moreover have "card (item_domain ` set c) < 2 \<longleftrightarrow> (\<forall>i \<in> set c. \<forall>j \<in> set c. item_domain i = item_domain j)"
    proof
      assume "card (item_domain ` set c) < 2"
      moreover have "0 < card (item_domain ` set c)" using that by (simp add: card_gt_0_iff)
      ultimately have "card (item_domain ` set c) = 1" by linarith
      then obtain x where "item_domain ` set c = {x}" by (rule card_1_singletonE)
      then show "\<forall>i \<in> set c. \<forall>j \<in> set c. item_domain i = item_domain j" by (metis imageI singletonD)
    next
      assume same: "\<forall>i \<in> set c. \<forall>j \<in> set c. item_domain i = item_domain j"
      have "hd c \<in> set c" using that by simp
      then have "item_domain ` set c \<subseteq> {item_domain (hd c)}" using same by blast
      then show "card (item_domain ` set c) < 2" using card_mono [of "{item_domain (hd c)}" "item_domain ` set c"] by simp
    qed
    ultimately show ?thesis by simp
  qed
  have conf: "(ne_confirmation (ev c) = OFFICIAL_CONFIRMED \<longleftrightarrow> (\<exists>i \<in> set c. is_official i))
      \<and> (ne_confirmation (ev c) = UNCONFIRMED \<longleftrightarrow>
            (\<forall>i \<in> set c. \<not> is_official i) \<and> (\<forall>i \<in> set c. \<forall>j \<in> set c. item_domain i = item_domain j))"
    if "c \<in> set cs" for c
  proof -
    have e: "ne_confirmation (ev c) = cluster_confirmation c" using ev that by blast
    show ?thesis unfolding e cluster_confirmation_def list_ex_iff domains [OF ne [OF that], symmetric] by auto
  qed
  show ?thesis
    using events order ok ev conf unfolding clusters_ok_def
    by (intro exI [of _ cs] exI [of _ "sort_by event_ge (map ev cs)"] exI [of _ ev]) auto
qed

lemma events_total:
  assumes "hashes lib" "\<forall>i \<in> set items. ni_title i \<noteq> []"
  shows "\<exists>es. news_events lib items = Inr es"
  using events_total_partition [OF assms] by blast

text \<open>
  C34: the events partition the items.  For items with titles, the events come from clusters
  that contain every item exactly once; the items of a cluster are similar to its first one,
  and no first item is similar to an earlier first item.  An event is official when an item of
  its cluster is, otherwise corroborated when the cluster has two publisher domains, otherwise
  unconfirmed; it carries the newest publication time; events come newest first.
\<close>

theorem events_partition_items:
  assumes "hashes lib" "\<forall>i \<in> set items. ni_title i \<noteq> []"
  shows "\<exists>cs es event_of. news_events lib items = Inr es \<and> mset es = mset (map event_of cs)
    \<and> sorted_wrt (\<lambda>a b. ne_published_at b \<le> ne_published_at a) es
    \<and> mset (concat cs) = mset items \<and> [] \<notin> set cs \<and> (\<forall>c \<in> set cs. \<forall>i \<in> set (tl c). similar lib (hd c) i)
    \<and> sorted_wrt (\<lambda>a b. \<not> similar lib a b) (map hd cs)
    \<and> (\<forall>c \<in> set cs.
        (ne_confirmation (event_of c) = OFFICIAL_CONFIRMED \<longleftrightarrow> (\<exists>i \<in> set c. is_official i))
      \<and> (ne_confirmation (event_of c) = UNCONFIRMED \<longleftrightarrow>
            (\<forall>i \<in> set c. \<not> is_official i) \<and> (\<forall>i \<in> set c. \<forall>j \<in> set c. item_domain i = item_domain j))
      \<and> ne_published_at (event_of c) = Max (ni_published_at ` set c)
      \<and> ne_reliability (event_of c) = confirmation_score (ne_confirmation (event_of c)))"
  by (rule events_total_partition [OF assms])

subsection \<open>The decision\<close>

definition high_impact :: "news_event \<Rightarrow> bool" where
  "high_impact e \<longleftrightarrow> ne_volatility e \<in> {HIGH, EXTREME}"

definition wait_end :: "news_policy \<Rightarrow> news_event \<Rightarrow> instant" where
  "wait_end p e = ne_published_at e + (if ne_volatility e = EXTREME then extreme_news_wait p else high_news_wait p)"

definition waits :: "news_policy \<Rightarrow> instant \<Rightarrow> news_event \<Rightarrow> bool" where
  "waits p now e \<longleftrightarrow> ne_confirmation e \<noteq> UNCONFIRMED \<and> high_impact e \<and> now < wait_end p e"

definition rumour :: "news_event \<Rightarrow> bool" where
  "rumour e \<longleftrightarrow> ne_confirmation e = UNCONFIRMED \<and> high_impact e"

definition confirmed_high :: "news_event list \<Rightarrow> news_event list" where
  "confirmed_high es = filter (\<lambda>e. ne_confirmation e \<noteq> UNCONFIRMED \<and> high_impact e) es"

lemma event_risk_cases:
  "event_risk p now s e =
     (if rumour e then s\<lparr>rk_decision := (if rk_decision s = CLEAR then CAUTION else rk_decision s),
            rk_reasons := rk_reasons s @ [''unconfirmed high-impact headline: '' @ ne_title e]\<rparr>
      else if waits p now e then blocked_by (''market-confirmation wait after: '' @ ne_title e) (wait_end p e)
            (s\<lparr>rk_confirmed := rk_confirmed s @ [e]\<rparr>)
      else if confirmed_high [e] \<noteq> [] then s\<lparr>rk_confirmed := rk_confirmed s @ [e]\<rparr> else s)"
  by (auto simp: event_risk_def rumour_def waits_def wait_end_def confirmed_high_def high_impact_def Let_def)

lemma later_fold:
  "foldl later u ts = (case u of None \<Rightarrow> if ts = [] then None else Some (Max (set ts)) | Some x \<Rightarrow> Some (Max (insert x (set ts))))"
proof (induction ts arbitrary: u)
  case (Cons t ts)
  show ?case
  proof (cases u)
    case None
    then show ?thesis using Cons by (simp add: later_def)
  next
    case (Some x)
    have "Max (insert (max x t) (set ts)) = Max (insert x (insert t (set ts)))"
      by (cases "ts = []") (simp_all add: max.assoc)
    then show ?thesis using Some Cons by (simp add: later_def)
  qed
qed (simp split: option.split)

lemma scheduled_fold:
  "rk_decision (foldl scheduled_risk s act) = (if act = [] then rk_decision s else BLOCK)"
  "rk_until (foldl scheduled_risk s act) = foldl later (rk_until s) (map snd act)"
  "rk_confirmed (foldl scheduled_risk s act) = rk_confirmed s"
  "rk_reasons (foldl scheduled_risk s act) = [] \<longleftrightarrow> rk_reasons s = [] \<and> act = []"
  by (induction act arbitrary: s) (auto simp: scheduled_risk_def blocked_by_def split: prod.split)

lemma event_fold:
  "rk_decision (foldl (event_risk p now) s es) =
     (if list_ex (waits p now) es then BLOCK else if rk_decision s = CLEAR \<and> list_ex rumour es then CAUTION else rk_decision s)"
  "rk_until (foldl (event_risk p now) s es) = foldl later (rk_until s) (map (wait_end p) (filter (waits p now) es))"
  "rk_confirmed (foldl (event_risk p now) s es) = rk_confirmed s @ confirmed_high es"
  "rk_reasons (foldl (event_risk p now) s es) = [] \<longleftrightarrow> rk_reasons s = [] \<and> \<not> list_ex (waits p now) es \<and> \<not> list_ex rumour es"
proof (induction es arbitrary: s)
  case (Cons e es)
  have not_both: "\<not> (rumour e \<and> waits p now e)" "waits p now e \<Longrightarrow> confirmed_high (e # es) = e # confirmed_high es"
    "rumour e \<Longrightarrow> confirmed_high (e # es) = confirmed_high es"
    "confirmed_high (e # es) = confirmed_high [e] @ confirmed_high es" "confirmed_high [e] = [] \<or> confirmed_high [e] = [e]"
    by (auto simp: rumour_def waits_def confirmed_high_def)
  { case 1 show ?case using Cons.IH(1) not_both by (auto simp: event_risk_cases blocked_by_def)
  next case 2 show ?case using Cons.IH(2) not_both by (auto simp: event_risk_cases blocked_by_def)
  next case 3 show ?case using Cons.IH(3) not_both by (auto simp: event_risk_cases blocked_by_def)
  next case 4 show ?case using Cons.IH(4) not_both by (auto simp: event_risk_cases blocked_by_def) }
qed (simp_all add: confirmed_high_def)

definition block_ends :: "news_policy \<Rightarrow> instant \<Rightarrow> scheduled_event list \<Rightarrow> news_event list \<Rightarrow> instant list" where
  "block_ends p now scheduled es =
     map snd (active_scheduled p scheduled now) @ map (wait_end p) (filter (waits p now) es)
     @ (if contradictory now (confirmed_high es) then [now + high_news_wait p] else [])"

lemma active_scheduled_set:
  "set (active_scheduled p es now) =
     {(e, finish). e \<in> set es \<and> (\<exists>start. scheduled_window p e = Some (start, finish) \<and> start \<le> now \<and> now < finish)}"
  by (induction es) (auto split: option.splits)

text \<open>
  C9: exactly when news blocks, cautions or is clear.  For items with titles the assessment
  returns.  It blocks when a required source is missing, a scheduled high or extreme event is
  within its window, a confirmed high-impact event is still within its waiting time, or
  confirmed high-impact events of the last six hours point in both directions.  Otherwise it
  cautions when optional coverage is missing or a high-impact headline is unconfirmed, and else
  it is clear.  The block lasts until the latest end of its timed causes; reasons are given
  exactly when it is not clear; and it can never create a signal.
\<close>

theorem news_decision_exact:
  assumes "hashes lib" "\<forall>i \<in> set (nc_items c). ni_title i \<noteq> []"
  shows "\<exists>r es. assess lib p c now = Inr r \<and> news_events lib (usable_items p now (nc_items c)) = Inr es \<and> ra_events r = es
    \<and> ra_decision r =
        (if (\<exists>i \<in> set (nc_issues c). ci_required i)
           \<or> (\<exists>e \<in> set (nc_scheduled c). \<exists>a b. scheduled_window p e = Some (a, b) \<and> a \<le> now \<and> now < b)
           \<or> (\<exists>e \<in> set es. waits p now e) \<or> contradictory now (confirmed_high es) then BLOCK
         else if nc_issues c \<noteq> [] \<or> (\<exists>e \<in> set es. rumour e) then CAUTION else CLEAR)
    \<and> ra_block_until r = (let ends = block_ends p now (nc_scheduled c) es in if ends = [] then None else Some (Max (set ends)))
    \<and> (ra_reasons r = [] \<longleftrightarrow> ra_decision r = CLEAR) \<and> \<not> news_can_create_signal r"
proof -
  let ?items = "usable_items p now (nc_items c)"
  have t: "\<forall>i \<in> set ?items. ni_title i \<noteq> []" using assms(2) by (simp add: usable_items_def)
  obtain es where es: "news_events lib ?items = Inr es" using events_total [OF assms(1) t] by blast
  define act where "act = active_scheduled p (nc_scheduled c) now"
  define s1 where "s1 = foldl scheduled_risk (coverage_risk (nc_issues c)) act"
  define s2 where "s2 = foldl (event_risk p now) s1 es"
  define s3 where "s3 = (if contradictory now (rk_confirmed s2)
    then blocked_by ''confirmed high-impact news is directionally contradictory'' (now + high_news_wait p) s2 else s2)"
  let ?req = "list_ex ci_required (nc_issues c)" and ?con = "contradictory now (confirmed_high es)"
  have cov: "rk_decision (coverage_risk xs) = (if list_ex ci_required xs then BLOCK else if xs \<noteq> [] then CAUTION else CLEAR)"
    "rk_until (coverage_risk xs) = None" "rk_confirmed (coverage_risk xs) = []"
    "rk_reasons (coverage_risk xs) = [] \<longleftrightarrow> xs = []" for xs
    by (auto simp: coverage_risk_def)
  have conf: "rk_confirmed s2 = confirmed_high es" by (simp add: s2_def s1_def event_fold scheduled_fold cov)
  have dec: "rk_decision s3 = (if ?req \<or> act \<noteq> [] \<or> list_ex (waits p now) es \<or> ?con then BLOCK
      else if nc_issues c \<noteq> [] \<or> list_ex rumour es then CAUTION else CLEAR)"
    unfolding s3_def conf s2_def s1_def by (auto simp: blocked_by_def event_fold scheduled_fold cov)
  have until: "rk_until s3 = foldl later None (block_ends p now (nc_scheduled c) es)"
    unfolding s3_def conf s2_def s1_def by (simp add: blocked_by_def event_fold scheduled_fold cov block_ends_def act_def)
  have reasons: "rk_reasons s3 = [] \<longleftrightarrow> rk_decision s3 = CLEAR"
    unfolding dec unfolding s3_def conf s2_def s1_def
    by (auto simp: blocked_by_def event_fold scheduled_fold cov)
  have act: "act \<noteq> [] \<longleftrightarrow> (\<exists>e \<in> set (nc_scheduled c). \<exists>a b. scheduled_window p e = Some (a, b) \<and> a \<le> now \<and> now < b)"
    using active_scheduled_set [of p "nc_scheduled c" now] unfolding act_def set_empty [symmetric] by auto
  have "assess lib p c now = check_risk_assessment
      \<lparr>ra_evaluated_at = now, ra_decision = rk_decision s3, ra_block_until = rk_until s3, ra_events = es,
       ra_scheduled = map fst act, ra_reasons = fromkeys (rk_reasons s3), ra_issues = nc_issues c, news_can_create_signal = False\<rparr>"
    using es by (simp add: assess_def Let_def act_def s1_def s2_def s3_def)
  then have r: "assess lib p c now = Inr
      \<lparr>ra_evaluated_at = now, ra_decision = rk_decision s3, ra_block_until = rk_until s3, ra_events = es,
       ra_scheduled = map fst act, ra_reasons = fromkeys (rk_reasons s3), ra_issues = nc_issues c, news_can_create_signal = False\<rparr>"
    using reasons by (auto simp: check_risk_assessment_def)
  show ?thesis
  proof (intro exI conjI)
    show "assess lib p c now = Inr
      \<lparr>ra_evaluated_at = now, ra_decision = rk_decision s3, ra_block_until = rk_until s3, ra_events = es,
       ra_scheduled = map fst act, ra_reasons = fromkeys (rk_reasons s3), ra_issues = nc_issues c, news_can_create_signal = False\<rparr>"
      by (rule r)
    show "news_events lib (usable_items p now (nc_items c)) = Inr es" by (rule es)
  qed (simp_all only: risk_assessment.simps dec [unfolded act list_ex_iff] reasons fromkeys_eq_Nil until later_fold Let_def option.case not_False_eq_True)
qed

definition sample_library :: text_library where
  "sample_library =
     \<lparr>url_split = (\<lambda>s. \<lparr>up_scheme = ''https'', up_netloc = s, up_path = ''/'', up_query = [], up_hostname = Some s,
        up_username = None, up_password = None\<rparr>), query_parse = (\<lambda>_. []), query_encode = (\<lambda>_. []),
      url_unsplit = (\<lambda>(a, b, c, d, e). a @ b @ c @ d @ e), sha256_hex = (\<lambda>s. ''h'' @ s)\<rparr>"

definition sample_item :: news_item where
  "sample_item = \<lparr>ni_source = fed_monetary, ni_title = ''Bitcoin hack'', ni_url = ''https://x'', ni_published_at = 0,
     ni_summary = [], ni_domain = Some ''x''\<rparr>"

definition sample_collection :: news_collection where
  "sample_collection = \<lparr>nc_collected_at = 0, nc_items = [sample_item], nc_scheduled = [],
     nc_issues = [\<lparr>ci_source_id = ''sec_releases'', ci_detail = ''timeout'', ci_required = True\<rparr>]\<rparr>"

theorem news_decision_exact_witness:
  "\<exists>r. assess sample_library default_news_policy sample_collection 5 = Inr r \<and> ra_decision r = BLOCK \<and> ra_reasons r \<noteq> []"
  using news_decision_exact [of sample_library sample_collection default_news_policy 5]
  by (auto simp: hashes_def sample_library_def sample_collection_def sample_item_def)

theorem events_partition_items_witness:
  "\<exists>es. news_events sample_library [sample_item] = Inr es \<and> size (mset es) = 1"
proof -
  have "hashes sample_library" "\<forall>i \<in> set [sample_item]. ni_title i \<noteq> []"
    by (simp_all add: hashes_def sample_library_def sample_item_def)
  from events_partition_items [OF this] obtain cs es event_of where e: "news_events sample_library [sample_item] = Inr es"
    "mset es = mset (map event_of cs)" "mset (concat cs) = mset [sample_item]" "[] \<notin> set cs" by blast
  have "length cs = 1"
  proof (cases cs)
    case (Cons a rest)
    then have "length a + length (concat rest) = 1" "a \<noteq> []" using e(4) mset_eq_length [OF e(3)] by auto
    then have "concat rest = []" by (cases a) auto
    then show ?thesis using Cons e(4) by (cases rest) auto
  qed (use e(3) in simp)
  then show ?thesis using e(1) arg_cong [OF e(2), of size] by simp
qed

end
