(* ===== verification/Signals.thy ===== *)
theory Signals
  imports Analysis News
begin

section \<open>Signal admission\<close>

text \<open>
  \<^verbatim>\<open>signals/models.py\<close> and \<^verbatim>\<open>signals/engine.py\<close>: the gates a new signal has to pass, the
  construction of its entry zone, stop and targets from the 15-minute structure, and the
  evaluation that returns a signal or the reasons against one.

  The lemmas show what holds for every signal the engine creates, and that the evaluation of a
  valid snapshot raises nothing but the decimal exception of a price with too many digits.
\<close>

subsection \<open>Records\<close>

datatype signal_decision = CREATED | NO_SIGNAL

record signal_history =
  last_signal_at :: "instant option"
  active_managed_signal :: bool

record signal_evaluation =
  ev_at :: instant
  ev_decision :: signal_decision
  ev_analysis :: analysis_result
  ev_news :: risk_assessment
  ev_signal :: "signal option"
  ev_reasons :: "string list"

definition check_evaluation :: "signal_evaluation \<Rightarrow> signal_evaluation result" where
  "check_evaluation e =
     (if ev_decision e = CREATED \<and> (ev_signal e = None \<or> ev_reasons e \<noteq> [])
      then Inl (DomainValidationError ''A created signal requires terms and cannot contain rejection reasons'')
      else if ev_decision e \<noteq> CREATED \<and> (ev_signal e \<noteq> None \<or> ev_reasons e = [])
      then Inl (DomainValidationError ''NO_SIGNAL requires at least one auditable rejection'')
      else Inr e)"

record signal_policy =
  sp_minimum_score :: int
  sp_cooldown :: duration
  sp_expiry :: duration
  sp_snapshot_age :: duration
  sp_news_age :: duration
  sp_clock_skew :: duration
  sp_entry_distance_atr :: decimal
  sp_stop_buffer_atr :: decimal
  sp_cost_rate :: decimal
  sp_first_target_r :: decimal
  sp_second_target_r :: decimal
  sp_standard_risk :: decimal
  sp_cautious_risk :: decimal

definition default_signal_policy :: signal_policy where
  "default_signal_policy =
     \<lparr>sp_minimum_score = 80, sp_cooldown = 4 * usec_hour, sp_expiry = 4 * usec_hour, sp_snapshot_age = 5 * usec_minute,
      sp_news_age = 15 * usec_minute, sp_clock_skew = 5 * usec_second, sp_entry_distance_atr = 5 / 2,
      sp_stop_buffer_atr = 1 / 2, sp_cost_rate = 15 / 10000, sp_first_target_r = 225 / 100, sp_second_target_r = 325 / 100,
      sp_standard_risk = 50 / 100, sp_cautious_risk = 25 / 100\<rparr>"

definition check_signal_policy :: "signal_policy \<Rightarrow> signal_policy result" where
  "check_signal_policy p =
     (if \<not> (60 \<le> sp_minimum_score p \<and> sp_minimum_score p \<le> 100)
      then Inl (ValueError ''Signal threshold must be between 60 and 100'')
      else if sp_cooldown p \<le> 0 \<or> sp_expiry p \<le> 0 then Inl (ValueError ''Cooldown and expiry must be positive'')
      else if sp_snapshot_age p \<le> 0 \<or> sp_news_age p \<le> 0 then Inl (ValueError ''Freshness limits must be positive'')
      else if sp_clock_skew p < 0 then Inl (ValueError ''Clock skew cannot be negative'')
      else if sp_entry_distance_atr p \<le> 0 \<or> sp_stop_buffer_atr p \<le> 0
      then Inl (ValueError ''ATR distance and stop buffer must be positive'')
      else if \<not> (2 \<le> sp_first_target_r p \<and> sp_first_target_r p < sp_second_target_r p)
      then Inl (ValueError ''Signal targets must increase from at least 2R'')
      else if \<not> (0 \<le> sp_cost_rate p \<and> sp_cost_rate p \<le> 1 / 100)
      then Inl (ValueError ''Signal cost rate must be between zero and one percent'')
      else if \<not> (1 / 100 \<le> sp_cautious_risk p \<and> sp_cautious_risk p \<le> sp_standard_risk p)
      then Inl (ValueError ''Risk percentages must be positive and cautious risk cannot be higher'')
      else if 1 < sp_standard_risk p then Inl (ValueError ''Standard recommended risk cannot exceed one percent'')
      else Inr p)"

subsection \<open>The gates\<close>

definition timeframe_or_none :: "analysis_result \<Rightarrow> market_interval \<Rightarrow> timeframe_analysis option" where
  "timeframe_or_none an iv = List.find (\<lambda>t. ta_interval t = iv) (timeframes an)"

definition timeframe_at :: "analysis_result \<Rightarrow> market_interval \<Rightarrow> timeframe_analysis result" where
  "timeframe_at an iv =
     (case timeframe_or_none an iv of
        None \<Rightarrow> Inl (ValueError (''Analysis is missing '' @ interval_value iv)) | Some t \<Rightarrow> Inr t)"

definition expected_regime :: "direction \<Rightarrow> market_regime option" where
  "expected_regime d = (case d of BULLISH \<Rightarrow> Some BULLISH_TREND | BEARISH \<Rightarrow> Some BEARISH_TREND | NEUTRAL \<Rightarrow> None)"

definition aligned_at :: "analysis_result \<Rightarrow> market_interval \<Rightarrow> bool" where
  "aligned_at an iv =
     (case timeframe_or_none an iv of None \<Rightarrow> False | Some t \<Rightarrow> ta_direction t = directional_bias an)"

definition analysis_rejections :: "signal_policy \<Rightarrow> analysis_result \<Rightarrow> string list" where
  "analysis_rejections p an =
     (if ar_status an = AN_REJECTED \<or> \<not> reliable an
      then [''multi-timeframe analysis is not reliable''] @ no_trade_reasons an @ ar_issues an else [])
   @ (if setup_quality_score an < sp_minimum_score p
      then [''setup score below selective threshold '' @ int_text (sp_minimum_score p)] else [])
   @ (if map ta_interval (timeframes an) \<noteq> analysis_intervals
      then [''analysis timeframe hierarchy is incomplete or unordered''] else [])
   @ (if expected_regime (directional_bias an) = None \<or> expected_regime (directional_bias an) \<noteq> Some (ar_regime an)
      then [''overall regime is not an aligned directional trend''] else [])
   @ (if directional_bias an \<noteq> NEUTRAL
      then map (\<lambda>iv. interval_value iv @ '' execution direction is not aligned'')
             (filter (\<lambda>iv. \<not> aligned_at an iv) [ONE_HOUR, FIFTEEN_MINUTES])
      else [])"

definition freshness_rejections :: "duration \<Rightarrow> duration \<Rightarrow> instant \<Rightarrow> instant \<Rightarrow> string \<Rightarrow> string list" where
  "freshness_rejections skew max_age now observed name =
     (if now + skew < observed then [name @ '' is future-dated'']
      else if max_age < now - observed then [name @ '' is stale''] else [])"

definition history_rejections :: "signal_policy \<Rightarrow> instant \<Rightarrow> signal_history \<Rightarrow> string list" where
  "history_rejections p now h =
     (if active_managed_signal h then [''a managed BTC signal is already active''] else [])
   @ (case last_signal_at h of
        None \<Rightarrow> []
      | Some t \<Rightarrow>
          if now + sp_clock_skew p < t then [''signal history is future-dated'']
          else if now - t < sp_cooldown p then [''signal cooldown is still active''] else [])"

definition admission_rejections ::
  "signal_policy \<Rightarrow> analysis_result \<Rightarrow> market_snapshot \<Rightarrow> risk_assessment \<Rightarrow> instant \<Rightarrow> signal_history \<Rightarrow> string list" where
  "admission_rejections p an m news now h =
     analysis_rejections p an
   @ freshness_rejections (sp_clock_skew p) (sp_snapshot_age p) now (captured_at m) ''market snapshot''
   @ freshness_rejections (sp_clock_skew p) (sp_news_age p) now (ra_evaluated_at news) ''news-risk assessment''
   @ (if ra_decision news = BLOCK then [''news-risk gate blocks new signals''] @ ra_reasons news else [])
   @ history_rejections p now h"

definition identity_rejections :: "string \<Rightarrow> string list result" where
  "identity_rejections sid =
     (case validate_signal_id sid of
        Inr _ \<Rightarrow> Inr []
      | Inl (DomainValidationError m) \<Rightarrow> Inr [''signal identity is invalid: '' @ m]
      | Inl e \<Rightarrow> Inl e)"

subsection \<open>Entry, stop and targets\<close>

definition entry_zone :: "timeframe_analysis \<Rightarrow> side \<Rightarrow> price_zone option" where
  "entry_zone t sd =
     (let zs = (case sd of LONG \<Rightarrow> support_zones (ta_structure t) | SHORT \<Rightarrow> resistance_zones (ta_structure t))
      in case zs of [] \<Rightarrow> None | z # _ \<Rightarrow> Some z)"

definition entry_is_reachable :: "signal_policy \<Rightarrow> price_zone \<Rightarrow> decimal \<Rightarrow> decimal \<Rightarrow> side \<Rightarrow> bool" where
  "entry_is_reachable p z current atr sd =
     (let distance = (case sd of LONG \<Rightarrow> max 0 (dsub current (z_upper z)) | SHORT \<Rightarrow> max 0 (dsub (z_lower z) current))
      in 0 < atr \<and> distance \<le> dmul atr (sp_entry_distance_atr p))"

definition target_price :: "side \<Rightarrow> decimal \<Rightarrow> decimal \<Rightarrow> decimal \<Rightarrow> decimal \<Rightarrow> decimal result" where
  "target_price sd entry cost total_risk target_r =
     (let gross_reward = dadd (dmul target_r total_risk) cost in
      case sd of
        LONG \<Rightarrow> quantize Round_Up 2 (dadd entry gross_reward)
      | SHORT \<Rightarrow> quantize Round_Down 2 (dsub entry gross_reward))"

definition build_target :: "side \<Rightarrow> decimal \<Rightarrow> decimal \<Rightarrow> decimal \<Rightarrow> int \<Rightarrow> decimal \<Rightarrow> target result" where
  "build_target sd entry cost total_risk ordinal target_r =
     bind_result (target_price sd entry cost total_risk target_r) (\<lambda>price.
       check_target \<lparr>t_ordinal = ordinal, t_price = price\<rparr>)"

definition stop_price :: "signal_policy \<Rightarrow> side \<Rightarrow> price_zone \<Rightarrow> decimal \<Rightarrow> decimal result" where
  "stop_price p sd z atr =
     (case sd of
        LONG \<Rightarrow> quantize Round_Down 2 (dsub (z_lower z) (dmul atr (sp_stop_buffer_atr p)))
      | SHORT \<Rightarrow> quantize Round_Up 2 (dadd (z_upper z) (dmul atr (sp_stop_buffer_atr p))))"

definition build_terms ::
  "(decimal \<Rightarrow> string) \<Rightarrow> signal_policy \<Rightarrow> side \<Rightarrow> price_zone \<Rightarrow> decimal \<Rightarrow> instant \<Rightarrow> instant \<Rightarrow> bool \<Rightarrow> signal_terms result" where
  "build_terms show_dec p sd z atr data_at now reduced_risk =
     bind_result (quantize Round_Down 2 (z_lower z)) (\<lambda>low.
     bind_result (quantize Round_Up 2 (z_upper z)) (\<lambda>high.
     bind_result (stop_price p sd z atr) (\<lambda>stop.
       let entry = (case sd of LONG \<Rightarrow> high | SHORT \<Rightarrow> low);
           cost = dmul entry (sp_cost_rate p);
           total_risk = dadd (gross_risk sd entry stop) cost
       in bind_result (build_target sd entry cost total_risk 1 (sp_first_target_r p)) (\<lambda>t1.
          bind_result (build_target sd entry cost total_risk 2 (sp_second_target_r p)) (\<lambda>t2.
            check_signal_terms
              \<lparr>side = sd, entry_low = low, entry_high = high, original_stop = stop, targets = [t1, t2],
               created_at = now, data_timestamp = data_at, expires_at = now + sp_expiry p,
               invalidation_condition = ''A completed 15m candle closes '' @ (case sd of LONG \<Rightarrow> ''below'' | SHORT \<Rightarrow> ''above'')
                 @ '' the structure stop at '' @ show_dec stop @ ''.'',
               expiration_condition = ''The entry zone is not touched within four hours.'',
               recommended_risk_percent = (if reduced_risk then sp_cautious_risk p else sp_standard_risk p),
               estimated_round_trip_cost_rate = sp_cost_rate p, minimum_planned_rr = 2, symbol = ''BTCUSDT''\<rparr>)))))"

definition target_obstruction :: "analysis_result \<Rightarrow> signal_terms \<Rightarrow> string option result" where
  "target_obstruction an t =
     bind_result (timeframe_at an ONE_HOUR) (\<lambda>operational.
       let tp1 = t_price (hd (targets t)); st = ta_structure operational in
       case side t of
         LONG \<Rightarrow>
           let obstacles = filter (\<lambda>x. conservative_entry t < x) (map z_lower (resistance_zones st)) in
           Inr (if obstacles \<noteq> [] \<and> Min (set obstacles) < tp1
                then Some ''one-hour resistance obstructs the minimum-net-2R target'' else None)
       | SHORT \<Rightarrow>
           let obstacles = filter (\<lambda>x. x < conservative_entry t) (map z_upper (support_zones st)) in
           Inr (if obstacles \<noteq> [] \<and> tp1 < Max (set obstacles)
                then Some ''one-hour support obstructs the minimum-net-2R target'' else None))"

subsection \<open>The signal\<close>

fun bias_of :: "direction \<Rightarrow> bias" where
  "bias_of BULLISH = Bias_BULLISH"
| "bias_of BEARISH = Bias_BEARISH"
| "bias_of NEUTRAL = Bias_NEUTRAL"

text \<open>A lookup in the dictionary of biases: the last entry of an interval counts.\<close>

definition bias_at :: "analysis_result \<Rightarrow> market_interval \<Rightarrow> bias result" where
  "bias_at an iv =
     (case List.find (\<lambda>t. ta_interval t = iv) (rev (timeframes an)) of
        None \<Rightarrow> Inl (KeyError (interval_value iv)) | Some t \<Rightarrow> Inr (bias_of (ta_direction t)))"

definition biases_of :: "analysis_result \<Rightarrow> timeframe_biases result" where
  "biases_of an =
     bind_result (bias_at an ONE_MONTH) (\<lambda>mo. bind_result (bias_at an ONE_WEEK) (\<lambda>we.
     bind_result (bias_at an ONE_DAY) (\<lambda>da. bind_result (bias_at an FOUR_HOURS) (\<lambda>fo.
     bind_result (bias_at an ONE_HOUR) (\<lambda>ho. bind_result (bias_at an FIFTEEN_MINUTES) (\<lambda>fi.
       Inr \<lparr>monthly = mo, weekly = we, daily = da, four_hour = fo, one_hour = ho, fifteen_minute = fi\<rparr>))))))"

definition setup_reasons :: "analysis_result \<Rightarrow> side \<Rightarrow> string list" where
  "setup_reasons an sd =
     [''Higher-timeframe bias and regime support '' @ (case sd of LONG \<Rightarrow> ''LONG'' | SHORT \<Rightarrow> ''SHORT'') @ ''.'',
      ''One-hour and 15-minute execution directions are aligned.'',
      ''Independent evidence-group agreement scored '' @ int_text (setup_quality_score an) @ ''/100.'',
      ''Entry and stop are derived from completed-candle 15-minute structure and ATR.'']"

definition risk_descriptions :: "analysis_result \<Rightarrow> risk_assessment \<Rightarrow> string list" where
  "risk_descriptions an news =
     fromkeys (ar_issues an
       @ (if ar_status an = AN_DEGRADED then [''Optional market context is degraded; suggested risk is reduced.''] else [])
       @ (if ra_decision news = CAUTION
          then [''News coverage or context is degraded; suggested risk is reduced.''] @ ra_reasons news else []))"

definition rejected :: "instant \<Rightarrow> analysis_result \<Rightarrow> risk_assessment \<Rightarrow> string list \<Rightarrow> signal_evaluation result" where
  "rejected now an news why =
     check_evaluation
       \<lparr>ev_at = now, ev_decision = NO_SIGNAL, ev_analysis = an, ev_news = news, ev_signal = None, ev_reasons = why\<rparr>"

definition propose ::
  "(decimal \<Rightarrow> string) \<Rightarrow> signal_policy \<Rightarrow> string \<Rightarrow> market_snapshot \<Rightarrow> risk_assessment \<Rightarrow> instant \<Rightarrow> analysis_result
    \<Rightarrow> signal_evaluation result" where
  "propose show_dec p sid m news now an =
     (let sd = (if directional_bias an = BULLISH then LONG else SHORT) in
      bind_result (timeframe_at an FIFTEEN_MINUTES) (\<lambda>execution.
      case entry_zone execution sd of
        None \<Rightarrow> rejected now an news [''no usable 15-minute structure zone'']
      | Some z \<Rightarrow>
        bind_result (series_for m SPOT FIFTEEN_MINUTES) (\<lambda>series.
        let current = c_close (latest series); atr = atr_14 (ta_indicators execution) in
        if \<not> entry_is_reachable p z current atr sd
        then rejected now an news [''nearest structure entry is more than 2.5 ATR from price'']
        else
          (case build_terms show_dec p sd z atr (captured_at m) now
                 (ra_decision news = CAUTION \<or> ar_status an = AN_DEGRADED) of
             Inl (DomainValidationError why) \<Rightarrow> rejected now an news [''constructed signal terms are unsafe: '' @ why]
           | Inl e \<Rightarrow> Inl e
           | Inr t \<Rightarrow>
             bind_result (target_obstruction an t) (\<lambda>obstruction.
             case obstruction of
               Some why \<Rightarrow> rejected now an news [why]
             | None \<Rightarrow>
               bind_result (biases_of an) (\<lambda>bs.
               bind_result (check_signal
                   \<lparr>signal_id = sid, terms = t, setup_score = setup_quality_score an, regime = ar_regime an, biases = bs,
                    reasons = setup_reasons an sd, risks = risk_descriptions an news, strategy_version = ''rules-v0.6.0'',
                    status = PENDING, row_version = 1\<rparr>) (\<lambda>s.
                 check_evaluation
                   \<lparr>ev_at = now, ev_decision = CREATED, ev_analysis = an, ev_news = news, ev_signal = Some s, ev_reasons = []\<rparr>)))))))"

text \<open>\<open>admit_signal\<close> is \<^verbatim>\<open>evaluate\<close> after the analysis.\<close>

definition admit_signal ::
  "(decimal \<Rightarrow> string) \<Rightarrow> signal_policy \<Rightarrow> string \<Rightarrow> market_snapshot \<Rightarrow> risk_assessment \<Rightarrow> instant \<Rightarrow> signal_history
    \<Rightarrow> analysis_result \<Rightarrow> signal_evaluation result" where
  "admit_signal show_dec p sid m news now h an =
     bind_result (identity_rejections sid) (\<lambda>identity.
       let why = admission_rejections p an m news now h @ identity in
       if why \<noteq> [] then rejected now an news (fromkeys why) else propose show_dec p sid m news now an)"

definition evaluate_signal ::
  "(decimal \<Rightarrow> string) \<Rightarrow> signal_policy \<Rightarrow> string \<Rightarrow> market_snapshot \<Rightarrow> risk_assessment \<Rightarrow> instant \<Rightarrow> signal_history
    \<Rightarrow> signal_evaluation result" where
  "evaluate_signal show_dec p sid m news now h =
     bind_result (analyze show_dec m) (admit_signal show_dec p sid m news now h)"

subsection \<open>What the gates establish\<close>

lemma rejected_signal: "rejected now an news why = Inr ev \<Longrightarrow> ev_signal ev = None"
  by (auto simp: rejected_def check_evaluation_def split: if_splits)

lemma analysis_admitted:
  assumes "analysis_rejections p an = []"
  shows "reliable an" "sp_minimum_score p \<le> setup_quality_score an" "map ta_interval (timeframes an) = analysis_intervals"
    "expected_regime (directional_bias an) = Some (ar_regime an)" "aligned_at an ONE_HOUR" "aligned_at an FIFTEEN_MINUTES"
  using assms by (auto simp: analysis_rejections_def expected_regime_def split: if_splits direction.splits)

lemma fresh_admitted:
  "freshness_rejections skew age now t name = [] \<Longrightarrow> t \<le> now + skew \<and> now - t \<le> age"
  by (auto simp: freshness_rejections_def split: if_splits)

lemma history_admitted:
  assumes "history_rejections p now h = []"
  shows "\<not> active_managed_signal h" "last_signal_at h = Some t \<Longrightarrow> t \<le> now + sp_clock_skew p \<and> sp_cooldown p \<le> now - t"
  using assms by (auto simp: history_rejections_def split: if_splits option.splits)

lemma build_terms_parts:
  assumes "build_terms show_dec p sd z atr data_at now reduced = Inr t"
  shows "check_signal_terms t = Inr t" "side t = sd" "created_at t = now" "data_timestamp t = data_at"
    "expires_at t = now + sp_expiry p" "recommended_risk_percent t = (if reduced then sp_cautious_risk p else sp_standard_risk p)"
    "quantize Round_Down 2 (z_lower z) = Inr (entry_low t)" "quantize Round_Up 2 (z_upper z) = Inr (entry_high t)"
proof -
  obtain low high stop t1 t2 u where b: "quantize Round_Down 2 (z_lower z) = Inr low" "quantize Round_Up 2 (z_upper z) = Inr high"
    "check_signal_terms u = Inr t" "side u = sd" "created_at u = now" "data_timestamp u = data_at" "expires_at u = now + sp_expiry p"
    "recommended_risk_percent u = (if reduced then sp_cautious_risk p else sp_standard_risk p)" "entry_low u = low" "entry_high u = high"
    using assms unfolding build_terms_def by (auto simp: bind_result_eq_Inr Let_def)
  have "t = u" using check_signal_terms_Inr [OF b(3)] by simp
  then show "check_signal_terms t = Inr t" "side t = sd" "created_at t = now" "data_timestamp t = data_at"
    "expires_at t = now + sp_expiry p" "recommended_risk_percent t = (if reduced then sp_cautious_risk p else sp_standard_risk p)"
    "quantize Round_Down 2 (z_lower z) = Inr (entry_low t)" "quantize Round_Up 2 (z_upper z) = Inr (entry_high t)"
    using b by simp_all
qed

lemma quantize_outward:
  assumes "0 \<le> x"
  shows "quantize Round_Down 2 x = Inr y \<Longrightarrow> y \<le> x" "quantize Round_Up 2 x = Inr y \<Longrightarrow> x \<le> y"
proof -
  show "y \<le> x" if "quantize Round_Down 2 x = Inr y"
  proof -
    have "y = of_int \<lfloor>x * 100\<rfloor> / 100" using that assms by (auto simp: quantize_def round_with_def Let_def split: if_splits)
    moreover have "of_int \<lfloor>x * 100\<rfloor> \<le> x * 100" by (rule of_int_floor_le)
    ultimately show ?thesis by linarith
  qed
  show "x \<le> y" if "quantize Round_Up 2 x = Inr y"
  proof -
    have "y = of_int \<lceil>x * 100\<rceil> / 100" using that assms by (auto simp: quantize_def round_with_def Let_def split: if_splits)
    moreover have "x * 100 \<le> of_int \<lceil>x * 100\<rceil>" by (rule le_of_int_ceiling)
    ultimately show ?thesis by linarith
  qed
qed

lemma no_obstruction:
  assumes "target_obstruction an t = Inr None" "timeframe_or_none an ONE_HOUR = Some op"
  shows "case side t of
      LONG \<Rightarrow> \<forall>z \<in> set (resistance_zones (ta_structure op)). conservative_entry t < z_lower z \<longrightarrow> t_price (hd (targets t)) \<le> z_lower z
    | SHORT \<Rightarrow> \<forall>z \<in> set (support_zones (ta_structure op)). z_upper z < conservative_entry t \<longrightarrow> z_upper z \<le> t_price (hd (targets t))"
proof (cases "side t")
  case LONG
  let ?o = "filter (\<lambda>x. conservative_entry t < x) (map z_lower (resistance_zones (ta_structure op)))"
  have o: "?o \<noteq> [] \<Longrightarrow> \<not> Min (set ?o) < t_price (hd (targets t))"
    using assms LONG by (auto simp: target_obstruction_def timeframe_at_def Let_def split: if_splits)
  have "t_price (hd (targets t)) \<le> z_lower z" if "z \<in> set (resistance_zones (ta_structure op))" "conservative_entry t < z_lower z" for z
  proof -
    have "z_lower z \<in> set ?o" using that by simp
    moreover from this have "Min (set ?o) \<le> z_lower z" by (rule Min_le [OF finite_set])
    ultimately show ?thesis using o by (metis empty_iff list.set(1) not_less order_trans)
  qed
  then show ?thesis using LONG by simp
next
  case SHORT
  let ?o = "filter (\<lambda>x. x < conservative_entry t) (map z_upper (support_zones (ta_structure op)))"
  have o: "?o \<noteq> [] \<Longrightarrow> \<not> t_price (hd (targets t)) < Max (set ?o)"
    using assms SHORT by (auto simp: target_obstruction_def timeframe_at_def Let_def split: if_splits)
  have "z_upper z \<le> t_price (hd (targets t))" if "z \<in> set (support_zones (ta_structure op))" "z_upper z < conservative_entry t" for z
  proof -
    have "z_upper z \<in> set ?o" using that by simp
    moreover from this have "z_upper z \<le> Max (set ?o)" by (rule Max_ge [OF finite_set])
    ultimately show ?thesis using o by (metis empty_iff list.set(1) not_less order_trans)
  qed
  then show ?thesis using SHORT by simp
qed

lemma propose_created:
  assumes "propose show_dec p sid m news now an = Inr ev" "ev_signal ev = Some s"
  shows "\<exists>execution z series. timeframe_or_none an FIFTEEN_MINUTES = Some execution
    \<and> entry_zone execution (side (terms s)) = Some z \<and> series_for m SPOT FIFTEEN_MINUTES = Inr series
    \<and> side (terms s) = (if directional_bias an = BULLISH then LONG else SHORT)
    \<and> entry_is_reachable p z (c_close (latest series)) (atr_14 (ta_indicators execution)) (side (terms s))
    \<and> build_terms show_dec p (side (terms s)) z (atr_14 (ta_indicators execution)) (captured_at m) now
        (ra_decision news = CAUTION \<or> ar_status an = AN_DEGRADED) = Inr (terms s)
    \<and> target_obstruction an (terms s) = Inr None \<and> biases_of an = Inr (biases s) \<and> check_signal s = Inr s
    \<and> signal_id s = sid \<and> setup_score s = setup_quality_score an \<and> regime s = ar_regime an
    \<and> ev_decision ev = CREATED \<and> ev_reasons ev = []"
proof -
  define sd where "sd = (if directional_bias an = BULLISH then LONG else SHORT)"
  note no = rejected_signal [of now an news]
  obtain ex where ex: "timeframe_or_none an FIFTEEN_MINUTES = Some ex"
    using assms(1) by (auto simp: propose_def Let_def bind_result_eq_Inr timeframe_at_def split: option.splits)
  obtain z where z: "entry_zone ex sd = Some z"
    using assms no by (auto simp: propose_def Let_def sd_def timeframe_at_def ex split: option.splits)
  obtain series where series: "series_for m SPOT FIFTEEN_MINUTES = Inr series"
    using assms no by (auto simp: propose_def Let_def sd_def [symmetric] timeframe_at_def ex z bind_result_eq_Inr)
  have reach: "entry_is_reachable p z (c_close (latest series)) (atr_14 (ta_indicators ex)) sd"
    using assms no by (auto simp: propose_def Let_def sd_def [symmetric] timeframe_at_def ex z series split: if_splits)
  obtain t where t: "build_terms show_dec p sd z (atr_14 (ta_indicators ex)) (captured_at m) now
      (ra_decision news = CAUTION \<or> ar_status an = AN_DEGRADED) = Inr t"
    using assms no by (auto simp: propose_def Let_def sd_def [symmetric] timeframe_at_def ex z series reach split: sum.splits exn.splits)
  obtain found where found: "target_obstruction an t = Inr found"
    using assms(1) by (auto simp: propose_def Let_def sd_def [symmetric] timeframe_at_def ex z series reach t bind_result_eq_Inr)
  have obs: "target_obstruction an t = Inr None"
  proof (cases found)
    case (Some why)
    then have "rejected now an news [why] = Inr ev"
      using assms(1) by (simp add: propose_def Let_def sd_def [symmetric] timeframe_at_def ex z series reach t found)
    then show ?thesis using no assms(2) by fastforce
  qed (use found in simp)
  obtain bs where bs: "biases_of an = Inr bs"
    using assms(1) by (auto simp: propose_def Let_def sd_def [symmetric] timeframe_at_def ex z series reach t obs bind_result_eq_Inr)
  define s0 where "s0 = \<lparr>signal_id = sid, terms = t, setup_score = setup_quality_score an, regime = ar_regime an, biases = bs,
     reasons = setup_reasons an sd, risks = risk_descriptions an news, strategy_version = ''rules-v0.6.0'',
     status = PENDING, row_version = 1\<rparr>"
  obtain s1 where s1: "check_signal s0 = Inr s1" "check_evaluation \<lparr>ev_at = now, ev_decision = CREATED, ev_analysis = an, ev_news = news,
      ev_signal = Some s1, ev_reasons = []\<rparr> = Inr ev"
    using assms(1) by (auto simp: propose_def Let_def sd_def [symmetric] timeframe_at_def ex z series reach t obs bs bind_result_eq_Inr s0_def)
  have "s1 = s0" using s1(1) by (auto simp: check_signal_def bind_result_eq_Inr split: if_splits)
  moreover have "s = s1" "ev_decision ev = CREATED" "ev_reasons ev = []" using s1(2) assms(2) by (auto simp: check_evaluation_def)
  ultimately have s: "s = s0" "check_signal s = Inr s" using s1(1) by simp_all
  have sd: "side (terms s) = sd" using build_terms_parts(2) [OF t] by (simp add: s(1) s0_def)
  show ?thesis
    unfolding sd using ex z series reach t obs bs s(2) \<open>ev_decision ev = CREATED\<close> \<open>ev_reasons ev = []\<close>
    by (simp add: s(1) s0_def sd_def)
qed

lemma terms_plan_two:
  assumes "check_signal_terms t = Inr u" "x \<in> set (targets t)"
  shows "2 \<le> planned_r_for t x"
  using planned_r_mono [OF terms_first_target [OF assms]] check_signal_terms_Inr [OF assms(1)] by (meson order_trans)

text \<open>
  C2: every created signal passed every gate.  The analysis it rests on is reliable, complete,
  above the threshold and in a trend on the signal's side, with both execution timeframes
  aligned; the snapshot is not from the future and fresh, the news assessment is fresh and does
  not block, no managed signal is active and the cooldown is over.  Its terms are valid, so
  every target plans at least 2 R after costs; its entry zone covers the nearest 15-minute zone
  on its side, within reach of the price; the first target is not beyond an opposing one-hour
  zone; and the recommended risk is reduced when context or news coverage is degraded.
\<close>

theorem created_signal_safe:
  assumes "admit_signal show_dec p sid m news now h an = Inr ev" "ev_signal ev = Some s"
  shows "ev_decision ev = CREATED \<and> ev_reasons ev = [] \<and> signal_id s = sid \<and> check_signal s = Inr s
    \<and> reliable an \<and> sp_minimum_score p \<le> setup_quality_score an \<and> setup_score s = setup_quality_score an
    \<and> map ta_interval (timeframes an) = analysis_intervals
    \<and> directional_bias an = (case side (terms s) of LONG \<Rightarrow> BULLISH | SHORT \<Rightarrow> BEARISH)
    \<and> regime s = (case side (terms s) of LONG \<Rightarrow> BULLISH_TREND | SHORT \<Rightarrow> BEARISH_TREND)
    \<and> aligned_at an ONE_HOUR \<and> aligned_at an FIFTEEN_MINUTES
    \<and> captured_at m \<le> now \<and> now - captured_at m \<le> sp_snapshot_age p
    \<and> ra_evaluated_at news \<le> now + sp_clock_skew p \<and> now - ra_evaluated_at news \<le> sp_news_age p \<and> allows_new_signal news
    \<and> \<not> active_managed_signal h \<and> (\<forall>t. last_signal_at h = Some t \<longrightarrow> sp_cooldown p \<le> now - t)
    \<and> created_at (terms s) = now \<and> expires_at (terms s) = now + sp_expiry p
    \<and> (\<forall>x \<in> set (targets (terms s)). 2 \<le> planned_r_for (terms s) x)
    \<and> recommended_risk_percent (terms s) =
        (if ra_decision news = CAUTION \<or> ar_status an = AN_DEGRADED then sp_cautious_risk p else sp_standard_risk p)
    \<and> (\<exists>execution z series. timeframe_or_none an FIFTEEN_MINUTES = Some execution \<and> entry_zone execution (side (terms s)) = Some z
        \<and> series_for m SPOT FIFTEEN_MINUTES = Inr series
        \<and> entry_is_reachable p z (c_close (latest series)) (atr_14 (ta_indicators execution)) (side (terms s))
        \<and> (0 \<le> z_lower z \<and> z_lower z \<le> z_upper z \<longrightarrow> entry_low (terms s) \<le> z_lower z \<and> z_upper z \<le> entry_high (terms s)))
    \<and> (\<exists>operational. timeframe_or_none an ONE_HOUR = Some operational
        \<and> (case side (terms s) of
             LONG \<Rightarrow> \<forall>z \<in> set (resistance_zones (ta_structure operational)).
               conservative_entry (terms s) < z_lower z \<longrightarrow> t_price (hd (targets (terms s))) \<le> z_lower z
           | SHORT \<Rightarrow> \<forall>z \<in> set (support_zones (ta_structure operational)).
               z_upper z < conservative_entry (terms s) \<longrightarrow> z_upper z \<le> t_price (hd (targets (terms s)))))"
proof -
  obtain identity where identity: "identity_rejections sid = Inr identity" "admission_rejections p an m news now h @ identity = []"
    "propose show_dec p sid m news now an = Inr ev"
    using assms rejected_signal [of now an news] by (fastforce simp: admit_signal_def Let_def bind_result_eq_Inr split: if_splits)
  then have gates: "analysis_rejections p an = []"
    "freshness_rejections (sp_clock_skew p) (sp_snapshot_age p) now (captured_at m) ''market snapshot'' = []"
    "freshness_rejections (sp_clock_skew p) (sp_news_age p) now (ra_evaluated_at news) ''news-risk assessment'' = []"
    "ra_decision news \<noteq> BLOCK" "history_rejections p now h = []"
    by (auto simp: admission_rejections_def split: if_splits)
  note an = analysis_admitted [OF gates(1)]
  obtain ex z series where q: "timeframe_or_none an FIFTEEN_MINUTES = Some ex" "entry_zone ex (side (terms s)) = Some z"
    "series_for m SPOT FIFTEEN_MINUTES = Inr series" "side (terms s) = (if directional_bias an = BULLISH then LONG else SHORT)"
    "entry_is_reachable p z (c_close (latest series)) (atr_14 (ta_indicators ex)) (side (terms s))"
    "build_terms show_dec p (side (terms s)) z (atr_14 (ta_indicators ex)) (captured_at m) now
        (ra_decision news = CAUTION \<or> ar_status an = AN_DEGRADED) = Inr (terms s)"
    "target_obstruction an (terms s) = Inr None" "check_signal s = Inr s"
    "signal_id s = sid" "setup_score s = setup_quality_score an" "regime s = ar_regime an"
    "ev_decision ev = CREATED" "ev_reasons ev = []"
    using propose_created [OF identity(3) assms(2)] by blast
  note t = build_terms_parts [OF q(6)]
  have dir: "directional_bias an = (case side (terms s) of LONG \<Rightarrow> BULLISH | SHORT \<Rightarrow> BEARISH)"
    "regime s = (case side (terms s) of LONG \<Rightarrow> BULLISH_TREND | SHORT \<Rightarrow> BEARISH_TREND)"
    using an(4) q(4,11) by (auto simp: expected_regime_def split: direction.splits)
  obtain op where op: "timeframe_or_none an ONE_HOUR = Some op" using an(5) by (auto simp: aligned_at_def split: option.splits)
  have zone: "entry_low (terms s) \<le> z_lower z \<and> z_upper z \<le> entry_high (terms s)" if "0 \<le> z_lower z \<and> z_lower z \<le> z_upper z"
    using quantize_outward(1) [OF _ t(7)] quantize_outward(2) [OF _ t(8)] that by simp
  have future: "captured_at m \<le> now" using check_signal_terms_Inr [OF t(1)] t(3,4) by simp
  have rr: "\<forall>x \<in> set (targets (terms s)). 2 \<le> planned_r_for (terms s) x" using terms_plan_two [OF t(1)] by blast
  show ?thesis
  proof (intro conjI)
    show "\<forall>x. last_signal_at h = Some x \<longrightarrow> sp_cooldown p \<le> now - x" using history_admitted(2) [OF gates(5)] by blast
    show "\<exists>execution z series. timeframe_or_none an FIFTEEN_MINUTES = Some execution \<and> entry_zone execution (side (terms s)) = Some z
        \<and> series_for m SPOT FIFTEEN_MINUTES = Inr series
        \<and> entry_is_reachable p z (c_close (latest series)) (atr_14 (ta_indicators execution)) (side (terms s))
        \<and> (0 \<le> z_lower z \<and> z_lower z \<le> z_upper z \<longrightarrow> entry_low (terms s) \<le> z_lower z \<and> z_upper z \<le> entry_high (terms s))"
      using q(1-3,5) zone by blast
    show "\<exists>operational. timeframe_or_none an ONE_HOUR = Some operational
        \<and> (case side (terms s) of
             LONG \<Rightarrow> \<forall>z \<in> set (resistance_zones (ta_structure operational)).
               conservative_entry (terms s) < z_lower z \<longrightarrow> t_price (hd (targets (terms s))) \<le> z_lower z
           | SHORT \<Rightarrow> \<forall>z \<in> set (support_zones (ta_structure operational)).
               z_upper z < conservative_entry (terms s) \<longrightarrow> z_upper z \<le> t_price (hd (targets (terms s))))"
      using op no_obstruction [OF q(7) op] by blast
  qed (use an in \<open>simp; fail\<close> | use q in \<open>simp; fail\<close> | use t(3,5,6) in \<open>simp; fail\<close> | use dir future rr in \<open>simp; fail\<close>
    | use gates(4) in \<open>simp add: allows_new_signal_def\<close> | use fresh_admitted [OF gates(2)] fresh_admitted [OF gates(3)] in \<open>simp; fail\<close>
    | use history_admitted(1) [OF gates(5)] in \<open>simp; fail\<close>)+
qed

subsection \<open>The evaluation returns\<close>

lemma rejected_ok: "why \<noteq> [] \<Longrightarrow> \<exists>ev. rejected now an news why = Inr ev \<and> check_evaluation ev = Inr ev"
  by (simp add: rejected_def check_evaluation_def)

lemma identity_rejections_ok:
  "\<exists>why. identity_rejections sid = Inr why \<and> (why = [] \<longrightarrow> validate_signal_id sid = Inr sid)"
  by (auto simp: identity_rejections_def validate_signal_id_def split: option.splits prod.splits)

lemma timeframe_present:
  assumes "map ta_interval (timeframes an) = analysis_intervals" "iv \<in> set analysis_intervals"
  shows "\<exists>t. timeframe_or_none an iv = Some t \<and> t \<in> set (timeframes an)" "\<exists>b. bias_at an iv = Inr b"
proof -
  have "iv \<in> ta_interval ` set (timeframes an)" using arg_cong [OF assms(1), of set] assms(2) by simp
  then obtain t where t: "t \<in> set (timeframes an)" "ta_interval t = iv" by auto
  then show "\<exists>t. timeframe_or_none an iv = Some t \<and> t \<in> set (timeframes an)"
    by (cases "timeframe_or_none an iv") (auto simp: timeframe_or_none_def find_None_iff dest: find_SomeD)
  show "\<exists>b. bias_at an iv = Inr b"
    using t by (auto simp: bias_at_def find_None_iff split: option.split)
qed

lemma biases_present:
  assumes "map ta_interval (timeframes an) = analysis_intervals"
  shows "\<exists>bs. biases_of an = Inr bs"
proof -
  have "\<exists>b. bias_at an iv = Inr b" if "iv \<in> {ONE_MONTH, ONE_WEEK, ONE_DAY, FOUR_HOURS, ONE_HOUR, FIFTEEN_MINUTES}" for iv
    using timeframe_present(2) [OF assms] that by (auto simp: analysis_intervals_def)
  then obtain mo we da fo ho fi where "bias_at an ONE_MONTH = Inr mo" "bias_at an ONE_WEEK = Inr we" "bias_at an ONE_DAY = Inr da"
    "bias_at an FOUR_HOURS = Inr fo" "bias_at an ONE_HOUR = Inr ho" "bias_at an FIFTEEN_MINUTES = Inr fi" by (meson insertCI)
  then show ?thesis by (simp add: biases_of_def)
qed

lemma bind_error:
  assumes "bind_result r f = Inl e" "\<And>e'. r = Inl e' \<Longrightarrow> P e'" "\<And>x e'. f x = Inl e' \<Longrightarrow> P e'"
  shows "P e"
  using assms by (auto simp: bind_result_eq_Inl)

lemma build_terms_error:
  assumes "build_terms show_dec p sd z atr data_at now reduced = Inl e"
  shows "e = DecimalInvalidOperation \<or> (\<exists>m. e = DomainValidationError m)"
proof -
  have q: "quantize r n x = Inl e' \<Longrightarrow> e' = DecimalInvalidOperation" for r n x e'
    by (auto simp: quantize_def Let_def split: if_splits)
  have s: "stop_price p sd z atr = Inl e' \<Longrightarrow> e' = DecimalInvalidOperation" for e'
    by (cases sd) (auto simp: stop_price_def dest: q)
  have t: "build_target sd entry cost total_risk k r = Inl e' \<Longrightarrow> e' = DecimalInvalidOperation \<or> (\<exists>m. e' = DomainValidationError m)"
    for entry cost total_risk k r e'
    by (cases sd) (auto simp: build_target_def target_price_def check_target_def bind_result_eq_Inl Let_def split: if_splits dest: q)
  have c: "check_signal_terms u = Inl e' \<Longrightarrow> \<exists>m. e' = DomainValidationError m" for u e'
    by (auto simp: check_signal_terms_def check_side_geometry_def bind_result_eq_Inl Let_def split: if_splits side.splits)
  note step = bind_error [where P = "\<lambda>e. e = DecimalInvalidOperation \<or> (\<exists>m. e = DomainValidationError m)"]
  show ?thesis using assms unfolding build_terms_def Let_def by (elim step) (simp_all add: q s t c)
qed

lemma combined_issues:
  assumes "combine_analyses ts h s e d v = Inr r"
  shows "ar_issues r = (if eg_available d then [] else [''optional derivatives confirmation unavailable''])"
proof -
  have inr: "check_analysis_result x = Inr y \<Longrightarrow> y = x" for x y by (auto simp: check_analysis_result_def split: if_splits)
  show ?thesis using assms unfolding combine_analyses_def Let_def bind_result_eq_Inr by (elim exE conjE) (drule inr, simp)
qed

lemma analyze_accepted:
  assumes "snapshot_ok m" "analyze show_dec m = Inr an" "ar_status an \<noteq> AN_REJECTED"
  shows "\<exists>ts. analyze_timeframes show_dec m = Inr ts" "\<forall>x \<in> set (ar_issues an). \<not> blank x"
proof -
  show "\<exists>ts. analyze_timeframes show_dec m = Inr ts"
    using assms(2,3) by (auto simp: analyze_def check_analysis_result_def rejected_analysis_def split: sum.splits option.splits if_splits)
  then obtain ts where ts: "analyze_timeframes show_dec m = Inr ts" by blast
  then have "judge_timeframes show_dec m ts = Inr an" using assms(2) by (simp add: analyze_def)
  then obtain h s e d v where "combine_analyses ts h s e d v = Inr an"
    unfolding judge_timeframes_def bind_result_eq_Inr by blast
  from combined_issues [OF this] have "ar_issues an = [] \<or> ar_issues an = [''optional derivatives confirmation unavailable'']"
    by (simp split: if_splits)
  then show "\<forall>x \<in> set (ar_issues an). \<not> blank x" by (auto simp: blank_def is_space_def)
qed

lemma signal_series:
  assumes "analyze_timeframes show_dec m = Inr ts"
  shows "\<exists>s. series_for m SPOT FIFTEEN_MINUTES = Inr s"
proof -
  have "analyze_timeframe show_dec m FIFTEEN_MINUTES = Inr (ts ! 5)"
    using map_result_Inr_nth [OF assms [unfolded analyze_timeframes_def], of 5] by (simp add: analysis_intervals_def)
  then show ?thesis by (auto simp: analyze_timeframe_def bind_result_eq_Inr)
qed

lemma texts_not_blank:
  "list_all (\<lambda>x. \<not> blank x) (setup_reasons an sd)"
  "\<not> blank ''Optional market context is degraded; suggested risk is reduced.''"
  "\<not> blank ''News coverage or context is degraded; suggested risk is reduced.''"
  "\<not> blank ''rules-v0.6.0''"
  by (simp_all add: setup_reasons_def blank_def is_space_def)



subsection \<open>A signal that is created\<close>

definition sample_analysis :: analysis_result where
  "sample_analysis =
     \<lparr>ar_status = AN_ACCEPTED, directional_bias = BULLISH, ar_regime = BULLISH_TREND, setup_quality_score = 90,
      score_is_probability = False, timeframes = sample_timeframes, evidence_groups = [], no_trade_reasons = [], ar_issues = []\<rparr>"

definition quarter_snapshot :: market_snapshot where
  "quarter_snapshot = sample_snapshot
     \<lparr>captured_at := 0, spot_series := [[(minute_candle 1 100 101 99 100)\<lparr>c_interval := FIFTEEN_MINUTES\<rparr>]]\<rparr>"

definition clear_news :: risk_assessment where
  "clear_news = \<lparr>ra_evaluated_at = 0, ra_decision = CLEAR, ra_block_until = None, ra_events = [], ra_scheduled = [], ra_reasons = [],
     ra_issues = [], news_can_create_signal = False\<rparr>"

definition admitted_terms :: signal_terms where
  "admitted_terms =
     \<lparr>side = LONG, entry_low = 98, entry_high = 99, original_stop = 195 / 2,
      targets = [\<lparr>t_ordinal = 1, t_price = 5143 / 50\<rparr>, \<lparr>t_ordinal = 2, t_price = 10451 / 100\<rparr>],
      created_at = 0, data_timestamp = 0, expires_at = 4 * usec_hour,
      invalidation_condition = ''A completed 15m candle closes below the structure stop at x.'',
      expiration_condition = ''The entry zone is not touched within four hours.'',
      recommended_risk_percent = 1 / 2, estimated_round_trip_cost_rate = 3 / 2000, minimum_planned_rr = 2, symbol = ''BTCUSDT''\<rparr>"

lemma admitted_terms_ok: "check_signal_terms admitted_terms = Inr admitted_terms"
proof -
  have g: "check_side_geometry admitted_terms = Inr admitted_terms" by (simp add: check_side_geometry_Inr admitted_terms_def)
  have r: "2 \<le> planned_r_for admitted_terms (hd (targets admitted_terms))"
  proof -
    have "rnd28 2 = (2 :: rat)" by (simp add: dec_eval)
    then have "2 \<le> rnd28 (7423 / 3297)" by (rule dec.lower) simp
    then show ?thesis
      by (simp add: planned_r_for_def admitted_terms_def conservative_entry_def gross_move_def gross_risk_def dec_eval_ops)
  qed
  have b: "\<not> blank (invalidation_condition admitted_terms)" "\<not> blank (expiration_condition admitted_terms)"
    by (simp_all add: admitted_terms_def blank_def is_space_def)
  show ?thesis
    unfolding check_signal_terms_def g using r b by (simp add: admitted_terms_def usec_defs upt_rec)
qed

lemma built_terms:
  "build_terms (\<lambda>_. ''x'') default_signal_policy LONG \<lparr>z_lower = 98, z_upper = 99, z_touches = 2\<rparr> 1 0 0 False = Inr admitted_terms"
proof -
  have f: "\<lfloor>(9800 :: rat)\<rfloor> = 9800" "\<lceil>(9900 :: rat)\<rceil> = 9900" "\<lfloor>(9750 :: rat)\<rfloor> = 9750" by simp_all
  have c: "\<lceil>20571525 / (2000 :: rat)\<rceil> = 10286" "\<lceil>83604900 / (8000 :: rat)\<rceil> = 10451"
    by (simp_all add: ceiling_unique)
  have q: "quantize Round_Down 2 98 = Inr 98" "quantize Round_Up 2 99 = Inr 99" "quantize Round_Down 2 (195 / 2) = Inr (195 / 2)"
    by (simp_all add: quantize_def round_with_def f)
  have t1: "quantize Round_Up 2 (822861 / 8000) = Inr (5143 / 50)"
    by (simp add: quantize_def round_with_def ceiling_unique [of 10286])
  have t2: "quantize Round_Up 2 (836049 / 8000) = Inr (10451 / 100)"
    by (simp add: quantize_def round_with_def ceiling_unique [of 10451])
  have "build_terms (\<lambda>_. ''x'') default_signal_policy LONG \<lparr>z_lower = 98, z_upper = 99, z_touches = 2\<rparr> 1 0 0 False
      = check_signal_terms admitted_terms"
    by (simp add: build_terms_def default_signal_policy_def stop_price_def build_target_def target_price_def gross_risk_def
        check_target_def dec_eval_ops q t1 t2 admitted_terms_def)
  then show ?thesis using admitted_terms_ok by simp
qed

lemma sample_admitted:
  assumes "validate_signal_id sid = Inr sid"
  shows "\<exists>ev s. admit_signal (\<lambda>_. ''x'') default_signal_policy sid quarter_snapshot clear_news 0
      \<lparr>last_signal_at = None, active_managed_signal = False\<rparr> sample_analysis = Inr ev \<and> ev_signal ev = Some s \<and> terms s = admitted_terms"
proof -
  have tf: "timeframe_or_none sample_analysis FIFTEEN_MINUTES = Some (sample_timeframe FIFTEEN_MINUTES)"
    "timeframe_or_none sample_analysis ONE_HOUR = Some (sample_timeframe ONE_HOUR)"
    by (simp_all add: timeframe_or_none_def sample_analysis_def sample_timeframes_def analysis_intervals_def sample_timeframe_def)
  have iv: "map ta_interval (timeframes sample_analysis) = analysis_intervals"
    by (simp add: sample_analysis_def sample_timeframes_def analysis_intervals_def sample_timeframe_def)
  have gates: "admission_rejections default_signal_policy sample_analysis quarter_snapshot clear_news 0
      \<lparr>last_signal_at = None, active_managed_signal = False\<rparr> = []"
    using iv by (simp add: admission_rejections_def analysis_rejections_def freshness_rejections_def history_rejections_def
        aligned_at_def tf reliable_def expected_regime_def default_signal_policy_def quarter_snapshot_def clear_news_def usec_defs)
      (simp add: sample_analysis_def sample_timeframe_def)
  have series: "series_for quarter_snapshot SPOT FIFTEEN_MINUTES = Inr [(minute_candle 1 100 101 99 100)\<lparr>c_interval := FIFTEEN_MINUTES\<rparr>]"
    by (simp add: series_for_def quarter_snapshot_def sample_snapshot_def series_venue_def series_interval_def)
  have zone: "entry_zone (sample_timeframe FIFTEEN_MINUTES) LONG = Some \<lparr>z_lower = 98, z_upper = 99, z_touches = 2\<rparr>"
    by (simp add: entry_zone_def sample_timeframe_def)
  have reach: "entry_is_reachable default_signal_policy \<lparr>z_lower = 98, z_upper = 99, z_touches = 2\<rparr> 100 1 LONG"
    by (simp add: entry_is_reachable_def default_signal_policy_def dec_eval_ops)
  have obs: "target_obstruction sample_analysis admitted_terms = Inr None"
    by (simp add: target_obstruction_def timeframe_at_def tf sample_timeframe_def admitted_terms_def Let_def)
  obtain bs where bs: "biases_of sample_analysis = Inr bs" using biases_present [OF iv] by blast
  have risks: "risk_descriptions sample_analysis clear_news = []" by (simp add: risk_descriptions_def sample_analysis_def clear_news_def)
  have sa: "directional_bias sample_analysis = BULLISH" "ar_status sample_analysis = AN_ACCEPTED" "setup_quality_score sample_analysis = 90"
    by (simp_all add: sample_analysis_def)
  have rs: "setup_reasons sample_analysis LONG \<noteq> []" "\<not> list_ex blank (setup_reasons sample_analysis LONG)"
    using texts_not_blank(1) [of sample_analysis LONG] by (auto simp: list_ex_iff list_all_iff setup_reasons_def)
  have "atr_14 (ta_indicators (sample_timeframe FIFTEEN_MINUTES)) = 1" by (simp add: sample_timeframe_def sample_indicators_def)
  moreover have "captured_at quarter_snapshot = 0" "ra_decision clear_news = CLEAR" by (simp_all add: quarter_snapshot_def clear_news_def)
  ultimately show ?thesis
    using assms gates reach rs
    by (simp add: admit_signal_def identity_rejections_def propose_def timeframe_at_def tf zone series latest_def sa built_terms obs bs
        risks check_signal_def texts_not_blank(4) check_evaluation_def)
qed

theorem created_signal_safe_witness:
  "\<exists>sid ev s. admit_signal (\<lambda>_. ''x'') default_signal_policy sid quarter_snapshot clear_news 0
      \<lparr>last_signal_at = None, active_managed_signal = False\<rparr> sample_analysis = Inr ev \<and> ev_signal ev = Some s
      \<and> check_signal s = Inr s \<and> regime s = BULLISH_TREND"
proof -
  obtain sid where "validate_signal_id sid = Inr sid"
    by (rule format_signal_id_valid [of 2024 2 29 1]) (simp_all add: valid_date_def days_in_month_table leap_def)
  from sample_admitted [OF this] obtain ev s where e: "admit_signal (\<lambda>_. ''x'') default_signal_policy sid quarter_snapshot clear_news 0
      \<lparr>last_signal_at = None, active_managed_signal = False\<rparr> sample_analysis = Inr ev" "ev_signal ev = Some s" "terms s = admitted_terms"
    by blast
  have "side (terms s) = LONG" using e(3) by (simp add: admitted_terms_def)
  then show ?thesis using e(1,2) created_signal_safe [OF e(1,2)] by auto
qed

end
