(* ===== verification/Boundary.thy ===== *)
theory Boundary
  imports MarketData PyText
begin

section \<open>At the boundary: JSON values, exceptions that are caught, programs that catch\<close>

text \<open>
  What the adapters, collectors and the orchestrator share: a parsed JSON value, the class name
  and text of an exception (\<^verbatim>\<open>market_data/errors.py\<close>, \<^verbatim>\<open>news/errors.py\<close>), and the \<^verbatim>\<open>try\<close>
  statement over a program with state.
\<close>

subsection \<open>Exceptions\<close>

text \<open>\<^verbatim>\<open>type(exc).__name__\<close>.\<close>

fun exn_class :: "exn \<Rightarrow> string" where
  "exn_class (DomainValidationError m) = ''DomainValidationError''"
| "exn_class (MarketDataValidationError m) = ''MarketDataValidationError''"
| "exn_class (NewsValidationError m) = ''NewsValidationError''"
| "exn_class (InvalidTransitionError m) = ''InvalidTransitionError''"
| "exn_class (RecordNotFoundError m) = ''RecordNotFoundError''"
| "exn_class (DuplicateRecordError m) = ''DuplicateRecordError''"
| "exn_class (ConcurrencyError m) = ''ConcurrencyError''"
| "exn_class (SecurityError m) = ''SecurityError''"
| "exn_class (ConfigurationError m) = ''ConfigurationError''"
| "exn_class (ValueError m) = ''ValueError''"
| "exn_class (KeyError m) = ''KeyError''"
| "exn_class (IntegrityError m) = ''IntegrityError''"
| "exn_class (TypeError m) = ''TypeError''"
| "exn_class (HistoricalDataError m) = ''HistoricalDataError''"
| "exn_class (StateApiError m) = ''StateApiError''"
| "exn_class (NewsTransportError m) = ''NewsTransportError''"
| "exn_class (MarketDataTransportError m) = ''MarketDataTransportError''"
| "exn_class (MarketDataHttpError n) = ''MarketDataHttpError''"
| "exn_class (MarketDataRateLimitError n) = ''MarketDataRateLimitError''"
| "exn_class (MarketDataResponseTooLargeError m) = ''MarketDataResponseTooLargeError''"
| "exn_class StopIteration = ''StopIteration''"
| "exn_class DecimalDivisionByZero = ''DivisionByZero''"
| "exn_class DecimalInvalidOperation = ''InvalidOperation''"

text \<open>\<^verbatim>\<open>str(exc)\<close> of a \<^verbatim>\<open>MarketDataError\<close>; no value for any other exception.\<close>

fun market_error_text :: "exn \<Rightarrow> string option" where
  "market_error_text (MarketDataValidationError m) = Some m"
| "market_error_text (MarketDataTransportError m) = Some m"
| "market_error_text (MarketDataHttpError n) = Some (''Public market-data endpoint returned HTTP '' @ int_text n)"
| "market_error_text (MarketDataRateLimitError n) = Some ''Public market-data rate limit reached''"
| "market_error_text (MarketDataResponseTooLargeError m) = Some m"
| "market_error_text _ = None"

text \<open>\<^verbatim>\<open>str(exc)\<close> of a \<^verbatim>\<open>NewsError\<close>; no value for any other exception.\<close>

fun news_error_text :: "exn \<Rightarrow> string option" where
  "news_error_text (NewsValidationError m) = Some m"
| "news_error_text (NewsTransportError m) = Some m"
| "news_error_text _ = None"

subsection \<open>Programs that catch\<close>

definition lift_p :: "'a result \<Rightarrow> ('s, 'a) program" where
  "lift_p r = query_p (\<lambda>_. r)"

text \<open>
  \<^verbatim>\<open>try: m except E as exc\<close>: the caught exception or the value of the block, in the state the
  block left; an exception that \<open>caught\<close> does not know is raised again.
\<close>

definition try_p :: "(exn \<Rightarrow> 'e option) \<Rightarrow> ('s, 'a) program \<Rightarrow> ('s, exn + 'a) program" where
  "try_p caught m = (\<lambda>s. case m s of
       (Inl e, t) \<Rightarrow> (if caught e = None then (Inl e, t) else (Inr (Inl e), t))
     | (Inr x, t) \<Rightarrow> (Inr (Inr x), t))"

lemma lift_p_apply [simp, result_simps]: "lift_p r s = (r, s)"
  by (simp add: lift_p_def)

lemma bind_p_lift [simp, result_simps]:
  "bind_p (lift_p r) f s = (case r of Inl e \<Rightarrow> (Inl e, s) | Inr x \<Rightarrow> f x s)"
  by (simp add: lift_p_def)

lemma bind_p_cases:
  assumes "bind_p m f s = (r, u)"
  obtains e where "m s = (Inl e, u)" "r = Inl e" | x t where "m s = (Inr x, t)" "f x t = (r, u)"
  using assms by (auto simp: bind_p_def split: prod.splits sum.splits)

lemma try_p_cases:
  assumes "try_p caught m s = (r, u)"
  obtains e where "m s = (Inl e, u)" "caught e = None" "r = Inl e"
  | e where "m s = (Inl e, u)" "caught e \<noteq> None" "r = Inr (Inl e)"
  | x where "m s = (Inr x, u)" "r = Inr (Inr x)"
  using assms by (auto simp: try_p_def split: prod.splits sum.splits if_splits)

text \<open>A property of every outcome of a program, and the rule for the sequential composition.\<close>

definition outcomes_p :: "('s, 'a) program \<Rightarrow> (exn \<Rightarrow> bool) \<Rightarrow> ('a \<Rightarrow> bool) \<Rightarrow> bool" where
  "outcomes_p m bad good \<longleftrightarrow> (\<forall>s. case fst (m s) of Inl e \<Rightarrow> bad e | Inr x \<Rightarrow> good x)"

lemma outcomes_pD:
  "outcomes_p m bad good \<Longrightarrow> m s = (Inl e, t) \<Longrightarrow> bad e"
  "outcomes_p m bad good \<Longrightarrow> m s = (Inr x, t) \<Longrightarrow> good x"
  by (auto simp: outcomes_p_def split: sum.splits dest: spec [of _ s])

lemma outcomes_p_bind:
  assumes "outcomes_p m bad mid" "\<And>x. mid x \<Longrightarrow> outcomes_p (f x) bad good"
  shows "outcomes_p (bind_p m f) bad good"
  unfolding outcomes_p_def
proof
  fix s
  show "case fst (bind_p m f s) of Inl e \<Rightarrow> bad e | Inr x \<Rightarrow> good x"
  proof (cases "m s")
    case (Pair r t)
    then show ?thesis
    proof (cases r)
      case (Inl e)
      then show ?thesis using Pair outcomes_pD(1) [OF assms(1)] by (simp add: bind_p_def)
    next
      case (Inr x)
      then show ?thesis
        using Pair assms(2) [OF outcomes_pD(2) [OF assms(1)]] by (auto simp: bind_p_def outcomes_p_def)
    qed
  qed
qed

lemma outcomes_p_mono:
  "outcomes_p m bad good \<Longrightarrow> (\<And>e. bad e \<Longrightarrow> bad' e) \<Longrightarrow> (\<And>x. good x \<Longrightarrow> good' x) \<Longrightarrow> outcomes_p m bad' good'"
  by (auto simp: outcomes_p_def split: sum.splits)

lemma outcomes_p_lift: "outcomes_p (lift_p r) bad good \<longleftrightarrow> (case r of Inl e \<Rightarrow> bad e | Inr x \<Rightarrow> good x)"
  by (simp add: outcomes_p_def)

lemma outcomes_p_return: "outcomes_p (return_p x) bad good \<longleftrightarrow> good x"
  by (simp add: outcomes_p_def)

lemma outcomes_p_try:
  assumes "outcomes_p m bad good"
  shows "outcomes_p (try_p caught m) (\<lambda>e. bad e \<and> caught e = None)
    (\<lambda>r. case r of Inl e \<Rightarrow> bad e \<and> caught e \<noteq> None | Inr x \<Rightarrow> good x)"
  unfolding outcomes_p_def
proof
  fix s
  show "case fst (try_p caught m s) of Inl e \<Rightarrow> bad e \<and> caught e = None
    | Inr r \<Rightarrow> (case r of Inl e \<Rightarrow> bad e \<and> caught e \<noteq> None | Inr x \<Rightarrow> good x)"
    using outcomes_pD [OF assms, of s] by (cases "m s"; cases "fst (m s)") (auto simp: try_p_def)
qed

subsection \<open>JSON\<close>

text \<open>
  A value of \<^verbatim>\<open>json.loads\<close>.  The keys of an object are distinct (it is a \<^verbatim>\<open>dict\<close>); a float carries its
  text, since no code here computes with it.
\<close>

datatype json = J_null | J_bool bool | J_int int | J_float string | J_text string
  | J_list "json list" | J_object "(string \<times> json) list"

text \<open>\<^verbatim>\<open>payload.get(name)\<close>.\<close>

definition json_get :: "(string \<times> json) list \<Rightarrow> string \<Rightarrow> json" where
  "json_get obj name = (case map_of obj name of None \<Rightarrow> J_null | Some v \<Rightarrow> v)"

end
