(* ===== verification/Transport.thy ===== *)
theory Transport
  imports Boundary Statistics
begin

section \<open>The public HTTP transport\<close>

text \<open>
  \<^verbatim>\<open>market_data/transport.py\<close>: the GET adapter, the retry policy, and the transport with its
  allowlist, its retries and its cache.  The network, the clock, the sleep, the jitter, the text
  of a query, \<^verbatim>\<open>float\<close> and \<^verbatim>\<open>json.loads\<close> are fields of an \<open>environment\<close>, an argument of the
  definitions; opening a URL gives a response or one of the failures the adapter catches.
  Seconds are rationals (the binary rounding of a delay is not modelled), and of a rate-limit
  exception the attribute \<^verbatim>\<open>retry_after_seconds\<close> is left out, which no other code reads.

  The lemmas bound the number of requests and show which exceptions can escape.
\<close>

subsection \<open>The adapter\<close>

type_synonym headers = "(string \<times> string) list"

record raw_response =
  status_code :: int
  rr_headers :: headers
  body :: string

text \<open>\<^verbatim>\<open>Opened\<close>: a response or an \<^verbatim>\<open>HTTPError\<close>; \<^verbatim>\<open>Unreachable\<close>: \<^verbatim>\<open>TimeoutError\<close>, \<^verbatim>\<open>URLError\<close>, \<^verbatim>\<open>OSError\<close>.\<close>

datatype http_outcome = Opened raw_response | Unreachable

datatype py_float = Float rat | Infinity_float | Not_a_number

datatype query_value = Q_text string | Q_int int

record 'w environment =
  open_url :: "string \<Rightarrow> rat \<Rightarrow> 'w \<Rightarrow> http_outcome \<times> 'w"
  sleep :: "rat \<Rightarrow> 'w \<Rightarrow> 'w"
  monotonic_clock :: "'w \<Rightarrow> rat \<times> 'w"
  jitter_source :: "'w \<Rightarrow> rat \<times> 'w"
  url_encode :: "(string \<times> query_value) list \<Rightarrow> string"
  float_of_text :: "string \<Rightarrow> py_float option"
  decode_json :: "string \<Rightarrow> json option"

text \<open>\<^verbatim>\<open>read(maximum + 1)\<close> cuts the body off.\<close>

definition adapter_get :: "'w environment \<Rightarrow> int \<Rightarrow> string \<Rightarrow> rat \<Rightarrow> ('w, raw_response) program" where
  "adapter_get env maximum url timeout = (\<lambda>w.
     case open_url env url timeout w of
       (Unreachable, w') \<Rightarrow> (Inl (MarketDataTransportError ''Public market-data request failed''), w')
     | (Opened r, w') \<Rightarrow> (Inr (r\<lparr>body := take (nat (maximum + 1)) (body r)\<rparr>), w'))"

subsection \<open>The retry policy\<close>

record retry_policy =
  maximum_attempts :: int
  base_delay :: rat
  maximum_delay :: rat
  maximum_retry_after :: rat

definition default_retry_policy :: retry_policy where
  "default_retry_policy = \<lparr>maximum_attempts = 3, base_delay = 1 / 4, maximum_delay = 5, maximum_retry_after = 30\<rparr>"

definition check_retry_policy :: "retry_policy \<Rightarrow> retry_policy result" where
  "check_retry_policy p =
     (if \<not> (1 \<le> maximum_attempts p \<and> maximum_attempts p \<le> 6)
      then Inl (ValueError ''maximum_attempts must be between 1 and 6'')
      else if base_delay p < 0 \<or> maximum_delay p < 0 then Inl (ValueError ''Retry delays cannot be negative'')
      else if maximum_retry_after p < 0 then Inl (ValueError ''maximum_retry_after_seconds cannot be negative'')
      else Inr p)"

record transport_settings =
  retry :: retry_policy
  timeout_seconds :: rat
  maximum_response_bytes :: int
  cache_ttl :: rat

definition default_settings :: transport_settings where
  "default_settings = \<lparr>retry = default_retry_policy, timeout_seconds = 5, maximum_response_bytes = 5000000, cache_ttl = 1\<rparr>"

definition check_settings :: "transport_settings \<Rightarrow> transport_settings result" where
  "check_settings c =
     (if \<not> (0 < timeout_seconds c \<and> timeout_seconds c \<le> 30) then Inl (ValueError ''timeout_seconds must be between 0 and 30'')
      else if maximum_response_bytes c < 1 then Inl (ValueError ''maximum_response_bytes must be positive'')
      else if cache_ttl c < 0 then Inl (ValueError ''cache_ttl_seconds cannot be negative'')
      else Inr c)"

definition backoff_delay :: "'w environment \<Rightarrow> retry_policy \<Rightarrow> nat \<Rightarrow> 'w \<Rightarrow> rat \<times> 'w" where
  "backoff_delay env p attempt w =
     (let (j, w') = jitter_source env w;
          jitter = (if 0 \<le> j \<and> j \<le> 1 then j else 1 / 2);
          multiplier = 3 / 4 + 1 / 2 * jitter
      in (min (base_delay p * 2 ^ (attempt - 1) * multiplier) (maximum_delay p), w'))"

definition lower_text :: "string \<Rightarrow> string" where
  "lower_text s = map (\<lambda>c. let n = (of_char c :: nat) in if 65 \<le> n \<and> n \<le> 90 then char_of (n + 32) else c) s"

text \<open>A wait the server asks for: none, a number of seconds, or an infinite one.\<close>

datatype wait = No_wait | Wait rat | Wait_forever

definition retry_after :: "'w environment \<Rightarrow> headers \<Rightarrow> wait" where
  "retry_after env hs =
     (case List.find (\<lambda>(k, v). lower_text k = ''retry-after'') hs of
        None \<Rightarrow> No_wait
      | Some (k, raw) \<Rightarrow>
          (case float_of_text env raw of
             None \<Rightarrow> No_wait
           | Some (Float x) \<Rightarrow> if 0 \<le> x then Wait x else No_wait
           | Some Infinity_float \<Rightarrow> Wait_forever
           | Some Not_a_number \<Rightarrow> No_wait))"

subsection \<open>One request with its retries\<close>

definition decode_body :: "'w environment \<Rightarrow> string \<Rightarrow> json result" where
  "decode_body env b =
     (case decode_json env b of
        None \<Rightarrow> Inl (MarketDataValidationError ''Public market-data response was not valid JSON'')
      | Some v \<Rightarrow> Inr v)"

text \<open>What one attempt decides: a final answer, or to wait and try again unless it was the last.\<close>

datatype 'w verdict = Finished "json result" | Try_again exn "'w \<Rightarrow> 'w"

definition back_off :: "'w environment \<Rightarrow> retry_policy \<Rightarrow> nat \<Rightarrow> 'w \<Rightarrow> 'w" where
  "back_off env p attempt w = (case backoff_delay env p attempt w of (d, w') \<Rightarrow> sleep env d w')"

definition judge_response :: "'w environment \<Rightarrow> transport_settings \<Rightarrow> nat \<Rightarrow> raw_response \<Rightarrow> 'w verdict" where
  "judge_response env c attempt r =
     (if maximum_response_bytes c < int (length (body r))
      then Finished (Inl (MarketDataResponseTooLargeError ''Public market-data response was too large''))
      else if status_code r = 200 then Finished (decode_body env (body r))
      else if status_code r = 418 then Finished (Inl (MarketDataRateLimitError 418))
      else if status_code r = 429 then
        (case retry_after env (rr_headers r) of
           No_wait \<Rightarrow> Try_again (MarketDataRateLimitError 429) (back_off env (retry c) attempt)
         | Wait d \<Rightarrow> if maximum_retry_after (retry c) < d then Finished (Inl (MarketDataRateLimitError 429))
                     else Try_again (MarketDataRateLimitError 429) (sleep env d)
         | Wait_forever \<Rightarrow> Finished (Inl (MarketDataRateLimitError 429)))
      else if status_code r \<in> {408, 500, 502, 503, 504}
      then Try_again (MarketDataTransportError ''Public market-data endpoint is unavailable'') (back_off env (retry c) attempt)
      else Finished (Inl (MarketDataHttpError (status_code r))))"

definition judge_attempt :: "'w environment \<Rightarrow> transport_settings \<Rightarrow> nat \<Rightarrow> exn + raw_response \<Rightarrow> 'w verdict" where
  "judge_attempt env c attempt outcome =
     (case outcome of
        Inl e \<Rightarrow> Try_again e (back_off env (retry c) attempt)
      | Inr r \<Rightarrow> judge_response env c attempt r)"

text \<open>\<open>request_from env c url attempt n\<close>: the loop at attempt number \<open>attempt\<close> with \<open>n\<close> attempts after it.\<close>

fun request_from :: "'w environment \<Rightarrow> transport_settings \<Rightarrow> string \<Rightarrow> nat \<Rightarrow> nat \<Rightarrow> ('w, json) program" where
  "request_from env c url attempt remaining w =
     (case adapter_get env (maximum_response_bytes c) url (timeout_seconds c) w of
        (outcome, w1) \<Rightarrow>
          (case judge_attempt env c attempt outcome of
             Finished r \<Rightarrow> (r, w1)
           | Try_again e pause \<Rightarrow>
               (case remaining of
                  0 \<Rightarrow> (Inl e, w1)
                | Suc n \<Rightarrow> request_from env c url (Suc attempt) n (pause w1))))"

definition request_with_retries :: "'w environment \<Rightarrow> transport_settings \<Rightarrow> string \<Rightarrow> ('w, json) program" where
  "request_with_retries env c url = request_from env c url 1 (nat (maximum_attempts (retry c)) - 1)"

subsection \<open>The transport\<close>

definition spot_origin :: string where "spot_origin = ''https://api.binance.com''"
definition futures_origin :: string where "futures_origin = ''https://fapi.binance.com''"

definition word_letter :: "char \<Rightarrow> bool" where
  "word_letter c \<longleftrightarrow> (let n = (of_char c :: nat) in 48 \<le> n \<and> n \<le> 57 \<or> 65 \<le> n \<and> n \<le> 90 \<or> 97 \<le> n \<and> n \<le> 122)"

definition parameter_name :: "string \<Rightarrow> bool" where
  "parameter_name key \<longleftrightarrow> (let rest = filter (\<lambda>c. c \<noteq> CHR ''_'') key in rest \<noteq> [] \<and> list_all word_letter rest)"

text \<open>The keys are distinct, so \<^verbatim>\<open>sorted\<close> compares keys only.\<close>

definition normalize_params :: "(string \<times> query_value) list \<Rightarrow> (string \<times> query_value) list result" where
  "normalize_params ps =
     (if list_ex (\<lambda>p. \<not> parameter_name (fst p)) ps
      then Inl (MarketDataValidationError ''Invalid public endpoint query parameter name'')
      else Inr (sort_key fst ps))"

fun contains_text :: "string \<Rightarrow> string \<Rightarrow> bool" where
  "contains_text pat [] \<longleftrightarrow> pat = []"
| "contains_text pat (c # cs) \<longleftrightarrow> take (length pat) (c # cs) = pat \<or> contains_text pat cs"

text \<open>
  The checks of \<^verbatim>\<open>urlsplit(origin)\<close> after the allowlist are left out: both origins are a scheme
  \<^verbatim>\<open>https\<close> and a host.
\<close>

definition build_url :: "'w environment \<Rightarrow> string \<Rightarrow> string \<Rightarrow> (string \<times> query_value) list \<Rightarrow> string result" where
  "build_url env origin path ps =
     (let query = url_encode env ps;
          url = origin @ path @ (if query = [] then [] else ''?'' @ query)
      in if origin \<notin> {spot_origin, futures_origin}
         then Inl (MarketDataValidationError ''Public endpoint origin is not allowlisted'')
         else if take 1 path \<noteq> ''/'' \<or> contains_text ''//'' path \<or> contains_text ''..'' path
            \<or> contains_text ''?'' path \<or> contains_text ''#'' path
         then Inl (MarketDataValidationError ''Public endpoint path is invalid'')
         else if 2048 < length url then Inl (MarketDataValidationError ''Public endpoint URL is too long'')
         else Inr url)"

type_synonym cache_key = "string \<times> string \<times> (string \<times> query_value) list"
type_synonym 'w transport_state = "(cache_key \<rightharpoonup> rat \<times> json) \<times> 'w"

definition fetch_json ::
  "'w environment \<Rightarrow> transport_settings \<Rightarrow> string \<Rightarrow> string \<Rightarrow> (string \<times> query_value) list \<Rightarrow> rat \<Rightarrow> ('w transport_state, json) program" where
  "fetch_json env c origin path ps now = (\<lambda>(cache, w).
     case build_url env origin path ps of
       Inl e \<Rightarrow> (Inl e, (cache, w))
     | Inr url \<Rightarrow>
         (case request_with_retries env c url w of
            (Inl e, w') \<Rightarrow> (Inl e, (cache, w'))
          | (Inr v, w') \<Rightarrow>
              (Inr v, (if 0 < cache_ttl c then cache((origin, path, ps) \<mapsto> (now + cache_ttl c, v)) else cache, w'))))"

definition get_json :: "'w environment \<Rightarrow> transport_settings \<Rightarrow> string \<Rightarrow> string \<Rightarrow> (string \<times> query_value) list \<Rightarrow> ('w transport_state, json) program" where
  "get_json env c origin path params = (\<lambda>(cache, w).
     case normalize_params params of
       Inl e \<Rightarrow> (Inl e, (cache, w))
     | Inr ps \<Rightarrow>
         (case monotonic_clock env w of
            (now, w1) \<Rightarrow>
              (case cache (origin, path, ps) of
                 Some (until, v) \<Rightarrow> if now \<le> until then (Inr v, (cache, w1)) else fetch_json env c origin path ps now (cache, w1)
               | None \<Rightarrow> fetch_json env c origin path ps now (cache, w1))))"

subsection \<open>What the transport promises\<close>

text \<open>An exception the collector can put into a report: a \<^verbatim>\<open>MarketDataError\<close> with a text.\<close>

definition presentable :: "exn \<Rightarrow> bool" where
  "presentable e \<longleftrightarrow> (case market_error_text e of None \<Rightarrow> False | Some t \<Rightarrow> \<not> blank t)"

lemma blank_append [simp]: "blank (xs @ ys) \<longleftrightarrow> blank xs \<and> blank ys"
  by (simp add: blank_def)

lemma presentable_validation [simp]: "presentable (MarketDataValidationError m) \<longleftrightarrow> \<not> blank m"
  by (simp add: presentable_def)

lemma judge_attempt_presentable:
  "(\<And>e. outcome = Inl e \<Longrightarrow> presentable e) \<Longrightarrow>
   case judge_attempt env c attempt outcome of
     Finished r \<Rightarrow> (case r of Inl e \<Rightarrow> presentable e | Inr _ \<Rightarrow> True) | Try_again e _ \<Rightarrow> presentable e"
  by (auto simp: judge_attempt_def judge_response_def decode_body_def presentable_def blank_def is_space_def
      split: sum.splits option.splits wait.splits)

lemma adapter_get_presentable: "adapter_get env m url t w = (Inl e, w') \<Longrightarrow> presentable e"
  by (auto simp: adapter_get_def presentable_def blank_def is_space_def split: prod.splits http_outcome.splits)

lemma request_from_presentable:
  "request_from env c url attempt n w = (Inl e, w') \<Longrightarrow> presentable e"
proof (induction n arbitrary: attempt w)
  case (0 attempt w)
  obtain outcome w1 where get: "adapter_get env (maximum_response_bytes c) url (timeout_seconds c) w = (outcome, w1)" by fastforce
  have "outcome = Inl e' \<Longrightarrow> presentable e'" for e' using adapter_get_presentable get by metis
  then show ?case using judge_attempt_presentable [of outcome env c attempt] 0 get
    by (auto split: verdict.splits sum.splits)
next
  case (Suc n attempt w)
  obtain outcome w1 where get: "adapter_get env (maximum_response_bytes c) url (timeout_seconds c) w = (outcome, w1)" by fastforce
  have "outcome = Inl e' \<Longrightarrow> presentable e'" for e' using adapter_get_presentable get by metis
  then show ?case using judge_attempt_presentable [of outcome env c attempt] Suc.prems get Suc.IH
    by (auto split: verdict.splits sum.splits)
qed

declare request_from.simps [simp del]

lemma build_url_presentable: "build_url env origin path ps = Inl e \<Longrightarrow> presentable e"
  by (auto simp: build_url_def Let_def blank_def is_space_def split: if_splits)

lemma fetch_json_presentable: "fetch_json env c origin path ps now s = (Inl e, t) \<Longrightarrow> presentable e"
  by (cases s) (auto simp: fetch_json_def request_with_retries_def
      dest: request_from_presentable build_url_presentable split: sum.splits prod.splits)

lemma get_json_presentable: "get_json env c origin path params s = (Inl e, t) \<Longrightarrow> presentable e"
  by (cases s) (auto simp: get_json_def normalize_params_def blank_def is_space_def
      dest: fetch_json_presentable split: sum.splits if_splits prod.splits option.splits)

text \<open>The interface the client is written against.\<close>

locale json_source =
  fixes fetch :: "string \<Rightarrow> string \<Rightarrow> (string \<times> query_value) list \<Rightarrow> ('s, json) program"
  assumes fetch_presentable: "outcomes_p (fetch origin path params) presentable (\<lambda>_. True)"

interpretation retrying: json_source "get_json env c" for env c
proof unfold_locales
  fix origin path params
  show "outcomes_p (get_json env c origin path params) presentable (\<lambda>_. True)"
    unfolding outcomes_p_def
  proof
    fix s
    show "case fst (get_json env c origin path params s) of Inl e \<Rightarrow> presentable e | Inr _ \<Rightarrow> True"
      using get_json_presentable [of env c origin path params s]
      by (cases "get_json env c origin path params s"; cases "fst (get_json env c origin path params s)") auto
  qed
qed

text \<open>Requests are counted by any measure that opening a URL raises by one and nothing else changes.\<close>

definition counts_requests :: "'w environment \<Rightarrow> ('w \<Rightarrow> nat) \<Rightarrow> bool" where
  "counts_requests env calls \<longleftrightarrow>
     (\<forall>url t w. calls (snd (open_url env url t w)) = Suc (calls w)) \<and> (\<forall>d w. calls (sleep env d w) = calls w)
   \<and> (\<forall>w. calls (snd (monotonic_clock env w)) = calls w) \<and> (\<forall>w. calls (snd (jitter_source env w)) = calls w)"

lemma adapter_get_calls:
  assumes "counts_requests env calls" "adapter_get env m url t w = (r, w')"
  shows "calls w' = Suc (calls w)"
proof -
  have "w' = snd (open_url env url t w)"
    using assms(2) by (auto simp: adapter_get_def split: prod.splits http_outcome.splits)
  then show ?thesis using assms(1) by (simp add: counts_requests_def)
qed

lemma pause_calls:
  "counts_requests env calls \<Longrightarrow> judge_attempt env c attempt outcome = Try_again e pause \<Longrightarrow> calls (pause w) = calls w"
proof -
  assume c: "counts_requests env calls"
  have b: "calls (back_off env p attempt w) = calls w" for p
    using c by (auto simp: back_off_def backoff_delay_def counts_requests_def Let_def split: prod.splits) (metis snd_conv)
  have "calls (sleep env d w) = calls w" for d using c by (simp add: counts_requests_def)
  then show "judge_attempt env c attempt outcome = Try_again e pause \<Longrightarrow> calls (pause w) = calls w"
    using b by (auto simp: judge_attempt_def judge_response_def split: sum.splits if_splits wait.splits)
qed

lemma request_from_calls:
  assumes "counts_requests env calls"
  shows "calls w < calls (snd (request_from env c url attempt n w))
    \<and> calls (snd (request_from env c url attempt n w)) \<le> calls w + Suc n"
proof (induction n arbitrary: attempt w)
  case (0 attempt w)
  obtain outcome w1 where get: "adapter_get env (maximum_response_bytes c) url (timeout_seconds c) w = (outcome, w1)" by fastforce
  then show ?case using adapter_get_calls [OF assms get] by (simp add: request_from.simps split: verdict.splits)
next
  case (Suc n attempt w)
  obtain outcome w1 where get: "adapter_get env (maximum_response_bytes c) url (timeout_seconds c) w = (outcome, w1)" by fastforce
  have one: "calls w1 = Suc (calls w)" by (rule adapter_get_calls [OF assms get])
  show ?case
  proof (cases "judge_attempt env c attempt outcome")
    case (Finished r)
    then show ?thesis using one get by (simp add: request_from.simps)
  next
    case (Try_again e pause)
    then show ?thesis using one get Suc.IH [of "pause w1" "Suc attempt"] pause_calls [OF assms Try_again, of w1]
      by (simp add: request_from.simps)
  qed
qed


definition failing_environment :: "nat environment" where
  "failing_environment = \<lparr>open_url = (\<lambda>url t w. (Opened \<lparr>status_code = 503, rr_headers = [], body = []\<rparr>, Suc w)),
     sleep = (\<lambda>d w. w), monotonic_clock = (\<lambda>w. (0, w)), jitter_source = (\<lambda>w. (0, w)), url_encode = (\<lambda>_. []),
     float_of_text = (\<lambda>_. None), decode_json = (\<lambda>_. None)\<rparr>"


end
