(* ===== verification/Binance.thy ===== *)
theory Binance
  imports Transport
begin

section \<open>The public market-data client\<close>

text \<open>
  \<^verbatim>\<open>market_data/binance.py\<close>: strict parsers of the public endpoints, as programs over a JSON
  transport.  The transport and the two conversions of \<^verbatim>\<open>Decimal\<close> (from a text and from a
  sequence) are parameters.

  The lemmas show that whatever JSON the transport delivers, a parser returns a record that
  satisfies its constructor or raises a \<^verbatim>\<open>MarketDataError\<close>.
\<close>

subsection \<open>Conversions of JSON values\<close>

text \<open>\<^verbatim>\<open>Decimal(value)\<close> of a text and of a list (read as sign, digits and exponent).\<close>

record decimal_library =
  decimal_of_text :: "string \<Rightarrow> decimal_value option"
  decimal_of_list :: "json list \<Rightarrow> decimal_value option"

fun api_of_json :: "json \<Rightarrow> api_value" where
  "api_of_json (J_bool b) = Api_bool b"
| "api_of_json (J_int n) = Api_number (Py_int n)"
| "api_of_json (J_float t) = Api_number Py_float"
| "api_of_json (J_text t) = Api_number (Py_str t)"
| "api_of_json _ = Api_none"

fun json_decimal :: "decimal_library \<Rightarrow> json \<Rightarrow> string \<Rightarrow> decimal result" where
  "json_decimal lib (J_list xs) name =
     (case decimal_of_list lib xs of
        None \<Rightarrow> Inl (MarketDataValidationError (name @ '' is not a valid decimal''))
      | Some (Finite x) \<Rightarrow> Inr x
      | Some Non_finite \<Rightarrow> Inl (MarketDataValidationError (name @ '' must be finite'')))"
| "json_decimal lib v name = api_decimal (decimal_of_text lib) (api_of_json v) name"

definition json_integer :: "json \<Rightarrow> string \<Rightarrow> int result" where
  "json_integer v name = api_integer (api_of_json v) name 0"

definition json_instant :: "json \<Rightarrow> string \<Rightarrow> instant result" where
  "json_instant v name = utc_from_milliseconds (api_of_json v) name"

definition json_symbol :: "json \<Rightarrow> string result" where
  "json_symbol v =
     (case v of J_text s \<Rightarrow> validate_btc_symbol s
      | _ \<Rightarrow> Inl (MarketDataValidationError ''Version 1 market data accepts BTCUSDT only''))"

definition json_object :: "json \<Rightarrow> string \<Rightarrow> (string \<times> json) list result" where
  "json_object v name =
     (case v of J_object obj \<Rightarrow> Inr obj | _ \<Rightarrow> Inl (MarketDataValidationError (name @ '' must be a JSON object'')))"

definition json_array :: "json \<Rightarrow> string \<Rightarrow> json list result" where
  "json_array v name =
     (case v of J_list xs \<Rightarrow> Inr xs | _ \<Rightarrow> Inl (MarketDataValidationError (name @ '' must be a JSON array'')))"

definition ordered_unique :: "'a list \<Rightarrow> ('a \<Rightarrow> instant) \<Rightarrow> string \<Rightarrow> 'a list result" where
  "ordered_unique values key name =
     (let keys = map key values
      in if keys \<noteq> sort keys \<or> \<not> distinct keys
         then Inl (MarketDataValidationError (name @ '' must be ordered and unique'')) else Inr values)"

subsection \<open>Parsers\<close>

text \<open>
  The arguments of a constructor are evaluated in the order written, then the record is
  checked.
\<close>

definition parse_candle :: "decimal_library \<Rightarrow> market_venue \<Rightarrow> market_interval \<Rightarrow> json \<Rightarrow> candle result" where
  "parse_candle lib v iv raw =
     (case raw of
        J_list row \<Rightarrow>
          if length row \<noteq> 12 then Inl (MarketDataValidationError ''Candle row must contain exactly 12 fields'')
          else bind_result (json_instant (row ! 0) ''candle open time'') (\<lambda>opened.
          bind_result (json_decimal lib (row ! 1) ''candle open'') (\<lambda>p_open.
          bind_result (json_decimal lib (row ! 2) ''candle high'') (\<lambda>p_high.
          bind_result (json_decimal lib (row ! 3) ''candle low'') (\<lambda>p_low.
          bind_result (json_decimal lib (row ! 4) ''candle close'') (\<lambda>p_close.
          bind_result (json_decimal lib (row ! 5) ''candle volume'') (\<lambda>volume.
          bind_result (json_instant (row ! 6) ''candle close time'') (\<lambda>closed.
          bind_result (json_decimal lib (row ! 7) ''candle quote volume'') (\<lambda>quote.
          bind_result (json_integer (row ! 8) ''candle trade count'') (\<lambda>n.
          bind_result (json_decimal lib (row ! 9) ''taker buy base volume'') (\<lambda>base.
          bind_result (json_decimal lib (row ! 10) ''taker buy quote volume'') (\<lambda>bquote.
            check_candle \<lparr>c_venue = v, c_interval = iv, open_time = opened, close_time = closed,
              c_open = p_open, c_high = p_high, c_low = p_low, c_close = p_close, c_volume = volume,
              quote_volume = quote, trade_count = n, taker_buy_base_volume = base,
              taker_buy_quote_volume = bquote, c_symbol = ''BTCUSDT''\<rparr>)))))))))))
      | _ \<Rightarrow> Inl (MarketDataValidationError ''Candle row must contain exactly 12 fields''))"

definition parse_candles :: "decimal_library \<Rightarrow> json \<Rightarrow> market_venue \<Rightarrow> market_interval \<Rightarrow> candle_series result" where
  "parse_candles lib payload v iv =
     bind_result (json_array payload ''candle response'') (\<lambda>rows.
     bind_result (map_result (parse_candle lib v iv) rows) check_series)"

definition parse_funding_snapshot :: "decimal_library \<Rightarrow> json \<Rightarrow> funding_snapshot result" where
  "parse_funding_snapshot lib payload =
     bind_result (json_object payload ''funding snapshot'') (\<lambda>obj.
     bind_result (json_symbol (json_get obj ''symbol'')) (\<lambda>_.
     bind_result (json_decimal lib (json_get obj ''markPrice'') ''markPrice'') (\<lambda>mark.
     bind_result (json_decimal lib (json_get obj ''indexPrice'') ''indexPrice'') (\<lambda>index.
     bind_result (json_decimal lib (json_get obj ''lastFundingRate'') ''lastFundingRate'') (\<lambda>rate.
     bind_result (json_instant (json_get obj ''nextFundingTime'') ''nextFundingTime'') (\<lambda>due.
     bind_result (json_instant (json_get obj ''time'') ''funding snapshot time'') (\<lambda>observed.
       check_funding_snapshot \<lparr>fs_mark_price = mark, fs_index_price = index, last_funding_rate = rate,
         next_funding_time = due, fs_observed_at = observed, fs_symbol = ''BTCUSDT''\<rparr>)))))))"

definition parse_funding_point :: "decimal_library \<Rightarrow> json \<Rightarrow> funding_rate_point result" where
  "parse_funding_point lib raw =
     bind_result (json_object raw ''funding history row'') (\<lambda>row.
     bind_result (json_symbol (json_get row ''symbol'')) (\<lambda>_.
     bind_result (json_decimal lib (json_get row ''fundingRate'') ''fundingRate'') (\<lambda>rate.
     bind_result (json_instant (json_get row ''fundingTime'') ''fundingTime'') (\<lambda>due.
     bind_result (let mark = json_get row ''markPrice'' in
         if mark = J_null \<or> mark = J_text '''' then Inr None
         else bind_result (json_decimal lib mark ''funding markPrice'') (\<lambda>x. Inr (Some x))) (\<lambda>mark.
       check_funding_rate_point \<lparr>funding_rate = rate, funding_time = due, fp_mark_price = mark, fp_symbol = ''BTCUSDT''\<rparr>)))))"

definition parse_funding_history :: "decimal_library \<Rightarrow> json \<Rightarrow> funding_rate_point list result" where
  "parse_funding_history lib payload =
     bind_result (json_array payload ''funding history'') (\<lambda>rows.
     bind_result (map_result (parse_funding_point lib) rows) (\<lambda>points.
       ordered_unique points funding_time ''funding history''))"

definition parse_open_interest :: "decimal_library \<Rightarrow> json \<Rightarrow> open_interest_point result" where
  "parse_open_interest lib payload =
     bind_result (json_object payload ''open interest'') (\<lambda>obj.
     bind_result (json_symbol (json_get obj ''symbol'')) (\<lambda>_.
     bind_result (json_decimal lib (json_get obj ''openInterest'') ''openInterest'') (\<lambda>x.
     bind_result (json_instant (json_get obj ''time'') ''open-interest time'') (\<lambda>observed.
       check_open_interest_point \<lparr>open_interest = x, oi_observed_at = observed, open_interest_value = None, oi_symbol = ''BTCUSDT''\<rparr>))))"

definition parse_interest_point :: "decimal_library \<Rightarrow> json \<Rightarrow> open_interest_point result" where
  "parse_interest_point lib raw =
     bind_result (json_object raw ''open-interest history row'') (\<lambda>row.
     bind_result (json_symbol (json_get row ''symbol'')) (\<lambda>_.
     bind_result (json_decimal lib (json_get row ''sumOpenInterest'') ''sumOpenInterest'') (\<lambda>x.
     bind_result (json_decimal lib (json_get row ''sumOpenInterestValue'') ''sumOpenInterestValue'') (\<lambda>value.
     bind_result (json_instant (json_get row ''timestamp'') ''OI timestamp'') (\<lambda>observed.
       check_open_interest_point \<lparr>open_interest = x, oi_observed_at = observed, open_interest_value = Some value, oi_symbol = ''BTCUSDT''\<rparr>)))))"

definition parse_interest_history :: "decimal_library \<Rightarrow> json \<Rightarrow> open_interest_point list result" where
  "parse_interest_history lib payload =
     bind_result (json_array payload ''open-interest history'') (\<lambda>rows.
     bind_result (map_result (parse_interest_point lib) rows) (\<lambda>points.
       ordered_unique points oi_observed_at ''open-interest history''))"

text \<open>\<^verbatim>\<open>row.get("symbol", BTCUSDT)\<close>: a missing symbol is accepted here.\<close>

definition parse_taker_point :: "decimal_library \<Rightarrow> derivatives_period \<Rightarrow> json \<Rightarrow> taker_volume_point result" where
  "parse_taker_point lib period raw =
     bind_result (json_object raw ''taker-volume row'') (\<lambda>row.
     bind_result (json_symbol (case map_of row ''symbol'' of None \<Rightarrow> J_text ''BTCUSDT'' | Some v \<Rightarrow> v)) (\<lambda>_.
     bind_result (json_decimal lib (json_get row ''buyVol'') ''buyVol'') (\<lambda>buy.
     bind_result (json_decimal lib (json_get row ''sellVol'') ''sellVol'') (\<lambda>sell.
     bind_result (json_decimal lib (json_get row ''buySellRatio'') ''buySellRatio'') (\<lambda>ratio.
     bind_result (json_instant (json_get row ''timestamp'') ''taker timestamp'') (\<lambda>start.
       check_taker_volume_point \<lparr>tv_period = period, buy_volume = buy, sell_volume = sell, buy_sell_ratio = ratio,
         period_start = start, tv_symbol = ''BTCUSDT''\<rparr>))))))"

definition parse_taker_volume :: "decimal_library \<Rightarrow> derivatives_period \<Rightarrow> json \<Rightarrow> taker_volume_point list result" where
  "parse_taker_volume lib period payload =
     bind_result (json_array payload ''taker volume'') (\<lambda>rows.
     bind_result (map_result (parse_taker_point lib period) rows) (\<lambda>points.
       ordered_unique points period_start ''taker-volume history''))"

definition parse_book_level :: "decimal_library \<Rightarrow> string \<Rightarrow> json \<Rightarrow> order_book_level result" where
  "parse_book_level lib name raw =
     (case raw of
        J_list row \<Rightarrow>
          if length row \<noteq> 2 then Inl (MarketDataValidationError (''Order-book '' @ name @ '' row must contain price and quantity''))
          else bind_result (json_decimal lib (row ! 0) (name @ '' price'')) (\<lambda>p.
               bind_result (json_decimal lib (row ! 1) (name @ '' quantity'')) (\<lambda>q.
                 check_order_book_level \<lparr>l_price = p, l_quantity = q\<rparr>))
      | _ \<Rightarrow> Inl (MarketDataValidationError (''Order-book '' @ name @ '' row must contain price and quantity'')))"

definition parse_book_levels :: "decimal_library \<Rightarrow> json \<Rightarrow> string \<Rightarrow> order_book_level list result" where
  "parse_book_levels lib payload name =
     bind_result (json_array payload (''order-book '' @ name)) (map_result (parse_book_level lib name))"

definition parse_order_book :: "decimal_library \<Rightarrow> instant \<Rightarrow> json \<Rightarrow> order_book result" where
  "parse_order_book lib observed payload =
     bind_result (json_object payload ''spot order book'') (\<lambda>obj.
     bind_result (parse_book_levels lib (json_get obj ''bids'') ''bids'') (\<lambda>bs.
     bind_result (parse_book_levels lib (json_get obj ''asks'') ''asks'') (\<lambda>as.
     bind_result (json_integer (json_get obj ''lastUpdateId'') ''lastUpdateId'') (\<lambda>n.
       check_order_book \<lparr>last_update_id = n, bids = bs, asks = as, ob_observed_at = observed, ob_symbol = ''BTCUSDT''\<rparr>))))"

definition parse_server_time :: "json \<Rightarrow> instant result" where
  "parse_server_time payload =
     bind_result (json_object payload ''server time'') (\<lambda>obj. json_instant (json_get obj ''serverTime'') ''serverTime'')"

subsection \<open>The client\<close>

type_synonym 'w json_transport = "string \<Rightarrow> string \<Rightarrow> (string \<times> query_value) list \<Rightarrow> ('w, json) program"

fun period_value :: "derivatives_period \<Rightarrow> string" where
  "period_value P_FIVE_MINUTES = ''5m''"
| "period_value P_FIFTEEN_MINUTES = ''15m''"
| "period_value P_THIRTY_MINUTES = ''30m''"
| "period_value P_ONE_HOUR = ''1h''"
| "period_value P_TWO_HOURS = ''2h''"
| "period_value P_FOUR_HOURS = ''4h''"
| "period_value P_SIX_HOURS = ''6h''"
| "period_value P_TWELVE_HOURS = ''12h''"
| "period_value P_ONE_DAY = ''1d''"

definition milliseconds :: "instant \<Rightarrow> int" where
  "milliseconds t = (t div usec_day) * 86400000 + (t mod usec_day) div usec_second * 1000 + (t mod usec_second) div 1000"

definition time_range_params :: "instant option \<Rightarrow> instant option \<Rightarrow> (string \<times> query_value) list result" where
  "time_range_params start finish =
     (if (case (start, finish) of (Some a, Some b) \<Rightarrow> b < a | _ \<Rightarrow> False)
      then Inl (MarketDataValidationError ''start_at cannot be later than end_at'')
      else Inr ((case start of None \<Rightarrow> [] | Some a \<Rightarrow> [(''startTime'', Q_int (milliseconds a))])
              @ (case finish of None \<Rightarrow> [] | Some b \<Rightarrow> [(''endTime'', Q_int (milliseconds b))])))"

definition candle_params :: "market_interval \<Rightarrow> int \<Rightarrow> instant option \<Rightarrow> instant option \<Rightarrow> (string \<times> query_value) list result" where
  "candle_params iv limit start finish =
     bind_result (time_range_params start finish) (\<lambda>window.
       Inr ([(''symbol'', Q_text ''BTCUSDT''), (''interval'', Q_text (interval_value iv)), (''limit'', Q_int limit)] @ window))"

definition validate_limit :: "int \<Rightarrow> int \<Rightarrow> unit result" where
  "validate_limit limit maximum =
     (if 1 \<le> limit \<and> limit \<le> maximum then Inr ()
      else Inl (MarketDataValidationError (''Request limit must be between 1 and '' @ int_text maximum)))"

definition server_time :: "'w json_transport \<Rightarrow> string \<Rightarrow> string \<Rightarrow> ('w, instant) program" where
  "server_time tr origin path = bind_p (tr origin path []) (\<lambda>payload. lift_p (parse_server_time payload))"

definition spot_server_time :: "'w json_transport \<Rightarrow> ('w, instant) program" where
  "spot_server_time tr = server_time tr spot_origin ''/api/v3/time''"

definition futures_server_time :: "'w json_transport \<Rightarrow> ('w, instant) program" where
  "futures_server_time tr = server_time tr futures_origin ''/fapi/v1/time''"

definition spot_candles ::
  "'w json_transport \<Rightarrow> decimal_library \<Rightarrow> market_interval \<Rightarrow> int \<Rightarrow> instant option \<Rightarrow> instant option \<Rightarrow> instant option \<Rightarrow> ('w, candle_series) program" where
  "spot_candles tr lib iv limit as_of start finish =
     bind_p (lift_p (validate_limit limit 1000)) (\<lambda>_.
     bind_p (lift_p (candle_params iv limit start finish)) (\<lambda>params.
     bind_p (tr spot_origin ''/api/v3/klines'' params) (\<lambda>payload.
     bind_p (case as_of of None \<Rightarrow> spot_server_time tr | Some t \<Rightarrow> return_p t) (\<lambda>reference.
       lift_p (bind_result (parse_candles lib payload SPOT iv) (\<lambda>s. closed_at s reference))))))"

definition futures_candles ::
  "'w json_transport \<Rightarrow> decimal_library \<Rightarrow> market_interval \<Rightarrow> int \<Rightarrow> instant option \<Rightarrow> instant option \<Rightarrow> instant option \<Rightarrow> ('w, candle_series) program" where
  "futures_candles tr lib iv limit as_of start finish =
     bind_p (lift_p (validate_limit limit 1500)) (\<lambda>_.
     bind_p (lift_p (candle_params iv limit start finish)) (\<lambda>params.
     bind_p (tr futures_origin ''/fapi/v1/klines'' params) (\<lambda>payload.
     bind_p (case as_of of None \<Rightarrow> futures_server_time tr | Some t \<Rightarrow> return_p t) (\<lambda>reference.
       lift_p (bind_result (parse_candles lib payload FUTURES iv) (\<lambda>s. closed_at s reference))))))"

definition client_funding_snapshot :: "'w json_transport \<Rightarrow> decimal_library \<Rightarrow> ('w, funding_snapshot) program" where
  "client_funding_snapshot tr lib =
     bind_p (tr futures_origin ''/fapi/v1/premiumIndex'' [(''symbol'', Q_text ''BTCUSDT'')]) (\<lambda>payload.
       lift_p (parse_funding_snapshot lib payload))"

definition client_open_interest :: "'w json_transport \<Rightarrow> decimal_library \<Rightarrow> ('w, open_interest_point) program" where
  "client_open_interest tr lib =
     bind_p (tr futures_origin ''/fapi/v1/openInterest'' [(''symbol'', Q_text ''BTCUSDT'')]) (\<lambda>payload.
       lift_p (parse_open_interest lib payload))"

definition client_funding_history ::
  "'w json_transport \<Rightarrow> decimal_library \<Rightarrow> int \<Rightarrow> instant option \<Rightarrow> instant option \<Rightarrow> ('w, funding_rate_point list) program" where
  "client_funding_history tr lib limit start finish =
     bind_p (lift_p (validate_limit limit 1000)) (\<lambda>_.
     bind_p (lift_p (time_range_params start finish)) (\<lambda>window.
     bind_p (tr futures_origin ''/fapi/v1/fundingRate''
               ([(''symbol'', Q_text ''BTCUSDT''), (''limit'', Q_int limit)] @ window)) (\<lambda>payload.
       lift_p (parse_funding_history lib payload))))"

definition period_params :: "derivatives_period \<Rightarrow> int \<Rightarrow> (string \<times> query_value) list \<Rightarrow> (string \<times> query_value) list" where
  "period_params period limit window =
     [(''symbol'', Q_text ''BTCUSDT''), (''period'', Q_text (period_value period)), (''limit'', Q_int limit)] @ window"

definition client_interest_history ::
  "'w json_transport \<Rightarrow> decimal_library \<Rightarrow> derivatives_period \<Rightarrow> int \<Rightarrow> instant option \<Rightarrow> instant option \<Rightarrow> ('w, open_interest_point list) program" where
  "client_interest_history tr lib period limit start finish =
     bind_p (lift_p (validate_limit limit 500)) (\<lambda>_.
     bind_p (lift_p (time_range_params start finish)) (\<lambda>window.
     bind_p (tr futures_origin ''/futures/data/openInterestHist'' (period_params period limit window)) (\<lambda>payload.
       lift_p (parse_interest_history lib payload))))"

definition client_taker_volume ::
  "'w json_transport \<Rightarrow> decimal_library \<Rightarrow> derivatives_period \<Rightarrow> int \<Rightarrow> instant option \<Rightarrow> instant option \<Rightarrow> ('w, taker_volume_point list) program" where
  "client_taker_volume tr lib period limit start finish =
     bind_p (lift_p (validate_limit limit 500)) (\<lambda>_.
     bind_p (lift_p (time_range_params start finish)) (\<lambda>window.
     bind_p (tr futures_origin ''/futures/data/takerlongshortRatio'' (period_params period limit window)) (\<lambda>payload.
       lift_p (parse_taker_volume lib period payload))))"

definition client_order_book :: "'w json_transport \<Rightarrow> decimal_library \<Rightarrow> instant \<Rightarrow> int \<Rightarrow> ('w, order_book) program" where
  "client_order_book tr lib observed limit =
     (if limit \<notin> {5, 10, 20, 50, 100}
      then raise_p (MarketDataValidationError ''Order-book limit must be 5, 10, 20, 50, or 100'')
      else bind_p (tr spot_origin ''/api/v3/depth'' [(''symbol'', Q_text ''BTCUSDT''), (''limit'', Q_int limit)])
             (\<lambda>payload. lift_p (parse_order_book lib observed payload)))"

subsection \<open>What the parsers promise\<close>

text \<open>A result whose exception is presentable and whose value is good.\<close>

definition sound :: "('a \<Rightarrow> bool) \<Rightarrow> 'a result \<Rightarrow> bool" where
  "sound good r \<longleftrightarrow> (case r of Inl e \<Rightarrow> presentable e | Inr x \<Rightarrow> good x)"

lemma sound_simps [simp]: "sound good (Inl e) \<longleftrightarrow> presentable e" "sound good (Inr x) \<longleftrightarrow> good x"
  by (simp_all add: sound_def)

lemma sound_bind [intro]: "sound mid r \<Longrightarrow> (\<And>x. mid x \<Longrightarrow> sound good (f x)) \<Longrightarrow> sound good (bind_result r f)"
  by (cases r) auto

lemma sound_map_result: "(\<And>x. sound good (f x)) \<Longrightarrow> sound (list_all good) (map_result f xs)"
proof (induction xs)
  case (Cons x xs)
  show ?case
    by (auto intro!: sound_bind [OF Cons.prems] sound_bind [OF Cons.IH] intro: Cons.prems)
qed simp

lemma sound_mono: "sound good r \<Longrightarrow> (\<And>x. good x \<Longrightarrow> good' x) \<Longrightarrow> sound good' r"
  by (cases r) auto

named_theorems sound_rules \<open>soundness of the parsers\<close>

lemma text_not_blank [simp]: "\<not> blank (c # cs) \<longleftrightarrow> \<not> is_space c \<or> \<not> blank cs"
  by (simp add: blank_def)

lemma not_blank_start: "\<not> is_space c \<Longrightarrow> \<not> blank (c # cs)"
  by (simp add: blank_def)

lemma json_decimal_sound [sound_rules]: "sound (\<lambda>_. True) (json_decimal lib v name)"
  by (cases v) (auto simp: is_space_def split: option.splits decimal_value.splits)

lemma api_integer_sound: "sound (\<lambda>n. minimum \<le> n) (api_integer v name minimum)"
  by (auto simp: api_integer_def is_space_def split: api_value.splits py_number.splits)

lemma json_integer_sound [sound_rules]: "sound (\<lambda>n. 0 \<le> n) (json_integer v name)"
  unfolding json_integer_def by (rule api_integer_sound)

lemma json_instant_sound [sound_rules]: "sound (\<lambda>_. True) (json_instant v name)"
  unfolding json_instant_def utc_from_milliseconds_def
  by (rule sound_bind [OF api_integer_sound]) (simp add: is_space_def)

lemma json_symbol_sound [sound_rules]: "sound (\<lambda>_. True) (json_symbol v)"
  by (auto simp: json_symbol_def validate_btc_symbol_def is_space_def split: json.splits)

lemma json_object_sound [sound_rules]: "sound (\<lambda>_. True) (json_object v name)"
  by (auto simp: json_object_def is_space_def split: json.splits)

lemma json_array_sound [sound_rules]: "sound (\<lambda>_. True) (json_array v name)"
  by (auto simp: json_array_def is_space_def split: json.splits)

lemma ordered_unique_sound: "sound (\<lambda>xs. xs = values \<and> sorted_wrt (<) (map key xs)) (ordered_unique values key name)"
proof -
  have "map key values = sort (map key values) \<Longrightarrow> sorted (map key values)" by (metis sorted_sort)
  then show ?thesis by (auto simp: ordered_unique_def Let_def is_space_def strict_sorted_iff)
qed

subsection \<open>Soundness of every parser\<close>

lemma check_candle_sound [sound_rules]: "sound (\<lambda>x. candle_ok x \<and> x = c) (check_candle c)"
proof -
  have e: "\<exists>u. expected_close_time iv t = Inr u" if "is_open_time_aligned iv t" for iv t
    using that by (auto simp: expected_close_time_def next_open_time_def split: option.splits)
  show ?thesis
  proof (cases "c_symbol c = ''BTCUSDT'' \<and> 0 \<le> trade_count c \<and> is_open_time_aligned (c_interval c) (open_time c)")
    case True
    then obtain u where "expected_close_time (c_interval c) (open_time c) = Inr u" using e by blast
    then show ?thesis using True
      by (simp add: candle_ok_def check_candle_def validate_btc_symbol_def api_integer_def is_space_def)
  next
    case False
    then show ?thesis by (auto simp: check_candle_def validate_btc_symbol_def api_integer_def is_space_def)
  qed
qed

lemma check_funding_snapshot_sound [sound_rules]: "sound (\<lambda>x. check_funding_snapshot x = Inr x) (check_funding_snapshot f)"
  by (auto simp: check_funding_snapshot_def validate_btc_symbol_def is_space_def)

lemma check_funding_rate_point_sound [sound_rules]: "sound (\<lambda>x. check_funding_rate_point x = Inr x) (check_funding_rate_point f)"
  by (auto simp: check_funding_rate_point_def validate_btc_symbol_def is_space_def)

lemma check_open_interest_point_sound [sound_rules]: "sound (\<lambda>x. check_open_interest_point x = Inr x) (check_open_interest_point f)"
  by (auto simp: check_open_interest_point_def validate_btc_symbol_def is_space_def)

lemma check_taker_volume_point_sound [sound_rules]: "sound (\<lambda>x. check_taker_volume_point x = Inr x) (check_taker_volume_point f)"
  by (auto simp: check_taker_volume_point_def validate_btc_symbol_def is_space_def Let_def)

lemma check_order_book_level_sound [sound_rules]: "sound (\<lambda>x. check_order_book_level x = Inr x) (check_order_book_level f)"
  by (auto simp: check_order_book_level_def is_space_def)

lemma check_order_book_sound [sound_rules]: "sound (\<lambda>x. check_order_book x = Inr x) (check_order_book b)"
  by (auto simp: check_order_book_def validate_btc_symbol_def api_integer_def is_space_def)

lemma check_series_sound: "list_all candle_ok cs \<Longrightarrow> sound series_ok (check_series cs)"
proof -
  assume ok: "list_all candle_ok cs"
  have loop: "series_loop first seen previous xs = Inl e \<Longrightarrow> presentable e" for first seen previous xs e
    by (induction first seen previous xs rule: series_loop.induct) (auto simp: is_space_def split: if_splits option.splits)
  show "sound series_ok (check_series cs)"
  proof (cases "check_series cs")
    case (Inl e)
    then show ?thesis by (auto simp: check_series_def is_space_def bind_result_eq_Inl dest: loop split: list.splits)
  next
    case (Inr r)
    then show ?thesis using check_series_iff [OF ok, of r] by simp
  qed
qed

lemma closed_at_sound: "series_ok s \<Longrightarrow> sound (\<lambda>r. series_ok r \<and> (\<forall>c \<in> set r. close_time c < now)) (closed_at s now)"
proof -
  define closed where "closed = filter (\<lambda>c. is_closed_at c now) s"
  assume "series_ok s"
  then have ok: "list_all candle_ok closed" by (auto simp: series_ok_def list_all_iff closed_def)
  have before: "\<forall>c \<in> set closed. close_time c < now" by (simp add: closed_def is_closed_at_def)
  have eq: "closed_at s now = (if closed = []
      then Inl (MarketDataValidationError ''The upstream series contains no closed candle'') else check_series closed)"
    by (simp add: closed_at_def closed_def)
  show ?thesis
  proof (cases "check_series closed")
    case (Inl e)
    then show ?thesis using check_series_sound [OF ok] by (simp add: eq is_space_def)
  next
    case (Inr r)
    then have "r = closed" using check_series_iff [OF ok] by blast
    then show ?thesis using check_series_sound [OF ok] before Inr by (simp add: eq is_space_def)
  qed
qed

lemma parse_candle_sound: "sound (\<lambda>c. candle_ok c \<and> c_venue c = v \<and> c_interval c = iv) (parse_candle lib v iv raw)"
proof -
  have row: "sound (\<lambda>x. candle_ok x \<and> c_venue x = v \<and> c_interval x = iv) (check_candle c)"
    if "c_venue c = v" "c_interval c = iv" for c
    by (rule sound_mono [OF check_candle_sound]) (use that in auto)
  note binds = sound_bind [OF json_instant_sound] sound_bind [OF json_decimal_sound] sound_bind [OF json_integer_sound]
  show ?thesis
  proof (cases "\<exists>xs. raw = J_list xs \<and> length xs = 12")
    case True
    then obtain xs where xs: "raw = J_list xs" "length xs = 12" by blast
    have n: "\<not> length xs \<noteq> 12" using xs(2) by simp
    show ?thesis unfolding parse_candle_def xs(1) json.case if_not_P [OF n]
      by (rule binds)+ (simp add: row)
  next
    case False
    then have "parse_candle lib v iv raw = Inl (MarketDataValidationError ''Candle row must contain exactly 12 fields'')"
      by (simp add: parse_candle_def split: json.splits)
    then show ?thesis by (simp add: is_space_def)
  qed
qed

lemma parse_candles_sound: "sound (\<lambda>s. series_ok s \<and> series_venue s = v \<and> series_interval s = iv) (parse_candles lib payload v iv)"
proof -
  let ?good = "\<lambda>c. candle_ok c \<and> c_venue c = v \<and> c_interval c = iv"
  have "sound (\<lambda>s. series_ok s \<and> series_venue s = v \<and> series_interval s = iv) (check_series cs)" if "list_all ?good cs" for cs
  proof -
    have ok: "list_all candle_ok cs" using that by (auto simp: list_all_iff)
    have "r = cs \<and> series_ok cs" if "check_series cs = Inr r" for r using check_series_iff [OF ok] that by blast
    then show ?thesis using check_series_sound [OF ok] that
      by (cases "check_series cs"; cases cs) (auto simp: series_ok_def series_venue_def series_interval_def)
  qed
  then show ?thesis unfolding parse_candles_def
    by (intro sound_bind [OF json_array_sound] sound_bind [OF sound_map_result [where good = ?good, OF parse_candle_sound]])
qed

text \<open>What a history of points promises.\<close>

lemma history_sound:
  assumes "\<And>raw. sound good (parse raw)"
  shows "sound (\<lambda>xs. list_all good xs \<and> sorted_wrt (<) (map key xs))
    (bind_result (json_array payload name) (\<lambda>rows. bind_result (map_result parse rows) (\<lambda>points. ordered_unique points key name')))"
proof -
  have "sound (\<lambda>xs. list_all good xs \<and> sorted_wrt (<) (map key xs)) (ordered_unique points key name')"
    if "list_all good points" for points
    by (rule sound_mono [OF ordered_unique_sound]) (use that in auto)
  then show ?thesis
    by (intro sound_bind [OF json_array_sound] sound_bind [OF sound_map_result [where good = good, OF assms]])
qed

lemma parse_funding_snapshot_sound: "sound (\<lambda>x. check_funding_snapshot x = Inr x) (parse_funding_snapshot lib payload)"
  unfolding parse_funding_snapshot_def
  by (intro sound_bind [OF json_object_sound] sound_bind [OF json_symbol_sound] sound_bind [OF json_decimal_sound]
      sound_bind [OF json_instant_sound] check_funding_snapshot_sound)

lemma parse_funding_point_sound: "sound (\<lambda>x. check_funding_rate_point x = Inr x) (parse_funding_point lib payload)"
proof -
  have mark: "sound (\<lambda>_. True) (let mark = m in if mark = J_null \<or> mark = J_text '''' then Inr None
         else bind_result (json_decimal lib mark name) (\<lambda>x. Inr (Some x)))" for m name
    by (auto simp: Let_def intro: sound_bind [OF json_decimal_sound])
  show ?thesis unfolding parse_funding_point_def
    by (intro sound_bind [OF json_object_sound] sound_bind [OF json_symbol_sound] sound_bind [OF json_decimal_sound]
        sound_bind [OF json_instant_sound] sound_bind [OF mark] check_funding_rate_point_sound)
qed

lemma parse_open_interest_sound: "sound (\<lambda>x. check_open_interest_point x = Inr x) (parse_open_interest lib payload)"
  unfolding parse_open_interest_def
  by (intro sound_bind [OF json_object_sound] sound_bind [OF json_symbol_sound] sound_bind [OF json_decimal_sound]
      sound_bind [OF json_instant_sound] check_open_interest_point_sound)

lemma parse_interest_point_sound: "sound (\<lambda>x. check_open_interest_point x = Inr x) (parse_interest_point lib payload)"
  unfolding parse_interest_point_def
  by (intro sound_bind [OF json_object_sound] sound_bind [OF json_symbol_sound] sound_bind [OF json_decimal_sound]
      sound_bind [OF json_instant_sound] check_open_interest_point_sound)

lemma parse_taker_point_sound: "sound (\<lambda>x. check_taker_volume_point x = Inr x) (parse_taker_point lib period payload)"
  unfolding parse_taker_point_def
  by (intro sound_bind [OF json_object_sound] sound_bind [OF json_symbol_sound] sound_bind [OF json_decimal_sound]
      sound_bind [OF json_instant_sound] check_taker_volume_point_sound)

lemma parse_book_levels_sound: "sound (\<lambda>_. True) (parse_book_levels lib payload name)"
proof -
  have level: "sound (\<lambda>x. check_order_book_level x = Inr x)
      (bind_result (json_decimal lib p n1) (\<lambda>p. bind_result (json_decimal lib q n2) (\<lambda>q. check_order_book_level \<lparr>l_price = p, l_quantity = q\<rparr>)))"
    for p q n1 n2
    by (intro sound_bind [OF json_decimal_sound] check_order_book_level_sound)
  have bad: "presentable (MarketDataValidationError (''Order-book '' @ name @ '' row must contain price and quantity''))"
    unfolding presentable_validation append_Cons by (rule not_blank_start) (simp add: is_space_def)
  have each: "sound (\<lambda>x. check_order_book_level x = Inr x) (parse_book_level lib name raw)" for raw
  proof (cases "\<exists>row. raw = J_list row \<and> length row = 2")
    case True
    then show ?thesis by (auto simp: parse_book_level_def level simp del: append.simps)
  next
    case False
    then have "parse_book_level lib name raw =
        Inl (MarketDataValidationError (''Order-book '' @ name @ '' row must contain price and quantity''))"
      by (simp add: parse_book_level_def split: json.splits)
    then show ?thesis using bad by (simp only: sound_simps)
  qed
  have "sound (\<lambda>_. True) (map_result (parse_book_level lib name) rows)" for rows
    by (rule sound_mono [OF sound_map_result [OF each]]) simp
  then show ?thesis unfolding parse_book_levels_def by (intro sound_bind [OF json_array_sound])
qed

lemma parse_order_book_sound: "sound (\<lambda>x. check_order_book x = Inr x) (parse_order_book lib observed payload)"
  unfolding parse_order_book_def
  by (intro sound_bind [OF json_object_sound] sound_bind [OF parse_book_levels_sound] sound_bind [OF json_integer_sound]
      check_order_book_sound)

lemma parse_server_time_sound: "sound (\<lambda>_. True) (parse_server_time payload)"
  unfolding parse_server_time_def by (intro sound_bind [OF json_object_sound] json_instant_sound)

subsection \<open>The client as a source of market data\<close>

text \<open>\<^verbatim>\<open>BinanceMarketData\<close> of \<^verbatim>\<open>market_data/collector.py\<close>: the protocol the collector is written against.\<close>

record 'w market_client =
  mc_spot_time :: "('w, instant) program"
  mc_futures_time :: "('w, instant) program"
  mc_spot_candles :: "market_interval \<Rightarrow> int \<Rightarrow> instant option \<Rightarrow> instant option \<Rightarrow> instant option \<Rightarrow> ('w, candle_series) program"
  mc_futures_candles :: "market_interval \<Rightarrow> int \<Rightarrow> instant option \<Rightarrow> instant option \<Rightarrow> instant option \<Rightarrow> ('w, candle_series) program"
  mc_funding :: "('w, funding_snapshot) program"
  mc_open_interest :: "('w, open_interest_point) program"
  mc_funding_history :: "int \<Rightarrow> instant option \<Rightarrow> instant option \<Rightarrow> ('w, funding_rate_point list) program"
  mc_interest_history :: "derivatives_period \<Rightarrow> int \<Rightarrow> instant option \<Rightarrow> instant option \<Rightarrow> ('w, open_interest_point list) program"
  mc_taker_volume :: "derivatives_period \<Rightarrow> int \<Rightarrow> instant option \<Rightarrow> instant option \<Rightarrow> ('w, taker_volume_point list) program"
  mc_order_book :: "instant \<Rightarrow> int \<Rightarrow> ('w, order_book) program"

definition binance_client :: "'w json_transport \<Rightarrow> decimal_library \<Rightarrow> 'w market_client" where
  "binance_client tr lib =
     \<lparr>mc_spot_time = spot_server_time tr, mc_futures_time = futures_server_time tr,
      mc_spot_candles = spot_candles tr lib, mc_futures_candles = futures_candles tr lib,
      mc_funding = client_funding_snapshot tr lib, mc_open_interest = client_open_interest tr lib,
      mc_funding_history = client_funding_history tr lib, mc_interest_history = client_interest_history tr lib,
      mc_taker_volume = client_taker_volume tr lib, mc_order_book = client_order_book tr lib\<rparr>"

text \<open>What the collector relies on: every exception is presentable, every record is valid.\<close>

locale market_source =
  fixes client :: "'w market_client"
  assumes spot_time: "outcomes_p (mc_spot_time client) presentable (\<lambda>_. True)"
    and futures_time: "outcomes_p (mc_futures_time client) presentable (\<lambda>_. True)"
    and spot_series: "outcomes_p (mc_spot_candles client iv n t a b) presentable series_ok"
    and futures_series: "outcomes_p (mc_futures_candles client iv n t a b) presentable series_ok"
    and funding: "outcomes_p (mc_funding client) presentable (\<lambda>x. check_funding_snapshot x = Inr x)"
    and interest: "outcomes_p (mc_open_interest client) presentable (\<lambda>x. check_open_interest_point x = Inr x)"
    and funding_points: "outcomes_p (mc_funding_history client n a b) presentable
      (list_all (\<lambda>x. check_funding_rate_point x = Inr x))"
    and interest_points: "outcomes_p (mc_interest_history client p n a b) presentable
      (list_all (\<lambda>x. check_open_interest_point x = Inr x))"
    and taker_points: "outcomes_p (mc_taker_volume client p n a b) presentable
      (list_all (\<lambda>x. check_taker_volume_point x = Inr x))"
    and book: "outcomes_p (mc_order_book client now n) presentable (\<lambda>x. check_order_book x = Inr x)"

lemma outcomes_p_sound: "outcomes_p (lift_p r) presentable good \<longleftrightarrow> sound good r"
  by (simp add: outcomes_p_lift sound_def)

context json_source
begin

lemma server_time_outcomes: "outcomes_p (server_time fetch origin path) presentable (\<lambda>_. True)"
  unfolding server_time_def
  by (rule outcomes_p_bind [OF fetch_presentable]) (simp add: outcomes_p_sound parse_server_time_sound)

lemma limit_outcomes: "outcomes_p (lift_p (validate_limit n m)) presentable (\<lambda>_. True)"
  by (simp add: outcomes_p_sound validate_limit_def is_space_def)

lemma window_sound: "sound (\<lambda>_. True) (time_range_params a b)"
  by (auto simp: time_range_params_def is_space_def)

lemma candle_params_outcomes: "outcomes_p (lift_p (candle_params iv n a b)) presentable (\<lambda>_. True)"
  unfolding outcomes_p_sound candle_params_def by (rule sound_bind [OF window_sound]) simp

lemma closed_series_sound: "sound series_ok (bind_result (parse_candles lib payload v iv) (\<lambda>s. closed_at s now))"
  by (rule sound_bind [OF parse_candles_sound]) (auto intro: sound_mono [OF closed_at_sound])

lemma candles_outcomes:
  "outcomes_p (spot_candles fetch lib iv n t a b) presentable series_ok"
  "outcomes_p (futures_candles fetch lib iv n t a b) presentable series_ok"
proof -
  have reference: "outcomes_p (case t of None \<Rightarrow> server_time fetch o' p' | Some x \<Rightarrow> return_p x) presentable (\<lambda>_. True)" for o' p'
    using server_time_outcomes by (simp add: outcomes_p_return split: option.splits)
  show "outcomes_p (spot_candles fetch lib iv n t a b) presentable series_ok"
    "outcomes_p (futures_candles fetch lib iv n t a b) presentable series_ok"
    unfolding spot_candles_def futures_candles_def spot_server_time_def futures_server_time_def
    by (intro outcomes_p_bind [OF limit_outcomes] outcomes_p_bind [OF candle_params_outcomes]
        outcomes_p_bind [OF fetch_presentable] outcomes_p_bind [OF reference]; simp add: outcomes_p_sound closed_series_sound)+
qed

lemma history_outcomes:
  assumes "\<And>payload. sound good (parse payload)"
  shows "outcomes_p (bind_p (lift_p (validate_limit n m)) (\<lambda>_. bind_p (lift_p (time_range_params a b)) (\<lambda>window.
    bind_p (fetch o' p' (q window)) (\<lambda>payload. lift_p (parse payload))))) presentable good"
  by (intro outcomes_p_bind [OF limit_outcomes] outcomes_p_bind [OF fetch_presentable]
      outcomes_p_bind [of _ _ "\<lambda>_. True"]; simp add: outcomes_p_sound assms window_sound)

lemma points_sound:
  "sound (list_all (\<lambda>x. check_funding_rate_point x = Inr x)) (parse_funding_history lib payload)"
  "sound (list_all (\<lambda>x. check_open_interest_point x = Inr x)) (parse_interest_history lib payload)"
  "sound (list_all (\<lambda>x. check_taker_volume_point x = Inr x)) (parse_taker_volume lib period payload)"
  unfolding parse_funding_history_def parse_interest_history_def parse_taker_volume_def
  by (rule sound_mono [OF history_sound [OF parse_funding_point_sound]] sound_mono [OF history_sound [OF parse_interest_point_sound]]
      sound_mono [OF history_sound [OF parse_taker_point_sound]], simp)+

lemma single_outcomes:
  assumes "\<And>payload. sound good (parse payload)"
  shows "outcomes_p (bind_p (fetch o' p' q) (\<lambda>payload. lift_p (parse payload))) presentable good"
  by (rule outcomes_p_bind [OF fetch_presentable]) (simp add: outcomes_p_sound assms)

lemma binance_source: "market_source (binance_client fetch lib)"
proof
  show "outcomes_p (mc_order_book (binance_client fetch lib) t n) presentable (\<lambda>x. check_order_book x = Inr x)" for t n
  proof (cases "n \<in> {5, 10, 20, 50, 100}")
    case True
    then show ?thesis by (auto simp: binance_client_def client_order_book_def intro: single_outcomes parse_order_book_sound)
  next
    case False
    then show ?thesis by (auto simp: binance_client_def client_order_book_def outcomes_p_def is_space_def)
  qed
qed (simp_all add: binance_client_def spot_server_time_def futures_server_time_def server_time_outcomes candles_outcomes
    client_funding_snapshot_def client_open_interest_def client_funding_history_def client_interest_history_def
    client_taker_volume_def single_outcomes history_outcomes points_sound parse_funding_snapshot_sound parse_open_interest_sound)

end

interpretation binance: market_source "binance_client (get_json env c) lib" for env c lib
  by (rule retrying.binance_source)

end
