(* ===== verification/Collector.thy ===== *)
theory Collector
  imports Binance Analysis
begin

section \<open>The market-data collector\<close>

text \<open>
  \<^verbatim>\<open>market_data/collector.py\<close>: one coherent snapshot from many requests, as a program over a
  client and a local clock.  A failure of a required input rejects the collection, a failure of
  an optional one degrades it.  The client is typed as its protocol says, so the two run-time
  \<^verbatim>\<open>isinstance\<close> checks of its results have no counterpart.

  The lemmas, proved for every \<open>market_source\<close>, show what a collected snapshot guarantees to the
  analysis.
\<close>

subsection \<open>Requirements and policy\<close>

record series_requirement =
  rq_venue :: market_venue
  rq_interval :: market_interval
  minimum_closed :: int
  request_limit :: int

definition check_requirement :: "series_requirement \<Rightarrow> series_requirement result" where
  "check_requirement r =
     (let maximum = (case rq_venue r of SPOT \<Rightarrow> 1000 | FUTURES \<Rightarrow> 1500)
      in if 1 \<le> minimum_closed r \<and> minimum_closed r < request_limit r \<and> request_limit r \<le> maximum then Inr r
         else Inl (ValueError ''Series limits must leave room for one incomplete upstream candle''))"

definition requirement :: "market_venue \<Rightarrow> market_interval \<Rightarrow> int \<Rightarrow> int \<Rightarrow> series_requirement" where
  "requirement v iv least limit = \<lparr>rq_venue = v, rq_interval = iv, minimum_closed = least, request_limit = limit\<rparr>"

definition default_requirements :: "series_requirement list" where
  "default_requirements =
     [requirement SPOT ONE_MONTH 60 120, requirement SPOT ONE_WEEK 210 260, requirement SPOT ONE_DAY 250 300,
      requirement SPOT FOUR_HOURS 250 300, requirement SPOT ONE_HOUR 250 300, requirement SPOT FIFTEEN_MINUTES 250 300,
      requirement SPOT ONE_MINUTE 300 500, requirement FUTURES ONE_DAY 100 150, requirement FUTURES FOUR_HOURS 100 150,
      requirement FUTURES ONE_HOUR 100 150, requirement FUTURES FIFTEEN_MINUTES 100 150, requirement FUTURES ONE_MINUTE 100 150]"

record market_policy =
  requirements :: "series_requirement list"
  optional_history_limit :: int
  order_book_limit :: int

definition requirement_key :: "series_requirement \<Rightarrow> market_venue \<times> market_interval" where
  "requirement_key r = (rq_venue r, rq_interval r)"

definition check_market_policy :: "market_policy \<Rightarrow> market_policy result" where
  "check_market_policy given =
     (let p = given\<lparr>requirements := (if requirements given = [] then default_requirements else requirements given)\<rparr>;
          keys = map requirement_key (requirements p)
      in if \<not> distinct keys then Inl (ValueError ''Market-data requirements must be unique'')
         else if (SPOT, ONE_MINUTE) \<notin> set keys then Inl (ValueError ''Policy must include required SPOT 1m candles'')
         else if (FUTURES, ONE_MINUTE) \<notin> set keys then Inl (ValueError ''Policy must include required FUTURES 1m candles'')
         else if \<not> (1 \<le> optional_history_limit p \<and> optional_history_limit p \<le> 500)
         then Inl (ValueError ''optional_history_limit must be between 1 and 500'')
         else if order_book_limit p \<notin> {5, 10, 20, 50, 100} then Inl (ValueError ''Unsupported low-weight order-book limit'')
         else Inr p)"

definition default_market_policy :: market_policy where
  "default_market_policy = \<lparr>requirements = default_requirements, optional_history_limit = 100, order_book_limit = 100\<rparr>"

subsection \<open>Issues and rejections\<close>

definition issue_of :: "string \<Rightarrow> exn \<Rightarrow> bool \<Rightarrow> data_issue result" where
  "issue_of source e required =
     check_data_issue \<lparr>i_code = exn_class e, i_source = source,
       i_detail = (case market_error_text e of None \<Rightarrow> [] | Some t \<Rightarrow> t), i_required = required\<rparr>"

definition rejected_collection :: "string \<Rightarrow> exn \<Rightarrow> collection_result result" where
  "rejected_collection source e =
     bind_result (issue_of source e True) (\<lambda>i.
       check_collection_result \<lparr>cr_status = REJECTED, cr_snapshot = None, cr_issues = [i]\<rparr>)"

text \<open>An optional input: its value, or nothing and the issue.\<close>

definition optional_input :: "string \<Rightarrow> ('a \<Rightarrow> bool) \<Rightarrow> ('w, 'a) program \<Rightarrow> ('w, 'a option \<times> data_issue list) program" where
  "optional_input source missing operation =
     bind_p (try_p market_error_text (bind_p operation (\<lambda>x.
               if missing x then raise_p (MarketDataValidationError (source @ '' returned no records'')) else return_p x)))
       (\<lambda>r. case r of
          Inr x \<Rightarrow> return_p (Some x, [])
        | Inl e \<Rightarrow> bind_p (lift_p (issue_of source e False)) (\<lambda>i. return_p (None, [i])))"

definition fresh_history ::
  "'a list option \<Rightarrow> string \<Rightarrow> ('a \<Rightarrow> instant) \<Rightarrow> duration \<Rightarrow> instant \<Rightarrow> ('a list \<times> data_issue list) result" where
  "fresh_history value source timestamp maximum_age as_of =
     (case value of
        None \<Rightarrow> Inr ([], [])
      | Some xs \<Rightarrow>
          (case ensure_observation_fresh (timestamp (last xs)) as_of maximum_age source of
             Inr _ \<Rightarrow> Inr (xs, [])
           | Inl e \<Rightarrow> if market_error_text e = None then Inl e
                      else bind_result (issue_of source e False) (\<lambda>i. Inr ([], [i]))))"

subsection \<open>Collecting\<close>

fun required_loop ::
  "'w market_client \<Rightarrow> instant \<Rightarrow> series_requirement list \<Rightarrow> candle_series list \<Rightarrow> candle_series list
     \<Rightarrow> ('w, candle_series list \<times> candle_series list) program" where
  "required_loop client as_of [] spot futures = return_p (spot, futures)"
| "required_loop client as_of (r # rs) spot futures =
     bind_p (case rq_venue r of
               SPOT \<Rightarrow> mc_spot_candles client (rq_interval r) (request_limit r) (Some as_of) None None
             | FUTURES \<Rightarrow> mc_futures_candles client (rq_interval r) (request_limit r) (Some as_of) None None) (\<lambda>s.
       if series_venue s \<noteq> rq_venue r \<or> series_interval s \<noteq> rq_interval r
       then raise_p (MarketDataValidationError ''Market-data client returned a series for the wrong venue or interval'')
       else bind_p (lift_p (ensure_series_usable s as_of (minimum_closed r))) (\<lambda>_.
         case rq_venue r of
           SPOT \<Rightarrow> required_loop client as_of rs (spot @ [s]) futures
         | FUTURES \<Rightarrow> required_loop client as_of rs spot (futures @ [s])))"

definition required_series ::
  "'w market_client \<Rightarrow> market_policy \<Rightarrow> instant \<Rightarrow> ('w, candle_series list \<times> candle_series list) program" where
  "required_series client p as_of =
     bind_p (required_loop client as_of (requirements p) [] []) (\<lambda>(spot, futures).
       if spot = [] \<or> futures = []
       then raise_p (MarketDataValidationError ''Policy must require both spot and futures candles'')
       else return_p (spot, futures))"

definition minute_series :: "candle_series list \<Rightarrow> candle_series result" where
  "minute_series ss =
     (case List.find (\<lambda>s. series_interval s = ONE_MINUTE) ss of None \<Rightarrow> Inl StopIteration | Some s \<Rightarrow> Inr s)"

definition check_core :: "instant \<Rightarrow> candle_series list \<Rightarrow> candle_series list \<Rightarrow> funding_snapshot \<Rightarrow> open_interest_point \<Rightarrow> unit result" where
  "check_core as_of spot futures funding interest =
     bind_result (ensure_observation_fresh (fs_observed_at funding) as_of (5 * usec_minute) ''funding snapshot'') (\<lambda>_.
     bind_result (ensure_observation_fresh (oi_observed_at interest) as_of (5 * usec_minute) ''open interest'') (\<lambda>_.
     bind_result (minute_series spot) (\<lambda>spot_minute.
     bind_result (minute_series futures) (\<lambda>futures_minute.
     bind_result (ensure_price_coherence (c_close (latest spot_minute)) (fs_mark_price funding) (3 / 100)) (\<lambda>_.
     bind_result (ensure_price_coherence (c_close (latest spot_minute)) (fs_index_price funding) (3 / 100)) (\<lambda>_.
       ensure_price_coherence (c_close (latest futures_minute)) (fs_mark_price funding) (3 / 100)))))))"

record core_data =
  cd_as_of :: instant
  cd_spot :: "candle_series list"
  cd_futures :: "candle_series list"
  cd_funding :: funding_snapshot
  cd_interest :: open_interest_point

definition collect_core :: "'w market_client \<Rightarrow> market_policy \<Rightarrow> ('w, instant) program \<Rightarrow> ('w, core_data) program" where
  "collect_core client p clock =
     bind_p (mc_spot_time client) (\<lambda>spot_time.
     bind_p (mc_futures_time client) (\<lambda>futures_time.
     bind_p clock (\<lambda>local_time.
     bind_p (lift_p (coherent_reference_time spot_time futures_time local_time (5 * usec_second) (60 * usec_second))) (\<lambda>as_of.
     bind_p (required_series client p as_of) (\<lambda>(spot, futures).
     bind_p (mc_funding client) (\<lambda>funding.
     bind_p (mc_open_interest client) (\<lambda>interest.
     bind_p (lift_p (check_core as_of spot futures funding interest)) (\<lambda>_.
       return_p \<lparr>cd_as_of = as_of, cd_spot = spot, cd_futures = futures, cd_funding = funding, cd_interest = interest\<rparr>))))))))"

definition snapshot_from ::
  "core_data \<Rightarrow> funding_rate_point list \<Rightarrow> open_interest_point list \<Rightarrow> taker_volume_point list \<Rightarrow> order_book option \<Rightarrow> market_snapshot" where
  "snapshot_from core fh oh tv book =
     \<lparr>captured_at = cd_as_of core, spot_series = cd_spot core, futures_series = cd_futures core,
      ms_funding = cd_funding core, ms_open_interest = cd_interest core, funding_history = fh,
      open_interest_history = oh, taker_volume = tv, ms_order_book = book\<rparr>"

definition assemble ::
  "core_data \<Rightarrow> funding_rate_point list option \<Rightarrow> open_interest_point list option \<Rightarrow> taker_volume_point list option
     \<Rightarrow> order_book option \<Rightarrow> data_issue list \<Rightarrow> (market_snapshot \<times> data_issue list) result" where
  "assemble core fh oh tv book issues =
     bind_result (fresh_history fh ''funding_history'' funding_time (36 * usec_hour) (cd_as_of core)) (\<lambda>(f_points, f_issues).
     bind_result (fresh_history oh ''open_interest_history'' oi_observed_at (15 * usec_minute) (cd_as_of core)) (\<lambda>(o_points, o_issues).
     bind_result (fresh_history tv ''taker_volume'' period_start (15 * usec_minute) (cd_as_of core)) (\<lambda>(t_points, t_issues).
       Inr (snapshot_from core f_points o_points t_points book, issues @ f_issues @ o_issues @ t_issues))))"

definition finish_collection :: "market_snapshot \<Rightarrow> data_issue list \<Rightarrow> collection_result result" where
  "finish_collection m issues =
     bind_result (check_snapshot m) (\<lambda>m.
       check_collection_result \<lparr>cr_status = (if issues \<noteq> [] then DEGRADED else ACCEPTED), cr_snapshot = Some m, cr_issues = issues\<rparr>)"

definition collect_market :: "'w market_client \<Rightarrow> market_policy \<Rightarrow> ('w, instant) program \<Rightarrow> ('w, collection_result) program" where
  "collect_market client p clock =
     bind_p (try_p market_error_text (collect_core client p clock)) (\<lambda>r.
       case r of
         Inl e \<Rightarrow> lift_p (rejected_collection ''core'' e)
       | Inr core \<Rightarrow>
           bind_p (optional_input ''funding_history'' (\<lambda>xs. xs = [])
                     (mc_funding_history client (min (optional_history_limit p) 1000) None None)) (\<lambda>(fh, i1).
           bind_p (optional_input ''open_interest_history'' (\<lambda>xs. xs = [])
                     (mc_interest_history client P_FIVE_MINUTES (optional_history_limit p) None None)) (\<lambda>(oh, i2).
           bind_p (optional_input ''taker_volume'' (\<lambda>xs. xs = [])
                     (mc_taker_volume client P_FIVE_MINUTES (optional_history_limit p) None None)) (\<lambda>(tv, i3).
           bind_p (optional_input ''spot_order_book'' (\<lambda>_. False)
                     (mc_order_book client (cd_as_of core) (order_book_limit p))) (\<lambda>(book, i4).
           bind_p (lift_p (assemble core fh oh tv book (i1 @ i2 @ i3 @ i4))) (\<lambda>(m, issues).
           bind_p (try_p market_error_text (bind_p clock (\<lambda>now.
                     lift_p (ensure_observation_fresh (cd_as_of core) now (2 * usec_minute) ''market-data collection'')))) (\<lambda>late.
             case late of
               Inl e \<Rightarrow> lift_p (rejected_collection ''collection_duration'' e)
             | Inr _ \<Rightarrow> lift_p (finish_collection m issues))))))))"

subsection \<open>What a collection guarantees\<close>

definition usable :: "instant \<Rightarrow> series_requirement \<Rightarrow> candle_series \<Rightarrow> bool" where
  "usable as_of r s \<longleftrightarrow> series_ok s \<and> series_key s = requirement_key r \<and> ensure_series_usable s as_of (minimum_closed r) = Inr ()"

definition required_for :: "market_venue \<Rightarrow> market_policy \<Rightarrow> series_requirement list" where
  "required_for v p = filter (\<lambda>r. rq_venue r = v) (requirements p)"

definition collector_policy_ok :: "market_policy \<Rightarrow> bool" where
  "collector_policy_ok p \<longleftrightarrow> check_market_policy p = Inr p \<and> list_all (\<lambda>r. check_requirement r = Inr r) (requirements p)"

lemma requirements_okD:
  assumes "collector_policy_ok p"
  shows "distinct (map requirement_key (requirements p))" "(SPOT, ONE_MINUTE) \<in> set (map requirement_key (requirements p))"
    "(FUTURES, ONE_MINUTE) \<in> set (map requirement_key (requirements p))" "\<forall>r \<in> set (requirements p). 1 \<le> minimum_closed r"
proof -
  define q where "q = p\<lparr>requirements := (if requirements p = [] then default_requirements else requirements p)\<rparr>"
  have c: "check_market_policy p = Inr p" using assms by (simp add: collector_policy_ok_def)
  then have q: "q = p" "distinct (map requirement_key (requirements q))" "(SPOT, ONE_MINUTE) \<in> set (map requirement_key (requirements q))"
    "(FUTURES, ONE_MINUTE) \<in> set (map requirement_key (requirements q))"
    unfolding check_market_policy_def Let_def q_def [symmetric] by (simp_all split: if_splits)
  then show "distinct (map requirement_key (requirements p))" "(SPOT, ONE_MINUTE) \<in> set (map requirement_key (requirements p))"
    "(FUTURES, ONE_MINUTE) \<in> set (map requirement_key (requirements p))" by simp_all
  show "\<forall>r \<in> set (requirements p). 1 \<le> minimum_closed r"
    using assms by (auto simp: collector_policy_ok_def list_all_iff check_requirement_def Let_def split: if_splits)
qed

text \<open>The history that enters a snapshot is fresh, and empty otherwise.\<close>

definition fresh_points :: "('a \<Rightarrow> instant) \<Rightarrow> duration \<Rightarrow> instant \<Rightarrow> 'a list \<Rightarrow> bool" where
  "fresh_points timestamp maximum_age as_of xs \<longleftrightarrow>
     (xs \<noteq> [] \<longrightarrow> - 5 * usec_second \<le> as_of - timestamp (last xs) \<and> as_of - timestamp (last xs) \<le> maximum_age)"

definition core_ok :: "market_policy \<Rightarrow> core_data \<Rightarrow> bool" where
  "core_ok p d \<longleftrightarrow> list_all2 (usable (cd_as_of d)) (required_for SPOT p) (cd_spot d)
     \<and> list_all2 (usable (cd_as_of d)) (required_for FUTURES p) (cd_futures d)
     \<and> check_core (cd_as_of d) (cd_spot d) (cd_futures d) (cd_funding d) (cd_interest d) = Inr ()"

lemma presentableD: "presentable e \<Longrightarrow> market_error_text e \<noteq> None"
  by (auto simp: presentable_def split: option.splits)

lemma exn_class_not_blank [simp]: "\<not> blank (exn_class e)"
  by (cases e) (simp_all add: blank_def is_space_def)

lemma issue_of_Inr:
  assumes "presentable e" "\<not> blank source"
  shows "\<exists>i. issue_of source e required = Inr i \<and> i_required i = required"
  using assms by (auto simp: issue_of_def check_data_issue_def presentable_def split: option.splits)

lemma rejected_collection_Inr:
  assumes "presentable e" "\<not> blank source"
  shows "\<exists>i. rejected_collection source e = Inr \<lparr>cr_status = REJECTED, cr_snapshot = None, cr_issues = [i]\<rparr> \<and> i_required i"
  using issue_of_Inr [OF assms, of True] by (auto simp: rejected_collection_def check_collection_result_def)

lemma ensure_series_usable_sound: "1 \<le> n \<Longrightarrow> sound (\<lambda>u. ensure_series_usable s t n = Inr u) (ensure_series_usable s t n)"
  by (cases "series_venue s"; cases "series_interval s") (simp_all add: ensure_series_usable_def Let_def is_space_def)

lemma fresh_sound:
  "\<not> blank name \<Longrightarrow> sound (\<lambda>u. ensure_observation_fresh o1 t a name = Inr u) (ensure_observation_fresh o1 t a name)"
  by (auto simp: ensure_observation_fresh_def)

lemma coherence_sound: "sound (\<lambda>u. ensure_price_coherence a b m = Inr u) (ensure_price_coherence a b m)"
  by (auto simp: ensure_price_coherence_def is_space_def)

lemma reference_sound: "sound (\<lambda>_. True) (coherent_reference_time a b c x y)"
  by (auto simp: coherent_reference_time_def is_space_def)

lemma fresh_history_ok:
  assumes "\<not> blank source" "given \<noteq> Some []"
  shows "\<exists>xs issues. fresh_history given source ts age t = Inr (xs, issues) \<and> fresh_points ts age t xs
    \<and> (xs = [] \<or> given = Some xs)"
proof (cases given)
  case (Some xs)
  have "\<exists>i. issue_of source (MarketDataValidationError (source @ m)) False = Inr i" for m
    using issue_of_Inr [of "MarketDataValidationError (source @ m)" source False] assms(1) by (auto simp: presentable_def)
  then obtain f where "\<And>m. issue_of source (MarketDataValidationError (source @ m)) False = Inr (f m)" by metis
  then show ?thesis using Some
    by (auto simp: fresh_history_def ensure_observation_fresh_def fresh_points_def)
qed (simp add: fresh_history_def fresh_points_def)

context market_source
begin

lemma one_series:
  "outcomes_p (case v of SPOT \<Rightarrow> mc_spot_candles client iv n t a b | FUTURES \<Rightarrow> mc_futures_candles client iv n t a b)
     presentable series_ok"
  using spot_series futures_series by (cases v) simp_all

lemma required_loop_outcomes:
  assumes "\<forall>r \<in> set rs. 1 \<le> minimum_closed r"
  shows "outcomes_p (required_loop client t rs spot futures) presentable
    (\<lambda>(s, f). \<exists>a b. s = spot @ a \<and> f = futures @ b
      \<and> list_all2 (usable t) (filter (\<lambda>r. rq_venue r = SPOT) rs) a
      \<and> list_all2 (usable t) (filter (\<lambda>r. rq_venue r = FUTURES) rs) b)"
  using assms
proof (induction rs arbitrary: spot futures)
  case Nil
  then show ?case by (simp add: outcomes_p_def)
next
  case (Cons r rs)
  have "outcomes_p (if series_venue s \<noteq> rq_venue r \<or> series_interval s \<noteq> rq_interval r
       then raise_p (MarketDataValidationError ''Market-data client returned a series for the wrong venue or interval'')
       else bind_p (lift_p (ensure_series_usable s t (minimum_closed r))) (\<lambda>_.
         case rq_venue r of
           SPOT \<Rightarrow> required_loop client t rs (spot @ [s]) futures
         | FUTURES \<Rightarrow> required_loop client t rs spot (futures @ [s]))) presentable
    (\<lambda>(s, f). \<exists>a b. s = spot @ a \<and> f = futures @ b
      \<and> list_all2 (usable t) (filter (\<lambda>r. rq_venue r = SPOT) (r # rs)) a
      \<and> list_all2 (usable t) (filter (\<lambda>r. rq_venue r = FUTURES) (r # rs)) b)" if ok: "series_ok s" for s
  proof (cases "series_venue s \<noteq> rq_venue r \<or> series_interval s \<noteq> rq_interval r")
    case True
    then show ?thesis by (simp add: outcomes_p_def is_space_def)
  next
    case False
    have least: "1 \<le> minimum_closed r" using Cons.prems by simp
    have u: "usable t r s" if "ensure_series_usable s t (minimum_closed r) = Inr u" for u
      using ok False that by (simp add: usable_def series_key_def requirement_key_def)
    show ?thesis
    proof (simp only: False if_False, rule outcomes_p_bind)
      show "outcomes_p (lift_p (ensure_series_usable s t (minimum_closed r))) presentable (\<lambda>_. usable t r s)"
        using ensure_series_usable_sound [OF least, of s t] u
        by (cases "ensure_series_usable s t (minimum_closed r)") (simp_all add: outcomes_p_sound)
      show "outcomes_p (case rq_venue r of SPOT \<Rightarrow> required_loop client t rs (spot @ [s]) futures
          | FUTURES \<Rightarrow> required_loop client t rs spot (futures @ [s])) presentable
        (\<lambda>(s, f). \<exists>a b. s = spot @ a \<and> f = futures @ b
          \<and> list_all2 (usable t) (filter (\<lambda>r. rq_venue r = SPOT) (r # rs)) a
          \<and> list_all2 (usable t) (filter (\<lambda>r. rq_venue r = FUTURES) (r # rs)) b)" if "usable t r s" for x
        using Cons.IH [of "spot @ [s]" futures] Cons.IH [of spot "futures @ [s]"] Cons.prems that
        by (cases "rq_venue r") (auto elim!: outcomes_p_mono)
    qed
  qed
  then show ?case by (simp only: required_loop.simps) (rule outcomes_p_bind [OF one_series])
qed

end

lemma list_all2_member: "list_all2 P xs ys \<Longrightarrow> x \<in> set xs \<Longrightarrow> \<exists>y \<in> set ys. P x y"
  by (induction rule: list_all2_induct) auto

lemma list_all2_member2: "list_all2 P xs ys \<Longrightarrow> y \<in> set ys \<Longrightarrow> \<exists>x \<in> set xs. P x y"
  by (induction rule: list_all2_induct) auto

lemma usable_minute:
  assumes "collector_policy_ok p" "list_all2 (usable t) (required_for v p) ss" "v = SPOT \<or> v = FUTURES"
  shows "\<exists>s. minute_series ss = Inr s"
proof -
  have "(v, ONE_MINUTE) \<in> set (map requirement_key (requirements p))" using requirements_okD(2,3) [OF assms(1)] assms(3) by blast
  then obtain r where "r \<in> set (requirements p)" "requirement_key r = (v, ONE_MINUTE)" by (metis imageE list.set_map)
  then have r: "r \<in> set (required_for v p)" "requirement_key r = (v, ONE_MINUTE)"
    by (simp_all add: required_for_def requirement_key_def)
  obtain s where s: "s \<in> set ss" "usable t r s" using list_all2_member [OF assms(2) r(1)] by blast
  have "series_interval s = ONE_MINUTE" using s(2) r(2) by (simp add: usable_def series_key_def)
  then have "List.find (\<lambda>s. series_interval s = ONE_MINUTE) ss \<noteq> None" using s(1) by (auto simp: find_None_iff)
  then show ?thesis by (auto simp: minute_series_def split: option.splits)
qed

lemma check_core_sound:
  assumes "minute_series spot = Inr a" "minute_series futures = Inr b"
  shows "sound (\<lambda>u. check_core t spot futures fd oi = Inr u) (check_core t spot futures fd oi)"
proof -
  have "sound (\<lambda>_. True) (check_core t spot futures fd oi)"
    unfolding check_core_def assms bind_result_Inr
    by (intro sound_bind [OF fresh_sound] sound_bind [OF coherence_sound] sound_mono [OF coherence_sound]; simp add: is_space_def)
  then show ?thesis by (cases "check_core t spot futures fd oi") simp_all
qed

context market_source
begin

lemma required_series_outcomes:
  assumes "collector_policy_ok p"
  shows "outcomes_p (required_series client p t) presentable
    (\<lambda>(s, f). list_all2 (usable t) (required_for SPOT p) s \<and> list_all2 (usable t) (required_for FUTURES p) f)"
  unfolding required_series_def
proof (rule outcomes_p_bind [OF required_loop_outcomes])
  show "\<forall>r \<in> set (requirements p). 1 \<le> minimum_closed r" by (rule requirements_okD(4) [OF assms])
qed (auto simp: outcomes_p_def required_for_def is_space_def)

lemma core_outcomes:
  assumes "collector_policy_ok p" and clock: "outcomes_p clock (\<lambda>_. False) (\<lambda>_. True)"
  shows "outcomes_p (collect_core client p clock) presentable (core_ok p)"
proof -
  have clk: "outcomes_p clock presentable (\<lambda>_. True)" by (rule outcomes_p_mono [OF clock]) auto
  have check: "outcomes_p (bind_p (lift_p (check_core t s f fd oi)) (\<lambda>_.
      return_p \<lparr>cd_as_of = t, cd_spot = s, cd_futures = f, cd_funding = fd, cd_interest = oi\<rparr>)) presentable (core_ok p)"
    if req: "list_all2 (usable t) (required_for SPOT p) s \<and> list_all2 (usable t) (required_for FUTURES p) f" for t s f fd oi
  proof -
    obtain a b where m: "minute_series s = Inr a" "minute_series f = Inr b"
      using usable_minute [OF assms(1), of t SPOT s] usable_minute [OF assms(1), of t FUTURES f] req by auto
    show ?thesis using req check_core_sound [OF m, of t fd oi]
      by (cases "check_core t s f fd oi") (auto simp: outcomes_p_def core_ok_def)
  qed
  have records: "outcomes_p (bind_p (mc_funding client) (\<lambda>fd. bind_p (mc_open_interest client) (\<lambda>oi.
      bind_p (lift_p (check_core t s f fd oi)) (\<lambda>_.
        return_p \<lparr>cd_as_of = t, cd_spot = s, cd_futures = f, cd_funding = fd, cd_interest = oi\<rparr>)))) presentable (core_ok p)"
    if "list_all2 (usable t) (required_for SPOT p) s \<and> list_all2 (usable t) (required_for FUTURES p) f" for t s f
    by (intro outcomes_p_bind [OF funding] outcomes_p_bind [OF interest] check [OF that])
  show ?thesis unfolding collect_core_def
    by (intro outcomes_p_bind [OF spot_time] outcomes_p_bind [OF futures_time] outcomes_p_bind [OF clk]
        outcomes_p_bind [OF iffD2 [OF outcomes_p_sound reference_sound]] outcomes_p_bind [OF required_series_outcomes [OF assms(1)]])
      (auto intro: records)
qed

end

text \<open>What the snapshot of a collection guarantees.\<close>

definition trustworthy :: "market_policy \<Rightarrow> market_snapshot \<Rightarrow> bool" where
  "trustworthy p m \<longleftrightarrow> snapshot_ok m
     \<and> (\<forall>r \<in> set (requirements p). \<exists>s. series_for m (rq_venue r) (rq_interval r) = Inr s \<and> usable (captured_at m) r s)
     \<and> check_core (captured_at m) (spot_series m) (futures_series m) (ms_funding m) (ms_open_interest m) = Inr ()
     \<and> fresh_points funding_time (36 * usec_hour) (captured_at m) (funding_history m)
     \<and> fresh_points oi_observed_at (15 * usec_minute) (captured_at m) (open_interest_history m)
     \<and> fresh_points period_start (15 * usec_minute) (captured_at m) (taker_volume m)"

definition good_collection :: "market_policy \<Rightarrow> collection_result \<Rightarrow> bool" where
  "good_collection p r \<longleftrightarrow> check_collection_result r = Inr r
     \<and> (case cr_snapshot r of None \<Rightarrow> cr_status r = REJECTED | Some m \<Rightarrow> trustworthy p m)"

lemma series_for_key:
  assumes "distinct (map series_key (spot_series m @ futures_series m))" "s \<in> set (spot_series m @ futures_series m)"
  shows "series_for m (series_venue s) (series_interval s) = Inr s"
proof -
  let ?ss = "spot_series m @ futures_series m" and ?P = "\<lambda>x. series_venue x = series_venue s \<and> series_interval x = series_interval s"
  obtain x where x: "List.find ?P ?ss = Some x" using assms(2) by (cases "List.find ?P ?ss") (auto simp: find_None_iff)
  then have "x \<in> set ?ss" "series_key x = series_key s" by (auto dest!: find_SomeD simp: series_key_def)
  then have "x = s" using assms by (metis distinct_map inj_onD)
  then show ?thesis using x by (simp add: series_for_def)
qed

lemma usable_keys: "list_all2 (usable t) rs ss \<Longrightarrow> map series_key ss = map requirement_key rs"
  by (induction rule: list_all2_induct) (auto simp: usable_def)

lemma usable_venue:
  "list_all2 (usable t) (required_for v p) ss \<Longrightarrow> s \<in> set ss \<Longrightarrow> series_venue s = v \<and> series_ok s"
  by (auto dest!: list_all2_member2 simp: required_for_def usable_def series_key_def requirement_key_def)

lemma core_trustworthy:
  assumes "collector_policy_ok p" "core_ok p d"
  shows "check_snapshot (snapshot_from d a b c book) = Inr (snapshot_from d a b c book)"
    and "fresh_points funding_time (36 * usec_hour) (cd_as_of d) a \<Longrightarrow>
      fresh_points oi_observed_at (15 * usec_minute) (cd_as_of d) b \<Longrightarrow>
      fresh_points period_start (15 * usec_minute) (cd_as_of d) c \<Longrightarrow> trustworthy p (snapshot_from d a b c book)"
proof -
  let ?m = "snapshot_from d a b c book"
  have two: "list_all2 (usable (cd_as_of d)) (required_for SPOT p) (cd_spot d)"
    "list_all2 (usable (cd_as_of d)) (required_for FUTURES p) (cd_futures d)" using assms(2) by (simp_all add: core_ok_def)
  have ne: "cd_spot d \<noteq> []" "cd_futures d \<noteq> []"
    using usable_minute [OF assms(1) two(1)] usable_minute [OF assms(1) two(2)] by (auto simp: minute_series_def)
  have sub: "distinct (map requirement_key (required_for v p))" for v
    unfolding required_for_def using requirements_okD(1) [OF assms(1)] by (rule distinct_map_filter)
  have d: "distinct (map series_key (cd_spot d @ cd_futures d))"
    using sub [of SPOT] sub [of FUTURES] unfolding map_append usable_keys [OF two(1)] usable_keys [OF two(2)]
    by (auto simp: required_for_def requirement_key_def)
  show c: "check_snapshot ?m = Inr ?m"
    using ne d usable_venue [OF two(1)] usable_venue [OF two(2)] by (auto simp: check_snapshot_def list_ex_iff snapshot_from_def)
  have ok: "snapshot_ok ?m" using c usable_venue [OF two(1)] usable_venue [OF two(2)] by (auto simp: snapshot_ok_def list_all_iff snapshot_from_def)
  have "\<exists>s. series_for ?m (rq_venue r) (rq_interval r) = Inr s \<and> usable (cd_as_of d) r s" if r: "r \<in> set (requirements p)" for r
  proof -
    have "\<exists>s \<in> set (cd_spot d @ cd_futures d). usable (cd_as_of d) r s"
      using list_all2_member [OF two(1), of r] list_all2_member [OF two(2), of r] r
      by (cases "rq_venue r") (auto simp: required_for_def)
    then obtain s where s: "s \<in> set (cd_spot d @ cd_futures d)" "usable (cd_as_of d) r s" by blast
    then have "series_venue s = rq_venue r" "series_interval s = rq_interval r"
      by (simp_all add: usable_def series_key_def requirement_key_def)
    then show ?thesis using series_for_key [of ?m s] d s by (auto simp: snapshot_from_def)
  qed
  then show "fresh_points funding_time (36 * usec_hour) (cd_as_of d) a \<Longrightarrow>
      fresh_points oi_observed_at (15 * usec_minute) (cd_as_of d) b \<Longrightarrow>
      fresh_points period_start (15 * usec_minute) (cd_as_of d) c \<Longrightarrow> trustworthy p ?m"
    using ok assms(2) by (simp add: trustworthy_def core_ok_def snapshot_from_def)
qed

lemma optional_input_outcomes:
  assumes "outcomes_p m presentable good" "\<not> blank source"
  shows "outcomes_p (optional_input source missing m) (\<lambda>_. False) (\<lambda>(v, _). \<forall>x. v = Some x \<longrightarrow> \<not> missing x \<and> good x)"
proof -
  have inner: "outcomes_p (bind_p m (\<lambda>x. if missing x then raise_p (MarketDataValidationError (source @ '' returned no records''))
      else return_p x)) presentable (\<lambda>x. \<not> missing x \<and> good x)"
    by (rule outcomes_p_bind [OF assms(1)]) (auto simp: outcomes_p_def assms(2))
  have bad: "\<not> (presentable e \<and> market_error_text e = None)" for e using presentableD by blast
  show ?thesis unfolding optional_input_def
  proof (rule outcomes_p_bind)
    show "outcomes_p (try_p market_error_text (bind_p m (\<lambda>x.
        if missing x then raise_p (MarketDataValidationError (source @ '' returned no records'')) else return_p x))) (\<lambda>_. False)
      (\<lambda>r. case r of Inl e \<Rightarrow> presentable e | Inr x \<Rightarrow> \<not> missing x \<and> good x)"
      by (rule outcomes_p_mono [OF outcomes_p_try [OF inner, of market_error_text]]) (use bad in \<open>auto split: sum.splits\<close>)
    show "outcomes_p (case r of Inr x \<Rightarrow> return_p (Some x, []) | Inl e \<Rightarrow>
        bind_p (lift_p (issue_of source e False)) (\<lambda>i. return_p (None, [i]))) (\<lambda>_. False)
      (\<lambda>(v, _). \<forall>x. v = Some x \<longrightarrow> \<not> missing x \<and> good x)"
      if pre: "case r of Inl e \<Rightarrow> presentable e | Inr x \<Rightarrow> \<not> missing x \<and> good x" for r
    proof (cases r)
      case (Inl e)
      then obtain i where "issue_of source e False = Inr i" using pre issue_of_Inr [OF _ assms(2), of e False] by auto
      then show ?thesis using Inl by (simp add: outcomes_p_def)
    next
      case (Inr x)
      then show ?thesis using pre by (simp add: outcomes_p_def)
    qed
  qed
qed

lemma assemble_ok:
  assumes "fh \<noteq> Some []" "oh \<noteq> Some []" "tv \<noteq> Some []"
  shows "\<exists>a b c issues. assemble core fh oh tv book is = Inr (snapshot_from core a b c book, issues)
    \<and> fresh_points funding_time (36 * usec_hour) (cd_as_of core) a
    \<and> fresh_points oi_observed_at (15 * usec_minute) (cd_as_of core) b
    \<and> fresh_points period_start (15 * usec_minute) (cd_as_of core) c"
proof -
  have names: "\<not> blank ''funding_history''" "\<not> blank ''open_interest_history''" "\<not> blank ''taker_volume''"
    by (simp_all add: blank_def is_space_def)
  obtain a i where "fresh_history fh ''funding_history'' funding_time (36 * usec_hour) (cd_as_of core) = Inr (a, i)"
    "fresh_points funding_time (36 * usec_hour) (cd_as_of core) a" using fresh_history_ok [OF names(1) assms(1)] by blast
  moreover obtain b j where "fresh_history oh ''open_interest_history'' oi_observed_at (15 * usec_minute) (cd_as_of core) = Inr (b, j)"
    "fresh_points oi_observed_at (15 * usec_minute) (cd_as_of core) b" using fresh_history_ok [OF names(2) assms(2)] by blast
  moreover obtain c k where "fresh_history tv ''taker_volume'' period_start (15 * usec_minute) (cd_as_of core) = Inr (c, k)"
    "fresh_points period_start (15 * usec_minute) (cd_as_of core) c" using fresh_history_ok [OF names(3) assms(3)] by blast
  ultimately show ?thesis by (auto simp: assemble_def)
qed

lemma rejected_good:
  "presentable e \<Longrightarrow> \<not> blank source \<Longrightarrow> outcomes_p (lift_p (rejected_collection source e)) (\<lambda>_. False) (good_collection p)"
  using rejected_collection_Inr [of e source] by (auto simp: outcomes_p_def good_collection_def check_collection_result_def)

lemma finish_good:
  assumes "collector_policy_ok p" "core_ok p core" "fresh_points funding_time (36 * usec_hour) (cd_as_of core) a"
    "fresh_points oi_observed_at (15 * usec_minute) (cd_as_of core) b" "fresh_points period_start (15 * usec_minute) (cd_as_of core) c"
  shows "outcomes_p (lift_p (finish_collection (snapshot_from core a b c book) issues)) (\<lambda>_. False) (good_collection p)"
proof -
  let ?m = "snapshot_from core a b c book"
  note t = core_trustworthy [OF assms(1,2), of a b c book]
  let ?r = "\<lparr>cr_status = (if issues \<noteq> [] then DEGRADED else ACCEPTED), cr_snapshot = Some ?m, cr_issues = issues\<rparr>"
  have r: "check_collection_result ?r = Inr ?r" by (cases issues) (simp_all add: check_collection_result_def)
  then have "finish_collection ?m issues = Inr ?r" by (simp add: finish_collection_def t(1))
  moreover have "good_collection p ?r" using r t(2) [OF assms(3-5)] by (simp add: good_collection_def)
  ultimately show ?thesis by (simp add: outcomes_p_lift)
qed

text \<open>The last check, that the collection did not take too long.\<close>

lemma finishing_outcomes:
  assumes "collector_policy_ok p" "core_ok p core" "outcomes_p clock (\<lambda>_. False) (\<lambda>_. True)"
    "fh \<noteq> Some []" "oh \<noteq> Some []" "tv \<noteq> Some []"
  shows "outcomes_p (bind_p (lift_p (assemble core fh oh tv book is)) (\<lambda>(m, issues).
      bind_p (try_p market_error_text (bind_p clock (\<lambda>now.
        lift_p (ensure_observation_fresh (cd_as_of core) now (2 * usec_minute) ''market-data collection'')))) (\<lambda>late.
        case late of Inl e \<Rightarrow> lift_p (rejected_collection ''collection_duration'' e)
        | Inr _ \<Rightarrow> lift_p (finish_collection m issues)))) (\<lambda>_. False) (good_collection p)"
proof -
  obtain a b c issues where s: "assemble core fh oh tv book is = Inr (snapshot_from core a b c book, issues)"
    "fresh_points funding_time (36 * usec_hour) (cd_as_of core) a"
    "fresh_points oi_observed_at (15 * usec_minute) (cd_as_of core) b"
    "fresh_points period_start (15 * usec_minute) (cd_as_of core) c" using assemble_ok [OF assms(4-6)] by blast
  have n: "\<not> blank ''market-data collection''" "\<not> blank ''collection_duration''" by (simp_all add: blank_def is_space_def)
  let ?late = "bind_p clock (\<lambda>now. lift_p (ensure_observation_fresh (cd_as_of core) now (2 * usec_minute) ''market-data collection''))"
  have t: "outcomes_p ?late presentable (\<lambda>_. True)"
    by (rule outcomes_p_bind [OF outcomes_p_mono [OF assms(3)]])
      (auto simp: outcomes_p_sound intro: sound_mono [OF fresh_sound [OF n(1)]])
  have "outcomes_p (try_p market_error_text ?late) (\<lambda>_. False) (\<lambda>r. case r of Inl e \<Rightarrow> presentable e | Inr _ \<Rightarrow> True)"
    by (rule outcomes_p_mono [OF outcomes_p_try [OF t, of market_error_text]])
      (auto dest: presentableD split: sum.splits)
  then have rest: "outcomes_p (bind_p (try_p market_error_text ?late) (\<lambda>late.
      case late of Inl e \<Rightarrow> lift_p (rejected_collection ''collection_duration'' e)
      | Inr _ \<Rightarrow> lift_p (finish_collection (snapshot_from core a b c book) issues))) (\<lambda>_. False) (good_collection p)"
  proof (rule outcomes_p_bind)
    show "outcomes_p (case r of Inl e \<Rightarrow> lift_p (rejected_collection ''collection_duration'' e)
        | Inr _ \<Rightarrow> lift_p (finish_collection (snapshot_from core a b c book) issues)) (\<lambda>_. False) (good_collection p)"
      if "case r of Inl e \<Rightarrow> presentable e | Inr _ \<Rightarrow> True" for r
      using that rejected_good [OF _ n(2)] finish_good [OF assms(1,2) s(2-4)] by (cases r) simp_all
  qed
  show ?thesis
    by (rule outcomes_p_bind [where mid = "\<lambda>x. x = (snapshot_from core a b c book, issues)"])
      (simp_all add: outcomes_p_lift s(1) rest)
qed

context market_source
begin

lemma collect_outcomes:
  assumes "collector_policy_ok p" and clock: "outcomes_p clock (\<lambda>_. False) (\<lambda>_. True)"
  shows "outcomes_p (collect_market client p clock) (\<lambda>_. False) (good_collection p)"
proof -
  have n: "\<not> blank ''core''" "\<not> blank ''funding_history''" "\<not> blank ''open_interest_history''" "\<not> blank ''taker_volume''"
    "\<not> blank ''spot_order_book''" by (simp_all add: blank_def is_space_def)
  have core: "outcomes_p (try_p market_error_text (collect_core client p clock)) (\<lambda>_. False)
      (\<lambda>r. case r of Inl e \<Rightarrow> presentable e | Inr d \<Rightarrow> core_ok p d)"
    by (rule outcomes_p_mono [OF outcomes_p_try [OF core_outcomes [OF assms], of market_error_text]])
      (auto dest: presentableD split: sum.splits)
  note optional = outcomes_p_bind [OF optional_input_outcomes [OF funding_points n(2)]]
    outcomes_p_bind [OF optional_input_outcomes [OF interest_points n(3)]]
    outcomes_p_bind [OF optional_input_outcomes [OF taker_points n(4)]]
    outcomes_p_bind [OF optional_input_outcomes [OF book n(5)]]
  show ?thesis unfolding collect_market_def
  proof (rule outcomes_p_bind [OF core])
    fix r assume "case r of Inl e \<Rightarrow> presentable e | Inr d \<Rightarrow> core_ok p d"
    then show "outcomes_p (case r of Inl e \<Rightarrow> lift_p (rejected_collection ''core'' e)
       | Inr core \<Rightarrow>
           bind_p (optional_input ''funding_history'' (\<lambda>xs. xs = [])
                     (mc_funding_history client (min (optional_history_limit p) 1000) None None)) (\<lambda>(fh, i1).
           bind_p (optional_input ''open_interest_history'' (\<lambda>xs. xs = [])
                     (mc_interest_history client P_FIVE_MINUTES (optional_history_limit p) None None)) (\<lambda>(oh, i2).
           bind_p (optional_input ''taker_volume'' (\<lambda>xs. xs = [])
                     (mc_taker_volume client P_FIVE_MINUTES (optional_history_limit p) None None)) (\<lambda>(tv, i3).
           bind_p (optional_input ''spot_order_book'' (\<lambda>_. False)
                     (mc_order_book client (cd_as_of core) (order_book_limit p))) (\<lambda>(book, i4).
           bind_p (lift_p (assemble core fh oh tv book (i1 @ i2 @ i3 @ i4))) (\<lambda>(m, issues).
           bind_p (try_p market_error_text (bind_p clock (\<lambda>now.
                     lift_p (ensure_observation_fresh (cd_as_of core) now (2 * usec_minute) ''market-data collection'')))) (\<lambda>late.
             case late of
               Inl e \<Rightarrow> lift_p (rejected_collection ''collection_duration'' e)
             | Inr _ \<Rightarrow> lift_p (finish_collection m issues))))))))
      (\<lambda>_. False) (good_collection p)"
    proof (cases r)
      case (Inl e)
      then show ?thesis using \<open>case r of Inl e \<Rightarrow> _ e | Inr d \<Rightarrow> _ d\<close> rejected_good [OF _ n(1)] by simp
    next
      case (Inr d)
      then have d: "core_ok p d" using \<open>case r of Inl e \<Rightarrow> _ e | Inr d \<Rightarrow> _ d\<close> by simp
      show ?thesis unfolding Inr sum.case
        by (rule optional, clarify)+ (rule finishing_outcomes [OF assms(1) d clock]; auto)
    qed
  qed
qed

end


text \<open>
  An exchange on which the witness evaluates: every answer is its own URL, decoded by path; the
  optional histories are missing.
\<close>

definition sample_candle_json :: json where
  "sample_candle_json = J_list [J_int 60000, J_text ''100'', J_text ''101'', J_text ''99'', J_text ''100'', J_text ''1'',
     J_int 119999, J_text ''1'', J_int 0, J_text ''0'', J_text ''0'', J_text ''0'']"

definition sample_answer :: "string \<Rightarrow> json option" where
  "sample_answer url =
     (if url \<in> {''https://api.binance.com/api/v3/time'', ''https://fapi.binance.com/fapi/v1/time''}
      then Some (J_object [(''serverTime'', J_int 150000)])
      else if url \<in> {''https://api.binance.com/api/v3/klines'', ''https://fapi.binance.com/fapi/v1/klines''}
      then Some (J_list [sample_candle_json])
      else if url = ''https://fapi.binance.com/fapi/v1/premiumIndex''
      then Some (J_object [(''symbol'', J_text ''BTCUSDT''), (''markPrice'', J_text ''101''), (''indexPrice'', J_text ''101''),
        (''lastFundingRate'', J_text ''0''), (''nextFundingTime'', J_int 200000), (''time'', J_int 150000)])
      else if url = ''https://fapi.binance.com/fapi/v1/openInterest''
      then Some (J_object [(''symbol'', J_text ''BTCUSDT''), (''openInterest'', J_text ''1''), (''time'', J_int 150000)])
      else None)"

definition sample_environment :: "nat environment" where
  "sample_environment = failing_environment
     \<lparr>open_url := (\<lambda>url t w. (Opened \<lparr>status_code = 200, rr_headers = [], body = url\<rparr>, Suc w)), decode_json := sample_answer\<rparr>"

definition sample_decimals :: decimal_library where
  "sample_decimals = \<lparr>decimal_of_text = (\<lambda>t. map_of [(''0'', Finite 0), (''1'', Finite 1), (''99'', Finite 99),
     (''100'', Finite 100), (''101'', Finite 101)] t), decimal_of_list = (\<lambda>_. None)\<rparr>"

definition sample_policy :: market_policy where
  "sample_policy = \<lparr>requirements = [requirement SPOT ONE_MINUTE 1 2, requirement FUTURES ONE_MINUTE 1 2],
     optional_history_limit = 100, order_book_limit = 100\<rparr>"

definition sample_collection :: "collection_result result" where
  "sample_collection = fst (collect_market (binance_client (get_json sample_environment (default_settings\<lparr>maximum_response_bytes := 100\<rparr>)) sample_decimals)
     sample_policy (return_p 150000000) (Map.empty, 0))"

lemma sample_collected: "(case sample_collection of Inr r \<Rightarrow> cr_status r = DEGRADED | Inl _ \<Rightarrow> False)"
  by code_simp


end
