(* ===== verification/Spec2Isabelle.thy ===== *)
theory Spec2Isabelle
  imports MarketData BacktestLaws WalkForward Signals Collector
begin

text \<open>
  BTC Sentinel (package \<^verbatim>\<open>btc_sentinel\<close>) watches the BTCUSDT market on public data, proposes a
  paper signal when every gate agrees, follows it candle by candle to its outcome, keeps an
  append-only journal in SQLite, reports statistics, and backtests its rules.  It never trades.

  \<^bold>\<open>The parts and how they interact.\<close>  A run collects a market snapshot and the news.  The
  analyzer turns the snapshot into a directional bias, a regime and a score; the news engine
  turns the news into a decision (clear, caution, block); the signal engine admits or rejects a
  new signal from both.  A signal is stored with its terms.  The lifecycle engine replays
  completed one-minute candles against a stored signal: activation, expiry, and the exits of
  its two tracks (the fixed one keeps the original stop, the managed one may move it), each
  write through the repository, with a checkpoint after each candle.  The management engine
  does the same for decisions on the managed track.  Statistics are computed from the stored
  outcomes.  The backtester simulates the fixed track of historical signals and judges them by
  walk-forward folds.

  \<^bold>\<open>Theories and code\<close> (paths under \<^verbatim>\<open>src/src/btc_sentinel/\<close>).
  \<^item> \<open>Prelude\<close>: \<^verbatim>\<open>errors.py\<close> as the type \<open>exn\<close>; results, programs with state, shared list lemmas,
    the collections \<open>result_simps\<close> and \<open>keep_simps\<close>.
  \<^item> \<open>Decimals\<close>: \<^verbatim>\<open>decimal.Decimal\<close> in the default context; \<open>Calendar\<close>: \<^verbatim>\<open>datetime\<close> in UTC;
    \<open>PyText\<close>: \<^verbatim>\<open>str\<close> and \<^verbatim>\<open>join\<close>.
  \<^item> \<open>Domain\<close>: \<^verbatim>\<open>domain/\<close> (signals, terms, identifiers, transition tables), \<^verbatim>\<open>time_utils.py\<close>.
  \<^item> \<open>MarketData\<close>: \<^verbatim>\<open>market_data/enums.py\<close>, \<^verbatim>\<open>models.py\<close>, \<^verbatim>\<open>validation.py\<close>.
  \<^item> \<open>Boundary\<close>: JSON values, exception texts and the \<^verbatim>\<open>try\<close> statement; \<open>Transport\<close>, \<open>Binance\<close> and
    \<open>Collector\<close>: \<^verbatim>\<open>market_data/transport.py\<close>, \<^verbatim>\<open>binance.py\<close> and \<^verbatim>\<open>collector.py\<close>.
  \<^item> \<open>Indicators\<close>, \<open>Structure\<close>, \<open>Analysis\<close>: \<^verbatim>\<open>analysis/\<close>.
  \<^item> \<open>News\<close>: \<^verbatim>\<open>news/models.py\<close>, \<^verbatim>\<open>sources.py\<close>, \<^verbatim>\<open>engine.py\<close>.
  \<^item> \<open>Signals\<close>: \<^verbatim>\<open>signals/\<close>.
  \<^item> \<open>TradeRecords\<close>, \<open>Statistics\<close>: the records read from the store; \<^verbatim>\<open>statistics/\<close>.
  \<^item> \<open>Repository\<close>: \<^verbatim>\<open>persistence/sqlite_repository.py\<close> over \<^verbatim>\<open>migrations/0001_initial.sql\<close>;
    \<open>RepositoryLaws\<close>, \<open>RepositoryInvariant\<close>, \<open>RepositoryProperties\<close> and \<open>RepositorySuccess\<close> hold
    the laws of its methods, the invariant \<open>db_ok\<close> over the step relation \<open>repo_step\<close>, what
    the reachable databases promise, and when a method succeeds.
  \<^item> \<open>SignalStore\<close>: \<^verbatim>\<open>persistence/repository.py\<close>, the port the engines are written against.
  \<^item> \<open>Lifecycle\<close>, \<open>LifecycleSuccess\<close>: \<^verbatim>\<open>lifecycle/engine.py\<close>; \<open>Management\<close>: \<^verbatim>\<open>management/engine.py\<close>.
  \<^item> \<open>Backtest\<close>, \<open>BacktestLaws\<close>: \<^verbatim>\<open>backtesting/models.py\<close> and \<^verbatim>\<open>simulator.py\<close>; \<open>WalkForward\<close>:
    \<^verbatim>\<open>backtesting/engine.py\<close>.

  \<^bold>\<open>How state and operations correspond.\<close>  A dataclass is a record, its \<^verbatim>\<open>__post_init__\<close> a function
  \<open>check_...\<close> that returns the record or the exception; an enum is a datatype.  A pure function
  that may raise returns a \<open>result\<close>.  A method of the repository maps the tables to new tables
  or an exception (a transaction).  An engine is a program over the port that keeps the state
  reached when an exception escapes.  A signal step of the lifecycle engine is specified by
  \<open>signal_step\<close> on the signal alone, and the engine refines it.

  \<^bold>\<open>Interfaces.\<close>  \<open>decimal_rounding\<close> (monotone, odd, idempotent rounding; interpreted by the 28-digit
  rounding), \<open>checkpoint_store\<close>, \<open>signal_store\<close> and its extension \<open>decision_store\<close> (what a read
  returns after each write; interpreted by the SQLite model), \<open>json_source\<close> (every exception of a
  fetch is a market-data error with a text; interpreted by the retrying transport) and
  \<open>market_source\<close> (valid records or such an exception; interpreted by the Binance client over
  that transport).  The engines' and the collector's properties are
  proved inside these locales and reached through the interpretations.

  \<^bold>\<open>Loops.\<close>  All loops are structural recursions except the walk-forward loop, a
  \<open>partial_function\<close> whose return is proved; no fuel is used.

  \<^bold>\<open>Parameters.\<close>  Code outside the repository is an argument of the definitions that use it: the
  text of a decimal (\<open>show_dec\<close>), URL parsing, Unicode normalization and the hash
  (\<open>text_library\<close>), the network, clock and decoders of the transport (\<open>environment\<close>), and \<^verbatim>\<open>Decimal\<close>
  of a text or a list (\<open>decimal_library\<close>).  The hypothesis \<open>hashes\<close> states that a digest is not empty.

  \<^bold>\<open>Modelling decisions.\<close>  A \<^verbatim>\<open>Decimal\<close> is its value, rounded half-even to 28 digits by each
  operation; exponent limits are not modelled.  A \<^verbatim>\<open>datetime\<close> is its instant in microseconds;
  stored timestamps keep whole seconds.  Row identifiers (\<^verbatim>\<open>uuid4\<close>) are dropped.  Strings are
  ASCII.

  \<^bold>\<open>What the lemmas show.\<close>  Validity and bounds of every record and routine; the repository's
  invariant and when its methods succeed; refinement of the candle specification by the
  lifecycle engine, its crash recovery and its return on gapless series; the effect of
  management; agreement of the backtest with the lifecycle engine; soundness and termination of
  the walk-forward loop; what the analysis, the news decision and a created signal guarantee;
  and that a collection, over any network, yields a snapshot on which the analysis is total.

  \<^bold>\<open>Not modelled.\<close>  The signed client of the remote state service, the command-line jobs, feed
  parsing and downloads: their behaviour is mostly that of services and libraries outside the
  repository (HTTP, XML, hashing, archives).  The orchestrator, report texts, configuration and
  the historical data sets, which are Python of their own, are not modelled either.
\<close>

end
